(* ===== verification/Prelude.thy ===== *)
theory Prelude
  imports Main "HOL-Library.Word" "HOL-Library.AList" "HOL-Library.Monad_Syntax"
begin

text \<open>
  What the component theories share: the machine integer types, byte strings and their
  big- and little-endian encodings, slices, the association-list model of
  \<open>std::collections::HashMap\<close>, UTF-8 validity (\<open>std::str::from_utf8\<close>), and the locale of
  frame codecs that every wire format of the crate satisfies.
\<close>

section \<open>Collections of facts\<close>

named_theorems layout_simps \<open>lengths and slices of fixed layouts\<close>
named_theorems map_simps \<open>lookups after insert, remove and retain\<close>

section \<open>Machine integers, bytes, time\<close>

type_synonym u8 = "8 word"
type_synonym u16 = "16 word"
type_synonym u32 = "32 word"
type_synonym u64 = "64 word"
type_synonym bytes = "8 word list"

text \<open>
  \<open>usize\<close> counts of things in memory are \<^typ>\<open>nat\<close>. \<open>Instant\<close> and \<open>Duration\<close> are nanoseconds as
  \<^typ>\<open>nat\<close>: \<open>Instant::duration_since\<close> and \<open>saturating_duration_since\<close> answer zero for a later
  instant, which is what truncated subtraction does.
\<close>

type_synonym instant = nat
type_synonym duration = nat

definition from_secs :: "nat \<Rightarrow> duration" where
  "from_secs s = s * 1000000000"

definition from_millis :: "nat \<Rightarrow> duration" where
  "from_millis ms = ms * 1000000"

definition duration_since :: "instant \<Rightarrow> instant \<Rightarrow> duration" where
  "duration_since now t = now - t"

text \<open>\<open>n as i32\<close> for an unsigned \<open>n\<close>: the low 32 bits read as two's complement.\<close>

definition as_i32 :: "nat \<Rightarrow> int" where
  "as_i32 n = sint (word_of_nat n :: 32 word)"

section \<open>Integers as bytes\<close>

fun le_bytes :: "nat \<Rightarrow> nat \<Rightarrow> bytes" where
  "le_bytes 0 x = []"
| "le_bytes (Suc n) x = word_of_nat (x mod 256) # le_bytes n (x div 256)"

fun le_value :: "bytes \<Rightarrow> nat" where
  "le_value [] = 0"
| "le_value (b # bs) = unat b + 256 * le_value bs"

definition be_bytes :: "nat \<Rightarrow> nat \<Rightarrow> bytes" where
  "be_bytes n x = rev (le_bytes n x)"

definition be_value :: "bytes \<Rightarrow> nat" where
  "be_value bs = le_value (rev bs)"

text \<open>\<open>to_ne_bytes\<close> follows the target's byte order, which is a parameter here.\<close>

datatype endian = Little | Big

definition ne_bytes :: "endian \<Rightarrow> nat \<Rightarrow> nat \<Rightarrow> bytes" where
  "ne_bytes e n x = (case e of Little \<Rightarrow> le_bytes n x | Big \<Rightarrow> be_bytes n x)"

definition ne_value :: "endian \<Rightarrow> bytes \<Rightarrow> nat" where
  "ne_value e bs = (case e of Little \<Rightarrow> le_value bs | Big \<Rightarrow> be_value bs)"

text \<open>\<open>bs[i..i+n]\<close>.\<close>

definition slice :: "nat \<Rightarrow> nat \<Rightarrow> bytes \<Rightarrow> bytes" where
  "slice i n bs = take n (drop i bs)"

text \<open>\<open>buf[off..off+len].copy_from_slice(bs)\<close> inside the buffer.\<close>

definition write_at :: "bytes \<Rightarrow> nat \<Rightarrow> bytes \<Rightarrow> bytes" where
  "write_at buf off bs = take off buf @ bs @ drop (off + length bs) buf"

text \<open>The bytes of an ASCII literal.\<close>

definition ascii :: "string \<Rightarrow> bytes" where
  "ascii s = map (\<lambda>c. of_char c) s"

section \<open>UTF-8\<close>

definition cont_byte :: "u8 \<Rightarrow> bool" where
  "cont_byte b \<longleftrightarrow> 0x80 \<le> b \<and> b \<le> 0xbf"

text \<open>\<open>std::str::from_utf8\<close> succeeds exactly on the well-formed sequences of RFC 3629.\<close>

fun utf8_valid :: "bytes \<Rightarrow> bool" where
  "utf8_valid [] = True"
| "utf8_valid (a # r) =
     (if a \<le> 0x7f then utf8_valid r
      else if 0xc2 \<le> a \<and> a \<le> 0xdf then
        (case r of b # r' \<Rightarrow> cont_byte b \<and> utf8_valid r' | _ \<Rightarrow> False)
      else if 0xe0 \<le> a \<and> a \<le> 0xef then
        (case r of b # c # r' \<Rightarrow>
             cont_byte b \<and> cont_byte c \<and> (a = 0xe0 \<longrightarrow> 0xa0 \<le> b) \<and> (a = 0xed \<longrightarrow> b \<le> 0x9f)
             \<and> utf8_valid r' | _ \<Rightarrow> False)
      else if 0xf0 \<le> a \<and> a \<le> 0xf4 then
        (case r of b # c # d # r' \<Rightarrow>
             cont_byte b \<and> cont_byte c \<and> cont_byte d \<and> (a = 0xf0 \<longrightarrow> 0x90 \<le> b)
             \<and> (a = 0xf4 \<longrightarrow> b \<le> 0x8f) \<and> utf8_valid r' | _ \<Rightarrow> False)
      else False)"

section \<open>Hash maps\<close>

text \<open>
  A \<open>HashMap\<close> is an association list with distinct keys; the list's order stands for the
  map's iteration order, which Rust does not specify.
\<close>

type_synonym ('k, 'v) hashmap = "('k \<times> 'v) list"

abbreviation hm_get :: "('k, 'v) hashmap \<Rightarrow> 'k \<Rightarrow> 'v option" where
  "hm_get \<equiv> map_of"

definition hm_insert :: "'k \<Rightarrow> 'v \<Rightarrow> ('k, 'v) hashmap \<Rightarrow> ('k, 'v) hashmap" where
  "hm_insert k v m = AList.update k v m"

definition hm_remove :: "'k \<Rightarrow> ('k, 'v) hashmap \<Rightarrow> ('k, 'v) hashmap" where
  "hm_remove k m = AList.delete k m"

definition hm_retain :: "('k \<Rightarrow> 'v \<Rightarrow> bool) \<Rightarrow> ('k, 'v) hashmap \<Rightarrow> ('k, 'v) hashmap" where
  "hm_retain P m = filter (\<lambda>(k, v). P k v) m"

text \<open>\<open>retain\<close> with a closure that changes the values it keeps.\<close>

definition hm_retain_mut :: "('k \<Rightarrow> 'v \<Rightarrow> 'v option) \<Rightarrow> ('k, 'v) hashmap \<Rightarrow> ('k, 'v) hashmap" where
  "hm_retain_mut f m = List.map_filter (\<lambda>(k, v). map_option (Pair k) (f k v)) m"

definition hm_contains :: "('k, 'v) hashmap \<Rightarrow> 'k \<Rightarrow> bool" where
  "hm_contains m k \<longleftrightarrow> map_of m k \<noteq> None"

abbreviation hm_len :: "('k, 'v) hashmap \<Rightarrow> nat" where
  "hm_len \<equiv> length"

abbreviation hm_keys :: "('k, 'v) hashmap \<Rightarrow> 'k set" where
  "hm_keys m \<equiv> fst ` set m"

definition hm_wf :: "('k, 'v) hashmap \<Rightarrow> bool" where
  "hm_wf m \<longleftrightarrow> distinct (map fst m)"

section \<open>Facts on bytes\<close>

lemma length_le_bytes [simp, layout_simps]: "length (le_bytes n x) = n"
  by (induction n arbitrary: x) auto

lemma length_be_bytes [simp, layout_simps]: "length (be_bytes n x) = n"
  by (simp add: be_bytes_def)

lemma length_ne_bytes [simp, layout_simps]: "length (ne_bytes e n x) = n"
  by (simp add: ne_bytes_def split: endian.splits)

lemma le_value_le_bytes: "le_value (le_bytes n x) = x mod 256 ^ n"
proof (induction n arbitrary: x)
  case (Suc n)
  have "unat (word_of_nat (x mod 256) :: u8) = x mod 256"
    by (simp add: unat_of_nat take_bit_eq_mod)
  then show ?case using Suc by (simp add: mod_mult2_eq)
qed simp

lemma le_bytes_le_value: "le_bytes (length bs) (le_value bs) = bs"
proof (induction bs)
  case (Cons b bs)
  have "unat b < 256" using unsigned_less [of b, where ?'a = nat] by simp
  then show ?case using Cons by simp
qed simp

lemma le_value_bound: "le_value bs < 256 ^ length bs"
proof (induction bs)
  case (Cons b bs)
  have "unat b < 256" using unsigned_less [of b, where ?'a = nat] by simp
  with Cons show ?case by simp
qed simp

lemma be_value_be_bytes: "be_value (be_bytes n x) = x mod 256 ^ n"
  by (simp add: be_value_def be_bytes_def le_value_le_bytes)

lemma be_bytes_be_value: "be_bytes (length bs) (be_value bs) = bs"
  using le_bytes_le_value [of "rev bs"] by (simp add: be_value_def be_bytes_def)

lemma be_value_bound: "be_value bs < 256 ^ length bs"
  using le_value_bound [of "rev bs"] by (simp add: be_value_def)

lemma ne_value_ne_bytes: "ne_value e (ne_bytes e n x) = x mod 256 ^ n"
  by (simp add: ne_value_def ne_bytes_def le_value_le_bytes be_value_be_bytes split: endian.splits)

lemma ne_value_unat16 [simp]: "ne_value e (ne_bytes e 2 (unat (w :: u16))) = unat w"
  using unsigned_less [of w, where ?'a = nat] by (simp add: ne_value_ne_bytes)

lemma ne_value_unat32 [simp]: "ne_value e (ne_bytes e 4 (unat (w :: u32))) = unat w"
  using unsigned_less [of w, where ?'a = nat] by (simp add: ne_value_ne_bytes)

lemma ne_value_unat64 [simp]: "ne_value e (ne_bytes e 8 (unat (w :: u64))) = unat w"
  using unsigned_less [of w, where ?'a = nat] by (simp add: ne_value_ne_bytes)

lemma be_value_unat64 [simp]: "be_value (be_bytes 8 (unat (w :: u64))) = unat w"
  using unsigned_less [of w, where ?'a = nat] by (simp add: be_value_be_bytes)

lemma be_bytes_unat64:
  "length bs = 8 \<Longrightarrow> be_bytes 8 (unat (word_of_nat (be_value bs) :: u64)) = bs"
  using be_value_bound [of bs] be_bytes_be_value [of bs]
  by (simp add: unat_of_nat take_bit_eq_mod)

lemma length_slice [simp, layout_simps]: "length (slice i n bs) = min n (length bs - i)"
  by (simp add: slice_def)

lemma slice_append_left [layout_simps]:
  "i + n \<le> length xs \<Longrightarrow> slice i n (xs @ ys) = slice i n xs"
  by (simp add: slice_def)

lemma slice_append_right [layout_simps]:
  "length xs \<le> i \<Longrightarrow> slice i n (xs @ ys) = slice (i - length xs) n ys"
  by (simp add: slice_def)

lemma slice_all [layout_simps]: "length xs = n \<Longrightarrow> slice 0 n xs = xs"
  by (simp add: slice_def)

lemma slice_split: "slice i m bs @ slice (i + m) n bs = slice i (m + n) bs"
  by (simp add: slice_def take_add add.commute)

lemma length_write_at [simp]:
  "off + length bs \<le> length buf \<Longrightarrow> length (write_at buf off bs) = length buf"
  by (simp add: write_at_def)

lemma take_write_at:
  "off + length bs \<le> length buf \<Longrightarrow>
   take (off + length bs) (write_at buf off bs) = take off buf @ bs"
  by (simp add: write_at_def)

lemma length_ascii [simp, layout_simps]: "length (ascii s) = length s"
  by (simp add: ascii_def)

lemma as_i32_small: "n < 2 ^ 31 \<Longrightarrow> as_i32 n = int n"
  by (simp add: as_i32_def signed_of_nat signed_take_bit_int_eq_self)

section \<open>Facts on hash maps\<close>

lemma hm_get_insert [simp, map_simps]: "hm_get (hm_insert k v m) = (hm_get m)(k \<mapsto> v)"
  by (simp add: hm_insert_def update_conv')

lemma hm_get_remove [simp, map_simps]: "hm_get (hm_remove k m) = (hm_get m)(k := None)"
  by (simp add: hm_remove_def delete_conv')

lemma hm_keys_insert [simp]: "hm_keys (hm_insert k v m) = insert k (hm_keys m)"
  by (simp add: hm_insert_def dom_update)

lemma hm_keys_remove [simp]: "hm_keys (hm_remove k m) = hm_keys m - {k}"
  using delete_keys [of k m] by (simp add: hm_remove_def flip: set_map)

lemma hm_wf_nil [simp]: "hm_wf []"
  by (simp add: hm_wf_def)

lemma hm_wf_insert [simp]: "hm_wf m \<Longrightarrow> hm_wf (hm_insert k v m)"
  by (simp add: hm_wf_def hm_insert_def distinct_update)

lemma hm_wf_remove [simp]: "hm_wf m \<Longrightarrow> hm_wf (hm_remove k m)"
  by (simp add: hm_wf_def hm_remove_def distinct_delete)

lemma hm_wf_retain [simp]: "hm_wf m \<Longrightarrow> hm_wf (hm_retain P m)"
  by (simp add: hm_wf_def hm_retain_def distinct_map_filter)

lemma hm_contains_keys: "hm_contains m k \<longleftrightarrow> k \<in> hm_keys m"
  by (simp add: hm_contains_def map_of_eq_None_iff)

lemma hm_len_keys: "hm_wf m \<Longrightarrow> hm_len m = card (hm_keys m)"
  by (metis distinct_card hm_wf_def length_map list.set_map)

lemma hm_len_insert:
  "hm_wf m \<Longrightarrow> hm_len (hm_insert k v m) = (if hm_contains m k then hm_len m else Suc (hm_len m))"
  by (simp add: hm_len_keys hm_contains_keys card_insert_if)

lemma hm_len_insert_le: "hm_len (hm_insert k v m) \<le> Suc (hm_len m)"
  by (induction m) (auto simp: hm_insert_def)

lemma hm_len_remove:
  "hm_wf m \<Longrightarrow> hm_len (hm_remove k m) = (if hm_contains m k then hm_len m - 1 else hm_len m)"
  by (simp add: hm_len_keys hm_contains_keys card_Diff_singleton_if)

lemma hm_len_remove_le: "hm_len (hm_remove k m) \<le> hm_len m"
  by (simp add: hm_remove_def length_delete_le)

lemma hm_len_retain_le: "hm_len (hm_retain P m) \<le> hm_len m"
  by (simp add: hm_retain_def)

lemma hm_get_retain [map_simps]:
  "hm_wf m \<Longrightarrow> hm_get (hm_retain P m) k =
     (case hm_get m k of None \<Rightarrow> None | Some v \<Rightarrow> if P k v then Some v else None)"
proof (induction m)
  case (Cons a m)
  then show ?case
    by (cases a) (auto simp: hm_wf_def hm_retain_def map_of_eq_None_iff split: option.splits)
qed (simp add: hm_retain_def)

lemma hm_get_in_set: "hm_wf m \<Longrightarrow> hm_get m k = Some v \<longleftrightarrow> (k, v) \<in> set m"
  by (simp add: hm_wf_def)

lemma hm_get_SomeD: "hm_get m k = Some v \<Longrightarrow> (k, v) \<in> set m"
  by (rule map_of_SomeD)

lemma hm_insert_subset: "set (hm_insert k v m) \<subseteq> insert (k, v) (set m)"
  by (induction m) (auto simp: hm_insert_def)

lemma hm_retain_subset: "set (hm_retain P m) \<subseteq> set m"
  by (auto simp: hm_retain_def)

lemma hm_remove_subset: "set (hm_remove k m) \<subseteq> set m"
  by (induction m) (auto simp: hm_remove_def AList.delete_eq)

lemma hm_retain_mut_Cons:
  "hm_retain_mut f ((k, v) # m) =
     (case f k v of None \<Rightarrow> hm_retain_mut f m | Some v' \<Rightarrow> (k, v') # hm_retain_mut f m)"
  by (simp add: hm_retain_mut_def map_filter_simps split: option.splits)

lemma hm_keys_retain_mut: "hm_keys (hm_retain_mut f m) \<subseteq> hm_keys m"
  by (induction m) (auto simp: hm_retain_mut_def map_filter_simps split: option.splits)

lemma hm_wf_retain_mut [simp]: "hm_wf m \<Longrightarrow> hm_wf (hm_retain_mut f m)"
proof (induction m)
  case (Cons a m)
  obtain k v where a: "a = (k, v)" by fastforce
  from Cons hm_keys_retain_mut [of f m] show ?case
    by (auto simp: a hm_wf_def hm_retain_mut_Cons split: option.splits)
qed (simp add: hm_retain_mut_def map_filter_simps)

lemma hm_get_retain_mut [map_simps]:
  "hm_wf m \<Longrightarrow> hm_get (hm_retain_mut f m) k = Option.bind (hm_get m k) (f k)"
proof (induction m)
  case (Cons a m)
  obtain k' v where a: "a = (k', v)" by fastforce
  from Cons.prems have "hm_get m k' = None" by (auto simp: a hm_wf_def map_of_eq_None_iff)
  with Cons show ?case by (auto simp: a hm_wf_def hm_retain_mut_Cons split: option.splits)
qed (simp add: hm_retain_mut_def map_filter_simps)

lemma hm_set_retain_mut: "(k, v) \<in> set (hm_retain_mut f m) \<Longrightarrow> \<exists>v0. (k, v0) \<in> set m \<and> f k v0 = Some v"
  by (induction m) (auto simp: hm_retain_mut_def map_filter_simps split: option.splits)

section \<open>Frame codecs\<close>

text \<open>
  The contract of every encoder and decoder pair of the crate: what a well-formed value
  encodes to decodes to it again, and whatever decodes is the encoding of what it decoded
  to. Nothing is accepted in two forms, and no two values share a frame.
\<close>

locale frame_codec =
  fixes enc :: "'a \<Rightarrow> bytes" and dec :: "bytes \<Rightarrow> 'a option" and ok :: "'a \<Rightarrow> bool"
  assumes dec_enc: "ok x \<Longrightarrow> dec (enc x) = Some x"
    and dec_sound: "dec b = Some x \<Longrightarrow> ok x \<and> enc x = b"
begin

lemma enc_inj: "ok x \<Longrightarrow> ok y \<Longrightarrow> enc x = enc y \<Longrightarrow> x = y"
  by (metis dec_enc option.inject)

lemma dec_inj: "dec b = Some x \<Longrightarrow> dec c = Some x \<Longrightarrow> b = c"
  by (metis dec_sound)

lemma dec_iff: "dec b = Some x \<longleftrightarrow> ok x \<and> enc x = b"
  using dec_enc dec_sound by blast

lemma dec_None_iff: "dec b = None \<longleftrightarrow> (\<forall>x. ok x \<longrightarrow> enc x \<noteq> b)"
  using dec_iff by (metis not_None_eq)

end

end
