(* ===== verification/Abi.thy ===== *)
theory Abi
  imports Prelude
begin

text \<open>
  \<open>src/abi.rs\<close>: the status codes, event types and limits of the C interface as definitions, and
  its structs as records, field for field. Pointer fields are addresses (\<^typ>\<open>u64\<close>, zero for null)
  as on the 64-bit targets the crate is released for; what they point to is read through a memory
  in the theory of the foreign interface.
\<close>

section \<open>Status codes\<close>

definition LP2P_ABI_VERSION :: u32 where "LP2P_ABI_VERSION = 1"
definition LP2P_OK :: int where "LP2P_OK = 0"
definition LP2P_ERR_INVALID_ARGUMENT :: int where "LP2P_ERR_INVALID_ARGUMENT = -1"
definition LP2P_ERR_BUFFER_TOO_SMALL :: int where "LP2P_ERR_BUFFER_TOO_SMALL = -2"
definition LP2P_ERR_NO_MEMORY :: int where "LP2P_ERR_NO_MEMORY = -3"
definition LP2P_ERR_NETWORK :: int where "LP2P_ERR_NETWORK = -4"
definition LP2P_ERR_LIMITED :: int where "LP2P_ERR_LIMITED = -5"
definition LP2P_ERR_UNAVAILABLE :: int where "LP2P_ERR_UNAVAILABLE = -6"
definition LP2P_ERR_SHUT_DOWN :: int where "LP2P_ERR_SHUT_DOWN = -7"
definition LP2P_ERR_PANIC :: int where "LP2P_ERR_PANIC = -99"

lemmas status_defs =
  LP2P_OK_def LP2P_ERR_INVALID_ARGUMENT_def LP2P_ERR_BUFFER_TOO_SMALL_def LP2P_ERR_NO_MEMORY_def
  LP2P_ERR_NETWORK_def LP2P_ERR_LIMITED_def LP2P_ERR_UNAVAILABLE_def LP2P_ERR_SHUT_DOWN_def
  LP2P_ERR_PANIC_def

definition LP2P_DELEGATION_BYTES :: nat where "LP2P_DELEGATION_BYTES = 136"

type_synonym lp2p_key = bytes

section \<open>Structs\<close>

record lp2p_rate =
  amount :: u32
  interval_ms :: u32
  burst :: u32

record lp2p_relay_options =
  ro_server :: u8
  ro_client :: u8
  ro_max_reservations :: u32
  ro_max_reservations_per_peer :: u32
  ro_reservation_duration_s :: u32
  ro_max_circuits :: u32
  ro_max_circuits_per_peer :: u32
  ro_max_circuit_duration_s :: u32
  ro_max_circuit_bytes :: u64
  ro_circuits_per_peer :: lp2p_rate
  ro_circuits_per_ip :: lp2p_rate

record lp2p_announce_options =
  ao_enabled :: u8
  ao_topic :: u64
  ao_max_payload_bytes :: u32

record lp2p_options =
  struct_size :: u32
  node_seed :: bytes
  o_delegation :: u64
  o_delegation_len :: nat
  o_group :: lp2p_key
  listen_addrs :: u64
  listen_addr_count :: nat
  o_dht_protocol :: u64
  o_rpc_protocols :: u64
  o_rpc_protocol_count :: nat
  o_rpc_max_request_bytes :: u32
  o_rpc_max_response_bytes :: u32
  rpc_timeout_ms :: u32
  o_quic :: u8
  o_dcutr :: u8
  o_autonat :: u8
  o_max_connections :: u32
  o_max_connections_per_peer :: u32
  o_max_pending_incoming :: u32
  o_relay :: lp2p_relay_options
  o_announce :: lp2p_announce_options
  o_event_queue_bytes :: nat
  o_reachability :: u8
  o_topic_max_message_bytes :: u32
  o_topic_max_subscriptions :: u32

section \<open>Events\<close>

definition LP2P_EV_LISTENING :: u16 where "LP2P_EV_LISTENING = 1"
definition LP2P_EV_REACHABILITY :: u16 where "LP2P_EV_REACHABILITY = 2"
definition LP2P_EV_PEER_CONNECTED :: u16 where "LP2P_EV_PEER_CONNECTED = 3"
definition LP2P_EV_PEER_DISCONNECTED :: u16 where "LP2P_EV_PEER_DISCONNECTED = 4"
definition LP2P_EV_RPC_REQUEST :: u16 where "LP2P_EV_RPC_REQUEST = 5"
definition LP2P_EV_RPC_RESPONSE :: u16 where "LP2P_EV_RPC_RESPONSE = 6"
definition LP2P_EV_RPC_FAILED :: u16 where "LP2P_EV_RPC_FAILED = 7"
definition LP2P_EV_ANNOUNCEMENT :: u16 where "LP2P_EV_ANNOUNCEMENT = 8"
definition LP2P_EV_PEER_DISCOVERED :: u16 where "LP2P_EV_PEER_DISCOVERED = 9"
definition LP2P_EV_DHT_RESULT :: u16 where "LP2P_EV_DHT_RESULT = 10"
definition LP2P_EV_LIMITED :: u16 where "LP2P_EV_LIMITED = 11"
definition LP2P_EV_OVERFLOW :: u16 where "LP2P_EV_OVERFLOW = 12"
definition LP2P_EV_HOLE_PUNCH :: u16 where "LP2P_EV_HOLE_PUNCH = 13"
definition LP2P_EV_TOPIC_MESSAGE :: u16 where "LP2P_EV_TOPIC_MESSAGE = 14"

definition LP2P_EVF_LAST :: u16 where "LP2P_EVF_LAST = 1"

definition LP2P_REACH_UNKNOWN :: u8 where "LP2P_REACH_UNKNOWN = 0"
definition LP2P_REACH_PUBLIC :: u8 where "LP2P_REACH_PUBLIC = 1"
definition LP2P_REACH_PRIVATE :: u8 where "LP2P_REACH_PRIVATE = 2"

definition LP2P_FAIL_TIMEOUT :: u16 where "LP2P_FAIL_TIMEOUT = 1"
definition LP2P_FAIL_UNREACHABLE :: u16 where "LP2P_FAIL_UNREACHABLE = 2"
definition LP2P_FAIL_REFUSED :: u16 where "LP2P_FAIL_REFUSED = 3"
definition LP2P_FAIL_LIMITED :: u16 where "LP2P_FAIL_LIMITED = 4"

lemmas event_type_defs =
  LP2P_EV_LISTENING_def LP2P_EV_REACHABILITY_def LP2P_EV_PEER_CONNECTED_def
  LP2P_EV_PEER_DISCONNECTED_def LP2P_EV_RPC_REQUEST_def LP2P_EV_RPC_RESPONSE_def
  LP2P_EV_RPC_FAILED_def LP2P_EV_ANNOUNCEMENT_def LP2P_EV_PEER_DISCOVERED_def
  LP2P_EV_DHT_RESULT_def LP2P_EV_LIMITED_def LP2P_EV_OVERFLOW_def LP2P_EV_HOLE_PUNCH_def
  LP2P_EV_TOPIC_MESSAGE_def

record lp2p_event =
  ev_type :: u16
  ev_flags :: u16
  ev_size :: u32
  ev_id :: u64
  ev_group :: lp2p_key
  ev_node :: lp2p_key
  ev_protocol :: u16
  ev_reason :: u16
  ev_data_len :: u32

definition LP2P_EVENT_HEADER_BYTES :: nat where "LP2P_EVENT_HEADER_BYTES = 88"

section \<open>Classes, scopes, statistics\<close>

definition LP2P_CLASS_UNKNOWN :: u8 where "LP2P_CLASS_UNKNOWN = 0"
definition LP2P_CLASS_BLOCKED :: u8 where "LP2P_CLASS_BLOCKED = 255"
definition LP2P_PROTOCOL_ANY :: u16 where "LP2P_PROTOCOL_ANY = 0xffff"
definition LP2P_PROTOCOL_TOPICS :: u16 where "LP2P_PROTOCOL_TOPICS = 0xfffe"
definition LP2P_LIMITED_BLOCKED :: u16 where "LP2P_LIMITED_BLOCKED = 255"

definition LP2P_SCOPE_PEER :: u8 where "LP2P_SCOPE_PEER = 0"
definition LP2P_SCOPE_IP_PREFIX :: u8 where "LP2P_SCOPE_IP_PREFIX = 1"
definition LP2P_SCOPE_GLOBAL :: u8 where "LP2P_SCOPE_GLOBAL = 2"

lemmas class_defs =
  LP2P_CLASS_UNKNOWN_def LP2P_CLASS_BLOCKED_def LP2P_PROTOCOL_ANY_def LP2P_PROTOCOL_TOPICS_def
  LP2P_LIMITED_BLOCKED_def LP2P_SCOPE_PEER_def LP2P_SCOPE_IP_PREFIX_def LP2P_SCOPE_GLOBAL_def

record lp2p_stats =
  st_size :: u32
  st_connections :: u32
  st_routing_table_peers :: u32
  st_topics_subscribed :: u32
  st_rpc_in :: u64
  st_rpc_out :: u64
  st_rpc_limited :: u64
  st_events_dropped :: u64
  st_topic_in :: u64
  st_topic_out :: u64
  st_topic_bytes_in :: u64
  st_topic_bytes_out :: u64
  st_topic_limited :: u64

text \<open>\<open>size_of::<lp2p_options>()\<close> on a 64-bit target.\<close>

definition LP2P_OPTIONS_SIZE :: nat where "LP2P_OPTIONS_SIZE = 272"

definition default_options :: lp2p_options where
  "default_options = \<lparr>
     struct_size = word_of_nat LP2P_OPTIONS_SIZE,
     node_seed = replicate 32 0,
     o_delegation = 0,
     o_delegation_len = 0,
     o_group = replicate 32 0,
     listen_addrs = 0,
     listen_addr_count = 0,
     o_dht_protocol = 0,
     o_rpc_protocols = 0,
     o_rpc_protocol_count = 0,
     o_rpc_max_request_bytes = 1048576,
     o_rpc_max_response_bytes = 10485760,
     rpc_timeout_ms = 10000,
     o_quic = 1,
     o_dcutr = 1,
     o_autonat = 1,
     o_max_connections = 0,
     o_max_connections_per_peer = 0,
     o_max_pending_incoming = 0,
     o_relay = \<lparr>
       ro_server = 1,
       ro_client = 1,
       ro_max_reservations = 128,
       ro_max_reservations_per_peer = 4,
       ro_reservation_duration_s = 60 * 60,
       ro_max_circuits = 16,
       ro_max_circuits_per_peer = 4,
       ro_max_circuit_duration_s = 2 * 60,
       ro_max_circuit_bytes = 131072,
       ro_circuits_per_peer = \<lparr>amount = 1, interval_ms = 2 * 60 * 1000, burst = 30\<rparr>,
       ro_circuits_per_ip = \<lparr>amount = 1, interval_ms = 60 * 1000, burst = 60\<rparr>\<rparr>,
     o_announce = \<lparr>ao_enabled = 1, ao_topic = 0, ao_max_payload_bytes = 1024\<rparr>,
     o_event_queue_bytes = 1048576,
     o_reachability = LP2P_REACH_UNKNOWN,
     o_topic_max_message_bytes = 65536,
     o_topic_max_subscriptions = 256\<rparr>"

end
