(* ===== verification/Keys.thy ===== *)
theory Keys
  imports Abi
begin

text \<open>
  \<open>src/keys.rs\<close>: the conversions between the 32 key bytes the C side sees and libp2p's peer ids.
  The cryptography and the key encodings are libp2p's and sha2's; they are the fields of a record
  the definitions take as an argument. What the code relies on is stated as a predicate on it.
\<close>

section \<open>The libraries' operations\<close>

text \<open>A peer id is a multihash: its code and its digest.\<close>

datatype peer_id = PeerId (mh_code: u64) (mh_digest: bytes)

datatype public_key = Ed25519 lp2p_key | OtherKey bytes

record crypto =
  secret_from_bytes :: "bytes \<Rightarrow> bytes option"
  keypair_public :: "bytes \<Rightarrow> public_key"
  ed_public :: "bytes \<Rightarrow> lp2p_key"
  ed_sign :: "bytes \<Rightarrow> bytes \<Rightarrow> bytes"
  ed_public_ok :: "bytes \<Rightarrow> bool"
  ed_verify :: "lp2p_key \<Rightarrow> bytes \<Rightarrow> bytes \<Rightarrow> bool"
  to_peer_id :: "public_key \<Rightarrow> peer_id"
  decode_protobuf :: "bytes \<Rightarrow> public_key option"
  sha256 :: "bytes \<Rightarrow> bytes"

section \<open>keys.rs\<close>

definition keypair_from_seed :: "crypto \<Rightarrow> bytes \<Rightarrow> bytes option" where
  "keypair_from_seed c seed = secret_from_bytes c seed"

definition public_key :: "crypto \<Rightarrow> bytes \<Rightarrow> lp2p_key option" where
  "public_key c keypair = (case keypair_public c keypair of Ed25519 k \<Rightarrow> Some k | OtherKey _ \<Rightarrow> None)"

definition peer_id :: "crypto \<Rightarrow> lp2p_key \<Rightarrow> peer_id option" where
  "peer_id c key = (if ed_public_ok c key then Some (to_peer_id c (Ed25519 key)) else None)"

definition key_of :: "crypto \<Rightarrow> peer_id \<Rightarrow> lp2p_key option" where
  "key_of c peer =
     (if mh_code peer \<noteq> 0 then None
      else case decode_protobuf c (mh_digest peer) of
          Some (Ed25519 k) \<Rightarrow> Some k
        | _ \<Rightarrow> None)"

section \<open>What the code relies on\<close>

text \<open>
  Documented behaviour: an ed25519 peer id is the identity multihash (code 0) of the
  protobuf-encoded public key, and decoding that gives the key back.
\<close>

definition peer_ids_ok :: "crypto \<Rightarrow> bool" where
  "peer_ids_ok c \<longleftrightarrow>
     (\<forall>k. ed_public_ok c k \<longrightarrow>
        mh_code (to_peer_id c (Ed25519 k)) = 0 \<and>
        decode_protobuf c (mh_digest (to_peer_id c (Ed25519 k))) = Some (Ed25519 k))"

text \<open>
  Documented behaviour of ed25519: public keys are 32 bytes and valid, signatures 64 bytes, and a
  signature verifies under the public key of the secret key that made it.
\<close>

definition signatures_ok :: "crypto \<Rightarrow> bool" where
  "signatures_ok c \<longleftrightarrow>
     (\<forall>seed sk. secret_from_bytes c seed = Some sk \<longrightarrow>
        length (ed_public c sk) = 32 \<and> ed_public_ok c (ed_public c sk) \<and>
        (\<forall>msg. length (ed_sign c sk msg) = 64 \<and> ed_verify c (ed_public c sk) msg (ed_sign c sk msg)))"

section \<open>A concrete instance\<close>

text \<open>
  For the witnesses: keys are their own seeds, a signature is the first 32 bytes of the key
  and of the message, a peer id holds the key's bytes.
\<close>

definition demo_pad :: "nat \<Rightarrow> bytes \<Rightarrow> bytes" where
  "demo_pad n bs = take n (bs @ replicate n 0)"

definition demo_crypto :: crypto where
  "demo_crypto = \<lparr>
     secret_from_bytes = (\<lambda>seed. if length seed = 32 then Some seed else None),
     keypair_public = Ed25519,
     ed_public = demo_pad 32,
     ed_sign = (\<lambda>sk msg. demo_pad 32 sk @ demo_pad 32 (drop 24 msg)),
     ed_public_ok = (\<lambda>k. length k = 32),
     ed_verify = (\<lambda>k msg sig. sig = k @ demo_pad 32 (drop 24 msg)),
     to_peer_id = (\<lambda>pk. case pk of Ed25519 k \<Rightarrow> PeerId 0 k | OtherKey k \<Rightarrow> PeerId 1 k),
     decode_protobuf = (\<lambda>d. if length d = 32 then Some (Ed25519 d) else None),
     sha256 = demo_pad 32\<rparr>"

section \<open>Facts\<close>

lemma key_of_peer_id:
  assumes "peer_ids_ok c" and "peer_id c key = Some p"
  shows "key_of c p = Some key"
  using assms by (auto simp: peer_ids_ok_def peer_id_def key_of_def split: if_splits)

lemma length_demo_pad [simp]: "length (demo_pad n bs) = n"
  by (simp add: demo_pad_def)

lemma demo_pad_id [simp]: "length bs = n \<Longrightarrow> demo_pad n bs = bs"
  by (simp add: demo_pad_def)

lemma demo_peer_ids_ok: "peer_ids_ok demo_crypto"
  by (simp add: peer_ids_ok_def demo_crypto_def)

lemma demo_signatures_ok: "signatures_ok demo_crypto"
  by (simp add: signatures_ok_def demo_crypto_def)

text \<open>
  A key the node accepts as a peer id comes back from the peer id unchanged, so two keys
  never share a peer id.
\<close>

theorem peer_id_roundtrip:
  assumes "peer_ids_ok c"
    and "peer_id c key = Some p"
  shows "key_of c p = Some key \<and> (\<forall>key'. peer_id c key' = Some p \<longrightarrow> key' = key)"
  using assms key_of_peer_id by (metis option.inject)

theorem peer_id_roundtrip_witness:
  "peer_id demo_crypto (replicate 32 7) = Some (PeerId 0 (replicate 32 7)) \<and>
   key_of demo_crypto (PeerId 0 (replicate 32 7)) = Some (replicate 32 7)"
proof -
  have p: "peer_id demo_crypto (replicate 32 7) = Some (PeerId 0 (replicate 32 7))"
    by (simp add: peer_id_def demo_crypto_def)
  with peer_id_roundtrip [OF demo_peer_ids_ok p] show ?thesis by simp
qed

end
