(* ===== verification/F64.thy ===== *)
theory F64
  imports Complex_Main
begin

text \<open>
  The part of Rust's \<open>f64\<close> the rate limits use: a finite double is a rational, and each arithmetic
  operation is the exact one followed by rounding to 53 significant bits, ties to even. The
  exponent range is not bounded here: the limiter computes with values between about
  \<open>2^-104\<close> and \<open>2^107\<close> (32-bit rates, 64-bit byte counts and seconds), far inside that of a double, so
  neither infinities nor subnormals arise.
\<close>

type_synonym f64 = rat

fun bitlen :: "nat \<Rightarrow> nat" where
  "bitlen n = (if n = 0 then 0 else Suc (bitlen (n div 2)))"

text \<open>The exponent of a positive rational: \<open>2 powi ilog2 x \<le> x < 2 powi (ilog2 x + 1)\<close>.\<close>

definition ilog2 :: "rat \<Rightarrow> int" where
  "ilog2 x =
     (case quotient_of x of (n, d) \<Rightarrow>
        let e = int (bitlen (nat n)) - int (bitlen (nat d))
        in if 2 powi e \<le> x then e else e - 1)"

definition round_half_even :: "rat \<Rightarrow> int" where
  "round_half_even z =
     (let f = \<lfloor>z\<rfloor>; d = z - of_int f
      in if d < 1 / 2 \<or> (d = 1 / 2 \<and> even f) then f else f + 1)"

definition round_pos :: "rat \<Rightarrow> f64" where
  "round_pos x = (let s = 2 powi (ilog2 x - 52) in of_int (round_half_even (x / s)) * s)"

definition rnd :: "rat \<Rightarrow> f64" where
  "rnd x = (if x = 0 then 0 else if x > 0 then round_pos x else - round_pos (- x))"

definition f64_add :: "f64 \<Rightarrow> f64 \<Rightarrow> f64" where "f64_add a b = rnd (a + b)"
definition f64_sub :: "f64 \<Rightarrow> f64 \<Rightarrow> f64" where "f64_sub a b = rnd (a - b)"
definition f64_mul :: "f64 \<Rightarrow> f64 \<Rightarrow> f64" where "f64_mul a b = rnd (a * b)"
definition f64_div :: "f64 \<Rightarrow> f64 \<Rightarrow> f64" where "f64_div a b = rnd (a / b)"

text \<open>\<open>n as f64\<close>.\<close>

definition f64_of_nat :: "nat \<Rightarrow> f64" where "f64_of_nat n = rnd (of_nat n)"

text \<open>\<open>Duration::as_secs_f64\<close>: the seconds plus the nanoseconds divided by \<open>10^9\<close>.\<close>

definition as_secs_f64 :: "nat \<Rightarrow> f64" where
  "as_secs_f64 nanos =
     f64_add (f64_of_nat (nanos div 1000000000))
       (f64_div (f64_of_nat (nanos mod 1000000000)) (f64_of_nat 1000000000))"

section \<open>The exponent\<close>

declare bitlen.simps [simp del]

lemma bitlen_bounds: "0 < n \<Longrightarrow> 2 ^ (bitlen n - 1) \<le> n \<and> n < 2 ^ bitlen n \<and> 0 < bitlen n"
proof (induction n rule: bitlen.induct)
  case (1 n)
  show ?case
  proof (cases "n = 1")
    case True
    then show ?thesis by (simp add: bitlen.simps)
  next
    case False
    with 1 have IH: "2 ^ (bitlen (n div 2) - 1) \<le> n div 2" "n div 2 < 2 ^ bitlen (n div 2)"
      "0 < bitlen (n div 2)" by auto
    have "bitlen n = Suc (bitlen (n div 2))" using 1(2) by (subst bitlen.simps) simp
    with IH show ?thesis by (cases "bitlen (n div 2)") auto
  qed
qed

lemma rat_of_nat_pow_bounds:
  assumes "0 < m"
  shows "2 ^ k \<le> nat m \<Longrightarrow> 2 ^ k \<le> (of_int m :: rat)" and "nat m < 2 ^ k \<Longrightarrow> (of_int m :: rat) < 2 ^ k"
proof -
  have m: "(of_int m :: rat) = of_nat (nat m)" using assms by simp
  show "2 ^ k \<le> nat m \<Longrightarrow> 2 ^ k \<le> (of_int m :: rat)"
    unfolding m by (metis of_nat_le_iff of_nat_numeral of_nat_power)
  show "nat m < 2 ^ k \<Longrightarrow> (of_int m :: rat) < 2 ^ k"
    unfolding m by (metis of_nat_less_iff of_nat_numeral of_nat_power)
qed

lemma ilog2_bounds:
  assumes "0 < x"
  shows "2 powi ilog2 x \<le> x" and "x < 2 powi (ilog2 x + 1)"
proof -
  obtain n d where q: "quotient_of x = (n, d)" by fastforce
  have d: "0 < d" using quotient_of_denom_pos [OF q] .
  have x: "x = of_int n / of_int d" using quotient_of_div [OF q] .
  with assms d have n: "0 < n" by (simp add: zero_less_divide_iff)
  define a where "a = bitlen (nat n)"
  define b where "b = bitlen (nat d)"
  have A: "2 ^ (a - 1) \<le> nat n" "nat n < 2 ^ a" "0 < a"
    using bitlen_bounds [of "nat n"] n by (auto simp: a_def)
  have B: "2 ^ (b - 1) \<le> nat d" "nat d < 2 ^ b" "0 < b"
    using bitlen_bounds [of "nat d"] d by (auto simp: b_def)
  have A': "2 ^ (a - 1) \<le> (of_int n :: rat)" "(of_int n :: rat) < 2 ^ a"
    using A(1,2) n by (simp_all add: rat_of_nat_pow_bounds)
  have B': "2 ^ (b - 1) \<le> (of_int d :: rat)" "(of_int d :: rat) < 2 ^ b"
    using B(1,2) d by (simp_all add: rat_of_nat_pow_bounds)
  let ?e = "int a - int b"
  have pa: "2 powi int k = (2 :: rat) ^ k" for k by simp
  have low: "2 powi (?e - 1) \<le> x"
  proof -
    have e: "?e - 1 = int (a - 1) - int b" using A(3) by simp
    have "2 powi (?e - 1) = (2 :: rat) powi int (a - 1) / 2 powi int b"
      unfolding e by (rule power_int_diff) simp
    then have "2 powi (?e - 1) = (2 :: rat) ^ (a - 1) / 2 ^ b" by (simp only: pa)
    also have "\<dots> \<le> x" unfolding x using A' B' d n by (intro frac_le) auto
    finally show ?thesis .
  qed
  have up: "x < 2 powi (?e + 1)"
  proof -
    have "x < 2 ^ a / 2 ^ (b - 1)" unfolding x using A' B' d n by (intro frac_less) auto
    also have "\<dots> = (2 :: rat) powi (int a - int (b - 1))"
      by (simp add: power_int_diff)
    also have "int a - int (b - 1) = ?e + 1" using B(3) by simp
    finally show ?thesis .
  qed
  have il: "ilog2 x = (if 2 powi ?e \<le> x then ?e else ?e - 1)"
    by (simp add: ilog2_def q a_def b_def Let_def)
  show "2 powi ilog2 x \<le> x" using il low by simp
  show "x < 2 powi (ilog2 x + 1)" using il up by auto
qed

lemma ilog2_mono: "0 < x \<Longrightarrow> x \<le> y \<Longrightarrow> ilog2 x \<le> ilog2 y"
proof (rule ccontr)
  assume "0 < x" "x \<le> y" "\<not> ilog2 x \<le> ilog2 y"
  then have "2 powi (ilog2 y + 1) \<le> (2 :: rat) powi ilog2 x"
    by (intro power_int_increasing) auto
  with ilog2_bounds [of x] ilog2_bounds [of y] \<open>0 < x\<close> \<open>x \<le> y\<close> show False by linarith
qed

section \<open>Rounding\<close>

lemma round_half_even_of_int [simp]: "round_half_even (of_int n) = n"
  by (simp add: round_half_even_def)

lemma round_half_even_error: "\<bar>of_int (round_half_even z) - z\<bar> \<le> 1 / 2"
proof -
  define f where "f = \<lfloor>z\<rfloor>"
  have "of_int f \<le> z" and "z < of_int f + 1" using floor_correct [of z] by (simp_all add: f_def)
  then show ?thesis
    by (simp add: round_half_even_def Let_def abs_if flip: f_def)
qed

lemma round_half_even_mono: "x \<le> y \<Longrightarrow> round_half_even x \<le> round_half_even y"
proof (cases "\<lfloor>x\<rfloor> = \<lfloor>y\<rfloor>")
  case True
  assume "x \<le> y"
  with True show ?thesis by (auto simp: round_half_even_def Let_def)
next
  case False
  assume "x \<le> y"
  with False have "\<lfloor>x\<rfloor> + 1 \<le> \<lfloor>y\<rfloor>" using floor_mono by fastforce
  then show ?thesis by (auto simp: round_half_even_def Let_def)
qed

lemma pow2_pos: "0 < (2 :: rat) powi k"
  by simp

lemma round_pos_bounds:
  assumes "0 < x"
  shows "2 powi ilog2 x \<le> round_pos x" and "round_pos x \<le> 2 powi (ilog2 x + 1)"
proof -
  let ?s = "(2 :: rat) powi (ilog2 x - 52)"
  have low: "of_int (2 ^ 52) \<le> x / ?s" and up: "x / ?s \<le> of_int (2 ^ 53)"
    using ilog2_bounds [OF assms] pow2_pos [of "ilog2 x - 52"]
    by (simp_all add: field_simps power_int_diff power_int_add)
  have "2 ^ 52 \<le> round_half_even (x / ?s)"
    using round_half_even_mono [OF low] by (simp only: round_half_even_of_int)
  then have "of_int (2 ^ 52) * ?s \<le> round_pos x"
    unfolding round_pos_def Let_def using pow2_pos by (intro mult_right_mono) (simp_all only: of_int_le_iff less_imp_le)
  then show "2 powi ilog2 x \<le> round_pos x"
    by (simp add: power_int_diff)
  have "round_half_even (x / ?s) \<le> 2 ^ 53"
    using round_half_even_mono [OF up] by (simp only: round_half_even_of_int)
  then have "round_pos x \<le> of_int (2 ^ 53) * ?s"
    unfolding round_pos_def Let_def using pow2_pos by (intro mult_right_mono) (simp_all only: of_int_le_iff less_imp_le)
  then show "round_pos x \<le> 2 powi (ilog2 x + 1)"
    by (simp add: power_int_diff power_int_add)
qed

lemma round_pos_mono:
  assumes "0 < x" and "x \<le> y"
  shows "round_pos x \<le> round_pos y"
proof (cases "ilog2 x = ilog2 y")
  case True
  have "x / 2 powi (ilog2 y - 52) \<le> y / 2 powi (ilog2 y - 52)"
    using assms by (intro divide_right_mono) auto
  then show ?thesis
    unfolding round_pos_def Let_def True
    by (intro mult_right_mono) (auto intro: round_half_even_mono)
next
  case False
  with ilog2_mono [OF assms] have "ilog2 x + 1 \<le> ilog2 y" by simp
  then have "(2 :: rat) powi (ilog2 x + 1) \<le> 2 powi ilog2 y"
    by (intro power_int_increasing) auto
  with round_pos_bounds(2) [OF assms(1)] round_pos_bounds(1) [of y] assms show ?thesis by linarith
qed

lemma round_pos_pos: "0 < x \<Longrightarrow> 0 < round_pos x"
  using round_pos_bounds(1) [of x] pow2_pos [of "ilog2 x"] by linarith

lemma rnd_0 [simp]: "rnd 0 = 0"
  by (simp add: rnd_def)

lemma rnd_mono: "x \<le> y \<Longrightarrow> rnd x \<le> rnd y"
  using round_pos_mono [of x y] round_pos_mono [of "- y" "- x"]
    round_pos_pos [of "- x"] round_pos_pos [of y]
  by (auto simp: rnd_def)

lemma rnd_nonneg: "0 \<le> x \<Longrightarrow> 0 \<le> rnd x"
  using rnd_mono [of 0 x] by simp

lemma rnd_error: "\<bar>rnd x - x\<bar> \<le> \<bar>x\<bar> / 2 ^ 53"
proof -
  have pos: "\<bar>round_pos y - y\<bar> \<le> y / 2 ^ 53" if "0 < y" for y
  proof -
    let ?s = "(2 :: rat) powi (ilog2 y - 52)"
    have "round_pos y - y = (of_int (round_half_even (y / ?s)) - y / ?s) * ?s"
      by (simp add: round_pos_def Let_def field_simps)
    then have "\<bar>round_pos y - y\<bar> = \<bar>of_int (round_half_even (y / ?s)) - y / ?s\<bar> * ?s"
      by (simp add: abs_mult)
    also have "\<dots> \<le> 1 / 2 * ?s"
      by (intro mult_right_mono round_half_even_error) simp
    also have "\<dots> = 2 powi ilog2 y / 2 ^ 53" by (simp add: power_int_diff)
    also have "\<dots> \<le> y / 2 ^ 53" using ilog2_bounds(1) [OF that] by (simp add: divide_right_mono)
    finally show ?thesis .
  qed
  consider "x = 0" | "0 < x" | "x < 0" by linarith
  then show ?thesis
  proof cases
    case 2
    then show ?thesis using pos [of x] by (simp add: rnd_def)
  next
    case 3
    have "\<bar>rnd x - x\<bar> = \<bar>round_pos (- x) - (- x)\<bar>" using 3 by (simp add: rnd_def)
    also have "\<dots> \<le> (- x) / 2 ^ 53" using 3 by (intro pos) simp
    finally show ?thesis using 3 by simp
  qed simp
qed

lemma of_nat_le_pow2: "n \<le> 2 ^ k \<Longrightarrow> (of_nat n :: rat) \<le> 2 ^ k"
  by (metis of_nat_le_iff of_nat_numeral of_nat_power)

lemma rnd_exact:
  assumes "0 < x" and "x / 2 powi (ilog2 x - 52) = of_int k"
  shows "rnd x = x"
proof -
  have "round_pos x = x / 2 powi (ilog2 x - 52) * 2 powi (ilog2 x - 52)"
    unfolding round_pos_def Let_def assms(2) by simp
  then show ?thesis using assms(1) by (simp add: rnd_def)
qed

lemma rnd_of_nat:
  assumes "n \<le> 2 ^ 53"
  shows "rnd (of_nat n) = of_nat n"
proof (cases "n = 0")
  case False
  let ?x = "of_nat n :: rat"
  let ?e = "ilog2 ?x"
  have pos: "0 < ?x" using False by simp
  have "2 powi ?e \<le> ?x" by (rule ilog2_bounds [OF pos])
  also have "?x \<le> 2 powi 53" using of_nat_le_pow2 [OF assms] by simp
  finally have e: "?e \<le> 53" using power_int_strict_increasing [of 53 ?e "2 :: rat"] by linarith
  show ?thesis
  proof (cases "?e \<le> 52")
    case True
    have "2 powi (?e - 52) = 1 / (2 :: rat) powi (52 - ?e)"
      by (metis minus_diff_eq power_int_minus_divide)
    moreover have "(2 :: rat) powi (52 - ?e) = 2 ^ nat (52 - ?e)"
      using True by (simp add: power_int_def)
    ultimately have "?x / 2 powi (?e - 52) = of_int (int n * 2 ^ nat (52 - ?e))" by simp
    then show ?thesis by (rule rnd_exact [OF pos])
  next
    case False
    with e have e53: "?e = 53" by simp
    with ilog2_bounds(1) [OF pos] of_nat_le_pow2 [OF assms] have x: "?x = 2 ^ 53" by simp
    have "?x / 2 powi (?e - 52) = of_int (2 ^ 52)" unfolding e53 by (simp add: x)
    then show ?thesis by (rule rnd_exact [OF pos])
  qed
qed simp

lemma ilog2_eqI:
  assumes "2 powi e \<le> x" and "x < 2 powi (e + 1)"
  shows "ilog2 x = e"
proof -
  have pos: "0 < x" using assms(1) pow2_pos [of e] by linarith
  have "\<not> ilog2 x + 1 \<le> e"
    using power_int_increasing [of "ilog2 x + 1" e "2 :: rat"] ilog2_bounds(2) [OF pos] assms(1) by force
  moreover have "\<not> e + 1 \<le> ilog2 x"
    using power_int_increasing [of "e + 1" "ilog2 x" "2 :: rat"] ilog2_bounds(1) [OF pos] assms(2) by force
  ultimately show ?thesis by linarith
qed

lemma rnd_minus: "rnd (- x) = - rnd x"
  by (simp add: rnd_def)

lemma rnd_round_pos:
  assumes "0 < x"
  shows "rnd (round_pos x) = round_pos x"
proof -
  let ?e = "ilog2 x" and ?y = "round_pos x"
  let ?k = "round_half_even (x / 2 powi (?e - 52))"
  have y: "?y = of_int ?k * 2 powi (?e - 52)" by (simp add: round_pos_def Let_def)
  note b = round_pos_bounds [OF assms]
  show ?thesis
  proof (cases "?y < 2 powi (?e + 1)")
    case True
    then have "ilog2 ?y = ?e" by (intro ilog2_eqI b(1))
    then have "?y / 2 powi (ilog2 ?y - 52) = of_int ?k" by (simp add: y)
    then show ?thesis by (rule rnd_exact [OF round_pos_pos [OF assms]])
  next
    case False
    with b(2) have eq: "?y = 2 powi (?e + 1)" by simp
    then have "ilog2 ?y = ?e + 1" by (intro ilog2_eqI) (simp_all add: power_int_add)
    then have "?y / 2 powi (ilog2 ?y - 52) = of_int (2 ^ 52)"
      using eq by (simp add: power_int_add power_int_diff)
    then show ?thesis by (rule rnd_exact [OF round_pos_pos [OF assms]])
  qed
qed

lemma rnd_idem [simp]: "rnd (rnd x) = rnd x"
proof -
  consider "x = 0" | "0 < x" | "x < 0" by linarith
  then show ?thesis
  proof cases
    case 3
    then have "rnd x = - round_pos (- x)" by (simp add: rnd_def)
    then show ?thesis using 3 rnd_round_pos [of "- x"] by (simp add: rnd_minus)
  qed (simp_all add: rnd_def [of x] rnd_round_pos)
qed

text \<open>The relative error as two one-sided bounds for values that are not negative.\<close>

lemma rnd_upper: "0 \<le> x \<Longrightarrow> rnd x \<le> x * (1 + 1 / 2 ^ 53)"
  using rnd_error [of x] by (simp add: abs_if field_simps split: if_splits)

lemma rnd_lower: "0 \<le> x \<Longrightarrow> x * (1 - 1 / 2 ^ 53) \<le> rnd x"
  using rnd_error [of x] by (simp add: abs_if field_simps split: if_splits)

lemma f64_of_nat_small [simp]: "n \<le> 2 ^ 53 \<Longrightarrow> f64_of_nat n = of_nat n"
  by (simp add: f64_of_nat_def rnd_of_nat)

lemma f64_of_nat_nonneg [simp]: "0 \<le> f64_of_nat n"
  by (simp add: f64_of_nat_def rnd_nonneg)

lemma as_secs_f64_nonneg [simp]: "0 \<le> as_secs_f64 n"
  by (simp add: as_secs_f64_def f64_add_def f64_div_def rnd_nonneg)

lemma as_secs_f64_0 [simp]: "as_secs_f64 0 = 0"
  by (simp add: as_secs_f64_def f64_add_def f64_div_def)

lemma as_secs_f64_secs: "s \<le> 2 ^ 53 \<Longrightarrow> as_secs_f64 (s * 1000000000) = of_nat s"
  by (simp add: as_secs_f64_def f64_add_def f64_div_def rnd_of_nat)

section \<open>Refilling at a rate\<close>

text \<open>What a bucket of \<open>x\<close> tokens holds \<open>d\<close> nanoseconds later at \<open>p\<close> tokens per second, uncapped.\<close>

definition filled :: "f64 \<Rightarrow> f64 \<Rightarrow> nat \<Rightarrow> f64" where
  "filled x p d = f64_add x (f64_mul (as_secs_f64 d) p)"

definition filled_exact :: "rat \<Rightarrow> rat \<Rightarrow> nat \<Rightarrow> rat" where
  "filled_exact x p d = x + of_nat d / 1000000000 * p"

lemma filled_nonneg: "0 \<le> x \<Longrightarrow> 0 \<le> p \<Longrightarrow> 0 \<le> filled x p d"
  by (simp add: filled_def f64_add_def f64_mul_def rnd_nonneg)

lemma filled_0: "rnd x = x \<Longrightarrow> filled x p 0 = x"
  by (simp add: filled_def f64_add_def f64_mul_def)

lemma filled_mono_ge: "0 \<le> p \<Longrightarrow> rnd x = x \<Longrightarrow> x \<le> filled x p d"
  using rnd_mono [of x "x + f64_mul (as_secs_f64 d) p"]
  by (simp add: filled_def f64_add_def f64_mul_def rnd_nonneg)

lemma rat_of_nat_div_mod: "(of_nat (d div m) :: rat) * of_nat m + of_nat (d mod m) = of_nat d"
  by (metis div_mult_mod_eq of_nat_add of_nat_mult)

lemma as_secs_f64_bounds:
  "as_secs_f64 d \<le> of_nat d / 1000000000 * (1 + 1 / 2 ^ 53) ^ 2"
  "of_nat d / 1000000000 * (1 - 1 / 2 ^ 53) ^ 2 \<le> as_secs_f64 d"
proof -
  let ?q = "of_nat (d div 1000000000) :: rat" and ?r = "of_nat (d mod 1000000000) / 1000000000 :: rat"
  let ?s = "rnd ?q + rnd ?r"
  have "d mod 1000000000 < 1000000000" by (rule mod_less_divisor) simp
  then have "d mod 1000000000 \<le> 2 ^ 53" by simp
  then have eq: "as_secs_f64 d = rnd ?s"
    by (simp add: as_secs_f64_def f64_add_def f64_div_def rnd_of_nat f64_of_nat_def [of "d div 1000000000"])
  have sum: "?q + ?r = of_nat d / 1000000000"
    using rat_of_nat_div_mod [of d 1000000000] by simp
  have nn: "0 \<le> ?q" "0 \<le> ?r" "0 \<le> ?s" by (simp_all add: rnd_nonneg)
  have "?s \<le> (?q + ?r) * (1 + 1 / 2 ^ 53)"
    using rnd_upper [OF nn(1)] rnd_upper [OF nn(2)] by (simp add: ring_distribs)
  then have "?s * (1 + 1 / 2 ^ 53) \<le> (?q + ?r) * (1 + 1 / 2 ^ 53) * (1 + 1 / 2 ^ 53)"
    by (rule mult_right_mono) simp
  with rnd_upper [OF nn(3)] show "as_secs_f64 d \<le> of_nat d / 1000000000 * (1 + 1 / 2 ^ 53) ^ 2"
    by (simp add: eq sum power2_eq_square)
  have "(?q + ?r) * (1 - 1 / 2 ^ 53) \<le> ?s"
    using rnd_lower [OF nn(1)] rnd_lower [OF nn(2)] by (simp add: ring_distribs)
  then have "(?q + ?r) * (1 - 1 / 2 ^ 53) * (1 - 1 / 2 ^ 53) \<le> ?s * (1 - 1 / 2 ^ 53)"
    by (rule mult_right_mono) simp
  with rnd_lower [OF nn(3)] show "of_nat d / 1000000000 * (1 - 1 / 2 ^ 53) ^ 2 \<le> as_secs_f64 d"
    by (simp add: eq sum power2_eq_square)
qed

lemma filled_upper:
  assumes "0 \<le> x" and "0 \<le> p"
  shows "filled x p d \<le> filled_exact x p d * (1 + 1 / 2 ^ 50)"
proof -
  let ?u = "1 + 1 / 2 ^ 53 :: rat" and ?g = "of_nat d / 1000000000 * p"
  have g: "0 \<le> ?g" using assms by simp
  have "as_secs_f64 d * p \<le> of_nat d / 1000000000 * ?u ^ 2 * p"
    using as_secs_f64_bounds(1) assms(2) by (rule mult_right_mono)
  then have m: "as_secs_f64 d * p \<le> ?g * ?u ^ 2" by (simp only: ac_simps)
  have "f64_mul (as_secs_f64 d) p \<le> as_secs_f64 d * p * ?u"
    unfolding f64_mul_def using assms(2) by (intro rnd_upper) simp
  also have "\<dots> \<le> ?g * ?u ^ 2 * ?u" using m by (rule mult_right_mono) simp
  finally have mul: "f64_mul (as_secs_f64 d) p \<le> ?g * ?u ^ 3" by (simp only: power3_eq_cube power2_eq_square mult.assoc)
  have nn: "0 \<le> f64_mul (as_secs_f64 d) p" using assms(2) by (simp add: f64_mul_def rnd_nonneg)
  have "filled x p d \<le> (x + f64_mul (as_secs_f64 d) p) * ?u"
    unfolding filled_def f64_add_def using assms(1) nn by (intro rnd_upper) simp
  also have "\<dots> \<le> (x * ?u ^ 3 + ?g * ?u ^ 3) * ?u"
    using mul assms(1) mult_left_mono [of 1 "?u ^ 3" x] by (intro mult_right_mono add_mono) simp_all
  also have "\<dots> = filled_exact x p d * (?u ^ 3 * ?u)" by (simp only: filled_exact_def ring_distribs mult.assoc)
  also have "\<dots> \<le> filled_exact x p d * (1 + 1 / 2 ^ 50)"
    using assms(1) g by (intro mult_left_mono) (simp_all add: filled_exact_def power_divide)
  finally show ?thesis .
qed

lemma filled_lower:
  assumes "0 \<le> x" and "0 \<le> p"
  shows "filled_exact x p d * (1 - 1 / 2 ^ 51) \<le> filled x p d"
proof -
  let ?u = "1 - 1 / 2 ^ 53 :: rat" and ?g = "of_nat d / 1000000000 * p"
  have g: "0 \<le> ?g" using assms by simp
  have "of_nat d / 1000000000 * ?u ^ 2 * p \<le> as_secs_f64 d * p"
    using as_secs_f64_bounds(2) assms(2) by (rule mult_right_mono)
  then have m: "?g * ?u ^ 2 \<le> as_secs_f64 d * p" by (simp only: ac_simps)
  have "?g * ?u ^ 2 * ?u \<le> as_secs_f64 d * p * ?u" using m by (rule mult_right_mono) simp
  also have "\<dots> \<le> f64_mul (as_secs_f64 d) p"
    unfolding f64_mul_def using assms(2) by (intro rnd_lower) simp
  finally have mul: "?g * ?u ^ 3 \<le> f64_mul (as_secs_f64 d) p" by (simp only: power3_eq_cube power2_eq_square mult.assoc)
  have nn: "0 \<le> f64_mul (as_secs_f64 d) p" using assms(2) by (simp add: f64_mul_def rnd_nonneg)
  have "filled_exact x p d * (1 - 1 / 2 ^ 51) \<le> filled_exact x p d * (?u ^ 3 * ?u)"
    using assms(1) g by (intro mult_left_mono) (simp_all add: filled_exact_def power_divide)
  also have "\<dots> = (x * ?u ^ 3 + ?g * ?u ^ 3) * ?u" by (simp only: filled_exact_def ring_distribs mult.assoc)
  also have "\<dots> \<le> (x + f64_mul (as_secs_f64 d) p) * ?u"
    using mul assms(1) mult_left_mono [of "?u ^ 3" 1 x]
    by (intro mult_right_mono add_mono) (simp_all add: power_le_one)
  also have "\<dots> \<le> filled x p d"
    unfolding filled_def f64_add_def using assms(1) nn by (intro rnd_lower) simp
  finally show ?thesis .
qed

text \<open>
  The level of a bucket capped at \<open>B\<close> grows by at most the rate times the time, up to rounding.
\<close>

lemma filled_gain:
  assumes "0 \<le> x" and "0 \<le> p" and "0 \<le> B" and "d' \<le> d + n"
  shows "min (filled x p d') B \<le>
    min (filled x p d) B + of_nat n * (p / 1000000000 * (1 + 1 / 2 ^ 50)) + B / 2 ^ 48"
proof (cases "filled x p d \<le> B")
  case True
  let ?X = "filled x p d" and ?Y = "filled_exact x p d" and ?g = "of_nat n / 1000000000 * p"
  have g: "0 \<le> ?g" using assms by simp
  have X: "0 \<le> ?X" using assms by (simp add: filled_nonneg)
  have "0 \<le> ?Y" using assms by (simp add: filled_exact_def)
  then have "?Y \<le> ?Y * ((1 - 1 / 2 ^ 51) * (1 + 1 / 2 ^ 50))"
    using mult_left_mono [of 1 "(1 - 1 / 2 ^ 51) * (1 + 1 / 2 ^ 50)" ?Y] by simp
  also have "\<dots> \<le> ?X * (1 + 1 / 2 ^ 50)"
    using mult_right_mono [OF filled_lower [OF assms(1,2), of d], of "1 + 1 / 2 ^ 50"]
    by (simp add: mult.assoc)
  finally have Y: "?Y \<le> ?X * (1 + 1 / 2 ^ 50)" .
  have "of_nat d' \<le> (of_nat d + of_nat n :: rat)" using assms(4) by (metis of_nat_add of_nat_mono)
  then have "of_nat d' * p \<le> (of_nat d + of_nat n) * p" using assms(2) by (rule mult_right_mono)
  then have "filled_exact x p d' \<le> ?Y + ?g" by (simp add: filled_exact_def field_simps)
  then have "filled_exact x p d' * (1 + 1 / 2 ^ 50) \<le> (?X * (1 + 1 / 2 ^ 50) + ?g) * (1 + 1 / 2 ^ 50)"
    using Y by (intro mult_right_mono) auto
  with filled_upper [OF assms(1,2), of d']
  have "filled x p d' \<le> ?X * ((1 + 1 / 2 ^ 50) * (1 + 1 / 2 ^ 50)) + ?g * (1 + 1 / 2 ^ 50)"
    by (simp only: ring_distribs mult.assoc)
  also have "\<dots> \<le> ?X * (1 + 1 / 2 ^ 48) + ?g * (1 + 1 / 2 ^ 50)"
    using X by (intro add_right_mono mult_left_mono) simp_all
  also have "\<dots> \<le> ?X + B / 2 ^ 48 + ?g * (1 + 1 / 2 ^ 50)"
    using True by (simp add: ring_distribs)
  finally show ?thesis using True by (simp add: min_def algebra_simps)
next
  case False
  have "0 \<le> of_nat n * (p / 1000000000 * (1 + 1 / 2 ^ 50))" and "0 \<le> B / 2 ^ 48"
    using assms by simp_all
  then have "B \<le> B + of_nat n * (p / 1000000000 * (1 + 1 / 2 ^ 50)) + B / 2 ^ 48" by linarith
  with False show ?thesis by (simp only: min_def split: if_split) auto
qed

end
