(* ===== verification/RateLimits.thy ===== *)
theory RateLimits
  imports Keys F64
begin

text \<open>
  \<open>src/limits.rs\<close>: peer classes, token buckets per class, scope, protocol and unit, the admission
  check, the sweep of full buckets, the event window, and the per-source bucket for announcements.
\<close>

definition MAX_BUCKETS :: nat where "MAX_BUCKETS = 2 ^ 16"
definition EVENTS_PER_SECOND :: u32 where "EVENTS_PER_SECOND = 10"

datatype limit_unit = Messages | Bytes

record rule_id =
  ri_class :: u8
  ri_scope :: u8
  ri_protocol :: u16
  ri_unit :: limit_unit

record rule =
  rule_of :: rule_id
  rule_rate :: lp2p_rate

datatype bucket_key = KPeer peer_id | KPrefix bytes | KGlobal

record bucket =
  tokens :: f64
  updated :: instant

text \<open>\<open>std::net::IpAddr\<close>: the four or sixteen octets.\<close>

datatype ip_addr = V4 bytes | V6 bytes

record limit_request =
  lr_group :: lp2p_key
  lr_peer :: peer_id
  lr_ip :: "ip_addr option"
  lr_protocol :: u16

record limits =
  classes :: "(lp2p_key, u8) hashmap"
  rules :: "rule list"
  buckets :: "(rule_id \<times> bucket_key, bucket) hashmap"
  events_window :: "instant option"
  events_in_window :: u32

definition limits_default :: limits where
  "limits_default = \<lparr>classes = [], rules = [], buckets = [], events_window = None, events_in_window = 0\<rparr>"

fun prefix :: "ip_addr \<Rightarrow> bytes" where
  "prefix (V4 octets) = [4] @ take 3 octets @ replicate 4 0"
| "prefix (V6 octets) = [6] @ take 7 octets"

definition u32_f64 :: "u32 \<Rightarrow> f64" where
  "u32_f64 w = f64_of_nat (unat w)"

definition per_second :: "lp2p_rate \<Rightarrow> f64" where
  "per_second rate = f64_div (f64_mul (u32_f64 (amount rate)) 1000) (u32_f64 (interval_ms rate))"

definition refill :: "bucket \<Rightarrow> lp2p_rate \<Rightarrow> instant \<Rightarrow> bucket" where
  "refill b rate now =
     (let elapsed = as_secs_f64 (duration_since now (updated b))
      in b\<lparr>tokens := min (f64_add (tokens b) (f64_mul elapsed (per_second rate))) (u32_f64 (burst rate)),
           updated := now\<rparr>)"

definition set_class :: "lp2p_key \<Rightarrow> u8 \<Rightarrow> limits \<Rightarrow> limits" where
  "set_class grp class L =
     (if class = LP2P_CLASS_UNKNOWN then L\<lparr>classes := hm_remove grp (classes L)\<rparr>
      else L\<lparr>classes := hm_insert grp class (classes L)\<rparr>)"

definition class_of :: "limits \<Rightarrow> lp2p_key \<Rightarrow> u8" where
  "class_of L grp = (case hm_get (classes L) grp of Some c \<Rightarrow> c | None \<Rightarrow> LP2P_CLASS_UNKNOWN)"

definition set_limit :: "u8 \<Rightarrow> u8 \<Rightarrow> u16 \<Rightarrow> limit_unit \<Rightarrow> lp2p_rate \<Rightarrow> limits \<Rightarrow> limits" where
  "set_limit class scope protocol unit rate L =
     (let id = \<lparr>ri_class = class, ri_scope = scope, ri_protocol = protocol, ri_unit = unit\<rparr>;
          L = L\<lparr>rules := filter (\<lambda>r. rule_of r \<noteq> id) (rules L)\<rparr>
      in if amount rate \<noteq> 0 \<and> interval_ms rate \<noteq> 0 \<and> burst rate \<noteq> 0
         then L\<lparr>rules := rules L @ [\<lparr>rule_of = id, rule_rate = rate\<rparr>]\<rparr>
         else L\<lparr>buckets := hm_retain (\<lambda>(r, _) _. r \<noteq> id) (buckets L)\<rparr>)"

text \<open>The bucket key a rule counts a request under; \<open>None\<close> for a prefix rule and no IP.\<close>

definition key_for :: "limit_request \<Rightarrow> rule \<Rightarrow> bucket_key option" where
  "key_for req r =
     (if ri_scope (rule_of r) = LP2P_SCOPE_PEER then Some (KPeer (lr_peer req))
      else if ri_scope (rule_of r) = LP2P_SCOPE_IP_PREFIX then
        (case lr_ip req of None \<Rightarrow> None | Some ip \<Rightarrow> Some (KPrefix (prefix ip)))
      else Some KGlobal)"

definition matching :: "limits \<Rightarrow> limit_request \<Rightarrow> (rule \<times> bucket_key) list" where
  "matching L req =
     List.map_filter (\<lambda>r. map_option (\<lambda>key. (r, key)) (key_for req r))
       (filter (\<lambda>r. ri_class (rule_of r) = class_of L (lr_group req) \<and>
                   (ri_protocol (rule_of r) = LP2P_PROTOCOL_ANY \<or> ri_protocol (rule_of r) = lr_protocol req))
         (rules L))"

definition cost :: "nat \<Rightarrow> rule \<Rightarrow> f64" where
  "cost nbytes r = (case ri_unit (rule_of r) of Messages \<Rightarrow> 1 | Bytes \<Rightarrow> f64_of_nat nbytes)"

text \<open>\<open>entry(..).or_insert(..)\<close> and \<open>refill\<close>: the bucket a rule sees now.\<close>

definition bucket_now ::
  "(rule_id \<times> bucket_key, bucket) hashmap \<Rightarrow> rule \<Rightarrow> bucket_key \<Rightarrow> instant \<Rightarrow> bucket" where
  "bucket_now bs r key now =
     refill (case hm_get bs (rule_of r, key) of
               Some b \<Rightarrow> b
             | None \<Rightarrow> \<lparr>tokens = u32_f64 (burst (rule_rate r)), updated = now\<rparr>)
       (rule_rate r) now"

fun check_loop ::
  "(rule \<times> bucket_key) list \<Rightarrow> nat \<Rightarrow> instant \<Rightarrow> (rule_id \<times> bucket_key, bucket) hashmap \<Rightarrow>
     u16 option \<times> (rule_id \<times> bucket_key, bucket) hashmap" where
  "check_loop [] nbytes now bs = (None, bs)"
| "check_loop ((r, key) # ms) nbytes now bs =
     (let b = bucket_now bs r key now;
          bs = hm_insert (rule_of r, key) b bs
      in if tokens b < cost nbytes r then (Some (ucast (ri_scope (rule_of r))), bs)
         else check_loop ms nbytes now bs)"

fun take_loop ::
  "(rule \<times> bucket_key) list \<Rightarrow> nat \<Rightarrow> (rule_id \<times> bucket_key, bucket) hashmap \<Rightarrow>
     (rule_id \<times> bucket_key, bucket) hashmap" where
  "take_loop [] nbytes bs = bs"
| "take_loop ((r, key) # ms) nbytes bs =
     (let taken = cost nbytes r
      in take_loop ms nbytes
           (case hm_get bs (rule_of r, key) of
              Some b \<Rightarrow> hm_insert (rule_of r, key) (b\<lparr>tokens := f64_sub (tokens b) taken\<rparr>) bs
            | None \<Rightarrow> bs))"

definition sweep :: "instant \<Rightarrow> limits \<Rightarrow> limits" where
  "sweep now L =
     L\<lparr>buckets := hm_retain_mut
       (\<lambda>(id, key) b.
          (case List.find (\<lambda>r. rule_of r = id) (rules L) of
             None \<Rightarrow> None
           | Some r \<Rightarrow>
               let b = refill b (rule_rate r) now
               in if tokens b < u32_f64 (burst (rule_rate r)) then Some b else None))
       (buckets L)\<rparr>"

definition check :: "limit_request \<Rightarrow> nat \<Rightarrow> instant \<Rightarrow> limits \<Rightarrow> (u16 + unit) \<times> limits" where
  "check req nbytes now L =
     (if class_of L (lr_group req) = LP2P_CLASS_BLOCKED then (Inl LP2P_LIMITED_BLOCKED, L)
      else
        let ms = matching L req
        in case check_loop ms nbytes now (buckets L) of
             (Some scope, bs) \<Rightarrow> (Inl scope, L\<lparr>buckets := bs\<rparr>)
           | (None, bs) \<Rightarrow>
               let L = L\<lparr>buckets := take_loop ms nbytes bs\<rparr>
               in (Inr (), if hm_len (buckets L) > MAX_BUCKETS then sweep now L else L))"

definition may_report :: "instant \<Rightarrow> limits \<Rightarrow> bool \<times> limits" where
  "may_report now L =
     (case events_window L of
        Some start \<Rightarrow>
          if duration_since now start < from_secs 1
          then let n = events_in_window L + 1
               in (n \<le> EVENTS_PER_SECOND, L\<lparr>events_in_window := n\<rparr>)
          else (True, L\<lparr>events_window := Some now, events_in_window := 1\<rparr>)
      | None \<Rightarrow> (True, L\<lparr>events_window := Some now, events_in_window := 1\<rparr>))"

section \<open>Announcements per source\<close>

record source_rate =
  sr_per_second :: f64
  sr_burst :: f64
  sr_buckets :: "(peer_id, bucket) hashmap"

definition source_rate_new :: "duration \<Rightarrow> u32 \<Rightarrow> source_rate" where
  "source_rate_new interval brst = \<lparr>
     sr_per_second = f64_div 1 (as_secs_f64 interval),
     sr_burst = u32_f64 brst,
     sr_buckets = []\<rparr>"

definition source_refilled :: "source_rate \<Rightarrow> bucket \<Rightarrow> instant \<Rightarrow> f64" where
  "source_refilled s b now =
     f64_add (tokens b) (f64_mul (as_secs_f64 (duration_since now (updated b))) (sr_per_second s))"

definition allow :: "peer_id \<Rightarrow> instant \<Rightarrow> source_rate \<Rightarrow> bool \<times> source_rate" where
  "allow peer now s =
     (let s = (if hm_len (sr_buckets s) > MAX_BUCKETS
               then s\<lparr>sr_buckets := hm_retain (\<lambda>_ b. source_refilled s b now < sr_burst s) (sr_buckets s)\<rparr>
               else s);
          b = (case hm_get (sr_buckets s) peer of
                 Some b \<Rightarrow> b
               | None \<Rightarrow> \<lparr>tokens = sr_burst s, updated = now\<rparr>);
          b = b\<lparr>tokens := min (source_refilled s b now) (sr_burst s), updated := now\<rparr>
      in if tokens b < 1 then (False, s\<lparr>sr_buckets := hm_insert peer b (sr_buckets s)\<rparr>)
         else (True, s\<lparr>sr_buckets :=
                 hm_insert peer (b\<lparr>tokens := f64_sub (tokens b) 1\<rparr>) (sr_buckets s)\<rparr>))"

section \<open>The invariant\<close>

text \<open>A token count is a double that is not negative; a rule that exists has no zero field.\<close>

definition bucket_ok :: "bucket \<Rightarrow> bool" where
  "bucket_ok b \<longleftrightarrow> 0 \<le> tokens b \<and> rnd (tokens b) = tokens b"

definition rate_ok :: "lp2p_rate \<Rightarrow> bool" where
  "rate_ok rate \<longleftrightarrow> amount rate \<noteq> 0 \<and> interval_ms rate \<noteq> 0 \<and> burst rate \<noteq> 0"

definition buckets_ok :: "('k, bucket) hashmap \<Rightarrow> bool" where
  "buckets_ok bs \<longleftrightarrow> hm_wf bs \<and> (\<forall>(k, b) \<in> set bs. bucket_ok b)"

definition limits_wf :: "limits \<Rightarrow> bool" where
  "limits_wf L \<longleftrightarrow> hm_wf (classes L) \<and> (\<forall>g. hm_get (classes L) g \<noteq> Some LP2P_CLASS_UNKNOWN) \<and>
     distinct (map rule_of (rules L)) \<and> (\<forall>r \<in> set (rules L). rate_ok (rule_rate r)) \<and>
     buckets_ok (buckets L)"

lemma u32_f64_eq: "u32_f64 w = of_nat (unat w)"
proof -
  have "unat w \<le> 2 ^ 53" using unsigned_less [of w, where ?'a = nat] by simp
  then show ?thesis by (simp add: u32_f64_def)
qed

lemma u32_f64_nonneg [simp]: "0 \<le> u32_f64 w"
  by (simp add: u32_f64_def)

lemma rnd_u32 [simp]: "rnd (u32_f64 w) = u32_f64 w"
  by (simp add: u32_f64_def f64_of_nat_def)

lemma per_second_nonneg [simp]: "0 \<le> per_second rate"
  by (simp add: per_second_def f64_div_def f64_mul_def rnd_nonneg)

lemma tokens_refill:
  "tokens (refill b rate now) =
     min (filled (tokens b) (per_second rate) (duration_since now (updated b))) (u32_f64 (burst rate))"
  by (simp add: refill_def filled_def Let_def)

lemma refill_same_time:
  "bucket_ok b \<Longrightarrow> tokens b \<le> u32_f64 (burst rate) \<Longrightarrow> updated b = now \<Longrightarrow> refill b rate now = b"
  by (cases b) (simp add: refill_def Let_def duration_since_def bucket_ok_def f64_add_def f64_mul_def)

lemma bucket_ok_refill [simp]: "bucket_ok b \<Longrightarrow> bucket_ok (refill b rate now)"
  by (auto simp: bucket_ok_def tokens_refill filled_nonneg min_def) (simp add: filled_def f64_add_def)

lemma refill_idem: "bucket_ok b \<Longrightarrow> refill (refill b rate now) rate now = refill b rate now"
  by (intro refill_same_time bucket_ok_refill) (simp_all add: tokens_refill, simp add: refill_def)

lemma buckets_ok_get: "buckets_ok bs \<Longrightarrow> hm_get bs k = Some b \<Longrightarrow> bucket_ok b"
  by (auto simp: buckets_ok_def dest: hm_get_SomeD)

lemma buckets_ok_insert [simp]: "buckets_ok bs \<Longrightarrow> bucket_ok b \<Longrightarrow> buckets_ok (hm_insert k b bs)"
  using hm_insert_subset [of k b bs] by (auto simp: buckets_ok_def)

lemma buckets_ok_retain [simp]: "buckets_ok bs \<Longrightarrow> buckets_ok (hm_retain P bs)"
  using hm_retain_subset [of P bs] by (auto simp: buckets_ok_def)

lemma bucket_ok_now [simp]: "buckets_ok bs \<Longrightarrow> bucket_ok (bucket_now bs r key now)"
  by (auto simp: bucket_now_def bucket_ok_def [of "\<lparr>tokens = _, updated = _\<rparr>"] dest: buckets_ok_get
      intro!: bucket_ok_refill split: option.splits)

section \<open>The admission loops\<close>

text \<open>The tokens a rule finds in its bucket at an instant.\<close>

definition level :: "(rule_id \<times> bucket_key, bucket) hashmap \<Rightarrow> rule \<Rightarrow> bucket_key \<Rightarrow> instant \<Rightarrow> f64" where
  "level bs r key now = tokens (bucket_now bs r key now)"

lemma level_bounds: "buckets_ok bs \<Longrightarrow> 0 \<le> level bs r key now"
  "level bs r key now \<le> u32_f64 (burst (rule_rate r))"
  using bucket_ok_now [of bs r key now]
  by (simp_all add: level_def bucket_ok_def) (simp add: bucket_now_def tokens_refill)

lemma bucket_now_idem:
  "buckets_ok bs \<Longrightarrow> hm_get bs' (rule_of r, key) = Some (bucket_now bs r key now) \<Longrightarrow>
   bucket_now bs' r key now = bucket_now bs r key now"
  by (simp add: bucket_now_def [of bs'])
    (auto simp: bucket_now_def bucket_ok_def dest: buckets_ok_get intro!: refill_idem split: option.splits)

lemma bucket_now_cong: "hm_get bs' (rule_of r, key) = hm_get bs (rule_of r, key) \<Longrightarrow>
    bucket_now bs' r key now = bucket_now bs r key now"
  by (simp add: bucket_now_def)

lemma bucket_now_insert:
  assumes "buckets_ok bs" and "inj_on rule_of R" and "r \<in> R" and "r' \<in> R"
  shows "bucket_now (hm_insert (rule_of r, key) (bucket_now bs r key now) bs) r' key' now =
    bucket_now bs r' key' now"
proof (cases "(rule_of r', key') = (rule_of r, key)")
  case True
  then have "r' = r" using assms by (auto dest: inj_onD)
  with True assms(1) show ?thesis by (intro bucket_now_idem) auto
next
  case False
  then show ?thesis by (intro bucket_now_cong) auto
qed

text \<open>
  The first loop decides by the first bucket with too few tokens, and changes no level.
\<close>

lemma check_loop_spec:
  assumes "check_loop ms n now bs = (res, bs')" and "buckets_ok bs" and "inj_on rule_of R"
    and "fst ` set ms \<subseteq> R"
  shows "res = map_option (\<lambda>(r, key). ucast (ri_scope (rule_of r)))
           (List.find (\<lambda>(r, key). level bs r key now < cost n r) ms) \<and>
    buckets_ok bs' \<and>
    (\<forall>r \<in> R. \<forall>key. bucket_now bs' r key now = bucket_now bs r key now)"
  using assms
proof (induction ms arbitrary: bs)
  case (Cons m ms)
  obtain r key where m: "m = (r, key)" by fastforce
  let ?bs = "hm_insert (rule_of r, key) (bucket_now bs r key now) bs"
  have r: "r \<in> R" using Cons.prems(4) by (simp add: m)
  have ok: "buckets_ok ?bs" using Cons.prems(2) by simp
  have same: "\<forall>r' \<in> R. \<forall>key'. bucket_now ?bs r' key' now = bucket_now bs r' key' now"
    using bucket_now_insert [OF Cons.prems(2,3) r] by blast
  show ?case
  proof (cases "level bs r key now < cost n r")
    case True
    with Cons.prems(1) have "res = Some (ucast (ri_scope (rule_of r)))" "bs' = ?bs"
      by (simp_all add: m Let_def level_def)
    with True ok same show ?thesis by (simp add: m)
  next
    case False
    with Cons.prems(1) have "check_loop ms n now ?bs = (res, bs')" by (simp add: m Let_def level_def)
    note IH = Cons.IH [OF this ok Cons.prems(3)]
    have sub: "fst ` set ms \<subseteq> R" using Cons.prems(4) by simp
    then have "List.find (\<lambda>(r, key). level ?bs r key now < cost n r) ms =
        List.find (\<lambda>(r, key). level bs r key now < cost n r) ms"
      by (intro find_cong) (auto simp: level_def same image_subset_iff)
    with IH [OF sub] same False show ?thesis by (simp add: m)
  qed
qed simp

lemma check_loop_keeps:
  assumes "check_loop ms n now bs = (res, bs')" and "buckets_ok bs" and "inj_on rule_of R"
    and "fst ` set ms \<subseteq> R" and "r \<in> R"
    and "hm_get bs (rule_of r, key) = Some (bucket_now bs r key now)"
  shows "hm_get bs' (rule_of r, key) = Some (bucket_now bs r key now)"
  using assms
proof (induction ms arbitrary: bs)
  case (Cons m ms)
  obtain r1 key1 where m: "m = (r1, key1)" by fastforce
  let ?bs = "hm_insert (rule_of r1, key1) (bucket_now bs r1 key1 now) bs"
  have r1: "r1 \<in> R" using Cons.prems(4) by (simp add: m)
  have same: "bucket_now ?bs r key now = bucket_now bs r key now"
    using bucket_now_insert [OF Cons.prems(2,3) r1 Cons.prems(5)] .
  have get: "hm_get ?bs (rule_of r, key) = Some (bucket_now bs r key now)"
    using Cons.prems(3,5,6) r1 by (auto dest: inj_onD)
  show ?case
  proof (cases "level bs r1 key1 now < cost n r1")
    case True
    with Cons.prems(1) have "bs' = ?bs" by (simp add: m Let_def level_def)
    with get show ?thesis by simp
  next
    case False
    with Cons.prems(1) have "check_loop ms n now ?bs = (res, bs')" by (simp add: m Let_def level_def)
    from Cons.IH [OF this] Cons.prems get same show ?thesis by simp
  qed
qed simp

lemma check_loop_present:
  assumes "check_loop ms n now bs = (None, bs')" and "buckets_ok bs" and "inj_on rule_of R"
    and "fst ` set ms \<subseteq> R" and "(r, key) \<in> set ms"
  shows "hm_get bs' (rule_of r, key) = Some (bucket_now bs r key now)"
  using assms
proof (induction ms arbitrary: bs)
  case (Cons m ms)
  obtain r1 key1 where m: "m = (r1, key1)" by fastforce
  let ?bs = "hm_insert (rule_of r1, key1) (bucket_now bs r1 key1 now) bs"
  have r1: "r1 \<in> R" and r: "r \<in> R" using Cons.prems(4,5) by (auto simp: m)
  have ok: "buckets_ok ?bs" using Cons.prems(2) by simp
  have sub: "fst ` set ms \<subseteq> R" using Cons.prems(4) by simp
  have rec: "check_loop ms n now ?bs = (None, bs')"
    using Cons.prems(1) by (simp add: m Let_def split: if_splits)
  have same: "bucket_now ?bs r key now = bucket_now bs r key now"
    using bucket_now_insert [OF Cons.prems(2,3) r1 r] .
  show ?case
  proof (cases "(r, key) = (r1, key1)")
    case True
    with check_loop_keeps [OF rec ok Cons.prems(3) sub r, of key] same show ?thesis by simp
  next
    case False
    with Cons.prems(5) have "(r, key) \<in> set ms" by (auto simp: m)
    with Cons.IH [OF rec ok Cons.prems(3) sub] same show ?thesis by simp
  qed
qed simp

text \<open>The second loop takes the cost from each bucket that matched, once.\<close>

lemma take_loop_get:
  assumes "distinct (map (\<lambda>(r, key). (rule_of r, key)) ms)"
  shows "hm_get (take_loop ms n bs) k =
    map_option (\<lambda>b. case List.find (\<lambda>(r, key). (rule_of r, key) = k) ms of
        Some (r, key) \<Rightarrow> b\<lparr>tokens := f64_sub (tokens b) (cost n r)\<rparr> | None \<Rightarrow> b) (hm_get bs k)"
  using assms
proof (induction ms arbitrary: bs)
  case (Cons m ms)
  obtain r key where m: "m = (r, key)" by fastforce
  have "k \<notin> (\<lambda>(r, key). (rule_of r, key)) ` set ms" if "(rule_of r, key) = k"
    using Cons.prems that by (auto simp: m)
  then have "List.find (\<lambda>(r, key). (rule_of r, key) = k) ms = None" if "(rule_of r, key) = k"
    using that by (force simp: find_None_iff)
  with Cons show ?case by (auto simp: m Let_def option.map_comp split: option.splits)
qed (simp add: option.map_ident)

lemma take_loop_ok:
  assumes "buckets_ok bs" and "distinct (map (\<lambda>(r, key). (rule_of r, key)) ms)"
    and "\<forall>(r, key) \<in> set ms. \<exists>b. hm_get bs (rule_of r, key) = Some b \<and> cost n r \<le> tokens b"
  shows "buckets_ok (take_loop ms n bs)"
  using assms
proof (induction ms arbitrary: bs)
  case (Cons m ms)
  obtain r key where m: "m = (r, key)" by fastforce
  from Cons.prems(3) obtain b where b: "hm_get bs (rule_of r, key) = Some b" "cost n r \<le> tokens b"
    by (auto simp: m)
  let ?bs = "hm_insert (rule_of r, key) (b\<lparr>tokens := f64_sub (tokens b) (cost n r)\<rparr>) bs"
  have "buckets_ok ?bs"
    using Cons.prems(1) b(2) by (intro buckets_ok_insert) (simp_all add: bucket_ok_def f64_sub_def rnd_nonneg)
  moreover have "(rule_of r, key) \<notin> (\<lambda>(r, key). (rule_of r, key)) ` set ms"
    using Cons.prems(2) by (simp add: m)
  then have "hm_get ?bs k = hm_get bs k" if "k \<in> (\<lambda>(r, key). (rule_of r, key)) ` set ms" for k
    using that by (cases "k = (rule_of r, key)") auto
  then have "\<forall>(r, key) \<in> set ms. \<exists>b. hm_get ?bs (rule_of r, key) = Some b \<and> cost n r \<le> tokens b"
    using Cons.prems(3) by (fastforce simp: m)
  ultimately show ?case using Cons.IH [of ?bs] Cons.prems(2) b by (simp add: m)
qed simp

section \<open>Sweeping\<close>

lemma find_rule: "distinct (map rule_of rs) \<Longrightarrow> r \<in> set rs \<Longrightarrow> List.find (\<lambda>r'. rule_of r' = rule_of r) rs = Some r"
  by (induction rs) auto

lemma buckets_ok_sweep: "buckets_ok (buckets L) \<Longrightarrow> buckets_ok (buckets (sweep now L))"
  by (auto simp: buckets_ok_def sweep_def Let_def dest!: hm_set_retain_mut intro!: bucket_ok_refill
      split: option.splits if_splits)

lemma sweep_bucket_now:
  assumes "limits_wf L" and "r \<in> set (rules L)"
  shows "bucket_now (buckets (sweep now L)) r key now = bucket_now (buckets L) r key now"
proof (cases "hm_get (buckets L) (rule_of r, key)")
  case None
  with assms show ?thesis
    by (intro bucket_now_cong) (simp add: sweep_def hm_get_retain_mut limits_wf_def buckets_ok_def)
next
  case (Some b)
  let ?b = "refill b (rule_rate r) now"
  have ok: "bucket_ok b" using assms(1) Some by (auto simp: limits_wf_def dest: buckets_ok_get)
  have now: "bucket_now (buckets L) r key now = ?b" using Some by (simp add: bucket_now_def)
  have get: "hm_get (buckets (sweep now L)) (rule_of r, key) =
      (if tokens ?b < u32_f64 (burst (rule_rate r)) then Some ?b else None)"
    using assms Some by (simp add: sweep_def hm_get_retain_mut limits_wf_def buckets_ok_def find_rule Let_def)
  show ?thesis
  proof (cases "tokens ?b < u32_f64 (burst (rule_rate r))")
    case True
    with get now ok show ?thesis by (simp add: bucket_now_def refill_idem)
  next
    case False
    let ?full = "\<lparr>tokens = u32_f64 (burst (rule_rate r)), updated = now\<rparr>"
    have "tokens ?b = u32_f64 (burst (rule_rate r))" and "updated ?b = now"
      using False tokens_refill [of b "rule_rate r" now] by (auto simp: refill_def Let_def)
    then have "?b = ?full" by (cases ?b) simp
    moreover have "refill ?full (rule_rate r) now = ?full"
      by (intro refill_same_time) (simp_all add: bucket_ok_def)
    ultimately show ?thesis using False get now by (simp add: bucket_now_def)
  qed
qed

section \<open>The admission check\<close>

lemma matching_iff:
  "(r, key) \<in> set (matching L req) \<longleftrightarrow>
     r \<in> set (rules L) \<and> ri_class (rule_of r) = class_of L (lr_group req) \<and>
     (ri_protocol (rule_of r) = LP2P_PROTOCOL_ANY \<or> ri_protocol (rule_of r) = lr_protocol req) \<and>
     key_for req r = Some key"
  by (auto simp: matching_def List.map_filter_def intro!: image_eqI [of _ _ r])

lemma distinct_map_filter_keys:
  "distinct (map rule_of rs) \<Longrightarrow>
   distinct (map (\<lambda>(r, key). (rule_of r, key)) (List.map_filter (\<lambda>r. map_option (\<lambda>key. (r, key)) (f r)) rs))"
  by (induction rs) (auto simp: List.map_filter_def)

lemma distinct_matching:
  "distinct (map rule_of (rules L)) \<Longrightarrow> distinct (map (\<lambda>(r, key). (rule_of r, key)) (matching L req))"
  unfolding matching_def by (intro distinct_map_filter_keys) (simp add: distinct_map_filter)

lemma cost_nonneg [simp]: "0 \<le> cost n r"
  by (simp add: cost_def split: limit_unit.splits)

lemma take_loop_level:
  assumes "buckets_ok bs" and "inj_on rule_of R" and "fst ` set ms \<subseteq> R" and "r \<in> R"
    and "distinct (map (\<lambda>(r, key). (rule_of r, key)) ms)"
    and "check_loop ms n now bs = (None, bs')"
  shows "level (take_loop ms n bs') r key now =
    (if (r, key) \<in> set ms then f64_sub (level bs r key now) (cost n r) else level bs r key now)"
proof -
  note loop = check_loop_spec [OF assms(6,1,2,3)]
  have who: "List.find (\<lambda>(r', key'). rule_of r' = rule_of r \<and> key' = key) ms =
      (if (r, key) \<in> set ms then Some (r, key) else None)"
  proof -
    have "(\<lambda>(r', key'). rule_of r' = rule_of r \<and> key' = key) m \<longleftrightarrow> m = (r, key)" if "m \<in> set ms" for m
    proof -
      have "fst m \<in> R" using that assms(3) by auto
      then have "rule_of (fst m) = rule_of r \<longleftrightarrow> fst m = r"
        using inj_on_eq_iff [OF assms(2) _ assms(4)] by simp
      then show ?thesis by (cases m) auto
    qed
    then have "List.find (\<lambda>(r', key'). rule_of r' = rule_of r \<and> key' = key) ms =
        List.find (\<lambda>m. m = (r, key)) ms"
      by (intro find_cong) auto
    also have "\<dots> = (if (r, key) \<in> set ms then Some (r, key) else None)"
      by (induction ms) auto
    finally show ?thesis .
  qed
  show ?thesis
  proof (cases "(r, key) \<in> set ms")
    case True
    let ?b = "bucket_now bs r key now"
    let ?b' = "?b\<lparr>tokens := f64_sub (tokens ?b) (cost n r)\<rparr>"
    have "cost n r \<le> tokens ?b"
      using loop True by (auto simp: level_def find_None_iff not_less)
    moreover have "tokens ?b \<le> u32_f64 (burst (rule_rate r))"
      using level_bounds(2) by (simp add: level_def)
    then have "f64_sub (tokens ?b) (cost n r) \<le> u32_f64 (burst (rule_rate r))"
      using rnd_mono [of "tokens ?b - cost n r" "u32_f64 (burst (rule_rate r))"] cost_nonneg [of n r]
      by (simp add: f64_sub_def)
    ultimately have "refill ?b' (rule_rate r) now = ?b'"
      by (intro refill_same_time) (simp_all add: bucket_ok_def f64_sub_def rnd_nonneg, simp add: bucket_now_def refill_def Let_def)
    moreover have "hm_get (take_loop ms n bs') (rule_of r, key) = Some ?b'"
      using check_loop_present [OF assms(6,1,2,3) True] True
      by (simp add: take_loop_get [OF assms(5)] who)
    ultimately show ?thesis using True by (simp add: level_def bucket_now_def [of "take_loop ms n bs'"])
  next
    case False
    then have "hm_get (take_loop ms n bs') (rule_of r, key) = hm_get bs' (rule_of r, key)"
      by (simp add: take_loop_get [OF assms(5)] who option.map_ident)
    from bucket_now_cong [OF this] loop assms(4) False show ?thesis by (simp add: level_def)
  qed
qed

text \<open>The decision, and the levels after it.\<close>

definition refused_by :: "limits \<Rightarrow> limit_request \<Rightarrow> nat \<Rightarrow> instant \<Rightarrow> (rule \<times> bucket_key) option" where
  "refused_by L req n now = List.find (\<lambda>(r, key). level (buckets L) r key now < cost n r) (matching L req)"

lemma check_cases:
  assumes "limits_wf L" and "class_of L (lr_group req) \<noteq> LP2P_CLASS_BLOCKED"
    and "check req n now L = (res, L')"
  shows "\<exists>bs. (case refused_by L req n now of
           Some (r, key) \<Rightarrow> check_loop (matching L req) n now (buckets L) = (Some (ucast (ri_scope (rule_of r))), bs) \<and>
             res = Inl (ucast (ri_scope (rule_of r))) \<and> L' = L\<lparr>buckets := bs\<rparr>
         | None \<Rightarrow> check_loop (matching L req) n now (buckets L) = (None, bs) \<and> res = Inr () \<and>
             (L' = L\<lparr>buckets := take_loop (matching L req) n bs\<rparr> \<or>
              L' = sweep now (L\<lparr>buckets := take_loop (matching L req) n bs\<rparr>)))"
proof -
  obtain found bs where loop: "check_loop (matching L req) n now (buckets L) = (found, bs)" by fastforce
  have "inj_on rule_of (set (rules L))" "fst ` set (matching L req) \<subseteq> set (rules L)"
    using assms(1) by (auto simp: limits_wf_def distinct_map matching_iff)
  with check_loop_spec [OF loop] assms(1)
  have "found = map_option (\<lambda>(r, key). ucast (ri_scope (rule_of r))) (refused_by L req n now)"
    by (auto simp: refused_by_def limits_wf_def)
  with loop assms(2,3) show ?thesis
    by (intro exI [of _ bs]) (auto simp: check_def Let_def split: option.splits if_splits prod.splits)
qed

lemma matching_shape:
  assumes "limits_wf L"
  shows "inj_on rule_of (set (rules L))" and "fst ` set (matching L req) \<subseteq> set (rules L)"
    and "distinct (map (\<lambda>(r, key). (rule_of r, key)) (matching L req))" and "buckets_ok (buckets L)"
proof -
  show "distinct (map (\<lambda>(r, key). (rule_of r, key)) (matching L req))"
    using assms by (intro distinct_matching) (simp add: limits_wf_def)
qed (use assms in \<open>auto simp: limits_wf_def distinct_map matching_iff\<close>)

lemma sweep_fields [simp]:
  "classes (sweep now L) = classes L" "rules (sweep now L) = rules L"
  "events_window (sweep now L) = events_window L" "events_in_window (sweep now L) = events_in_window L"
  by (simp_all add: sweep_def)

lemma limits_wf_buckets: "limits_wf L \<Longrightarrow> buckets_ok bs \<Longrightarrow> limits_wf (L\<lparr>buckets := bs\<rparr>)"
  by (simp add: limits_wf_def)

lemma limits_wf_sweep: "limits_wf L \<Longrightarrow> limits_wf (sweep now L)"
  using buckets_ok_sweep [of L now] by (simp add: limits_wf_def)

lemma take_loop_after_check_ok:
  assumes "limits_wf L" and "check_loop (matching L req) n now (buckets L) = (None, bs)"
  shows "buckets_ok (take_loop (matching L req) n bs)"
proof -
  note m = matching_shape [OF assms(1)]
  note loop = check_loop_spec [OF assms(2) m(4,1,2)]
  have "\<exists>b. hm_get bs (rule_of r, key) = Some b \<and> cost n r \<le> tokens b"
    if "(r, key) \<in> set (matching L req)" for r key
    using check_loop_present [OF assms(2) m(4,1,2) that] loop that
    by (auto simp: find_None_iff level_def not_less)
  then show ?thesis using loop m(3) by (intro take_loop_ok) auto
qed

text \<open>What a check leaves alone, and that the invariant survives it.\<close>

lemma check_preserves:
  assumes "limits_wf L" and "check req n now L = (res, L')"
  shows "limits_wf L' \<and> classes L' = classes L \<and> rules L' = rules L \<and>
    events_window L' = events_window L \<and> events_in_window L' = events_in_window L"
proof (cases "class_of L (lr_group req) = LP2P_CLASS_BLOCKED")
  case True
  with assms show ?thesis by (simp add: check_def)
next
  case False
  note m = matching_shape [OF assms(1)]
  from check_cases [OF assms(1) False assms(2)] obtain bs where
    cases: "case refused_by L req n now of
           Some (r, key) \<Rightarrow> check_loop (matching L req) n now (buckets L) = (Some (ucast (ri_scope (rule_of r))), bs) \<and>
             res = Inl (ucast (ri_scope (rule_of r))) \<and> L' = L\<lparr>buckets := bs\<rparr>
         | None \<Rightarrow> check_loop (matching L req) n now (buckets L) = (None, bs) \<and> res = Inr () \<and>
             (L' = L\<lparr>buckets := take_loop (matching L req) n bs\<rparr> \<or>
              L' = sweep now (L\<lparr>buckets := take_loop (matching L req) n bs\<rparr>))" by blast
  show ?thesis
  proof (cases "refused_by L req n now")
    case None
    with cases take_loop_after_check_ok [OF assms(1)] have "limits_wf (L\<lparr>buckets := take_loop (matching L req) n bs\<rparr>)"
      by (auto intro: limits_wf_buckets [OF assms(1)])
    with None cases limits_wf_sweep show ?thesis by auto
  next
    case (Some rk)
    with cases check_loop_spec [OF _ m(4,1,2)] limits_wf_buckets [OF assms(1)] show ?thesis
      by (auto split: prod.splits)
  qed
qed

lemma check_decides:
  assumes "limits_wf L" and "check req n now L = (res, L')"
  shows "res = (if class_of L (lr_group req) = LP2P_CLASS_BLOCKED then Inl LP2P_LIMITED_BLOCKED
    else case refused_by L req n now of
        Some (r, key) \<Rightarrow> Inl (ucast (ri_scope (rule_of r))) | None \<Rightarrow> Inr ())"
proof (cases "class_of L (lr_group req) = LP2P_CLASS_BLOCKED")
  case True
  with assms show ?thesis by (simp add: check_def)
next
  case False
  with check_cases [OF assms(1) False assms(2)] show ?thesis by (auto split: option.splits)
qed

lemma check_level:
  assumes "limits_wf L" and "check req n now L = (res, L')" and "r \<in> set (rules L)"
  shows "level (buckets L') r key now =
    (if res = Inr () \<and> (r, key) \<in> set (matching L req)
     then f64_sub (level (buckets L) r key now) (cost n r) else level (buckets L) r key now)"
proof (cases "class_of L (lr_group req) = LP2P_CLASS_BLOCKED")
  case True
  with assms show ?thesis by (auto simp: check_def)
next
  case False
  note m = matching_shape [OF assms(1)]
  note cases = check_cases [OF assms(1) False assms(2)]
  show ?thesis
  proof (cases "refused_by L req n now")
    case None
    with cases obtain bs where bs: "check_loop (matching L req) n now (buckets L) = (None, bs)" "res = Inr ()"
      and L': "L' = L\<lparr>buckets := take_loop (matching L req) n bs\<rparr> \<or>
        L' = sweep now (L\<lparr>buckets := take_loop (matching L req) n bs\<rparr>)" by auto
    have "limits_wf (L\<lparr>buckets := take_loop (matching L req) n bs\<rparr>)"
      using take_loop_after_check_ok [OF assms(1) bs(1)] by (rule limits_wf_buckets [OF assms(1)])
    then have "level (buckets L') r key now = level (take_loop (matching L req) n bs) r key now"
      using L' sweep_bucket_now assms(3) by (auto simp: level_def)
    with take_loop_level [OF m(4,1,2) assms(3) m(3) bs(1), of key] bs(2) show ?thesis by simp
  next
    case (Some rk)
    obtain r1 k1 where rk: "rk = (r1, k1)" by fastforce
    with Some cases obtain bs where "check_loop (matching L req) n now (buckets L) =
        (Some (ucast (ri_scope (rule_of r1))), bs)" "res \<noteq> Inr ()" "buckets L' = bs" by auto
    with check_loop_spec [OF _ m(4,1,2)] assms(3) show ?thesis by (auto simp: level_def)
  qed
qed

end
