(* ===== verification/Addresses.thy ===== *)
theory Addresses
  imports RateLimits
begin

text \<open>
  Addresses: the parts of a \<open>Multiaddr\<close> the node looks at with the helpers of \<open>src/node.rs\<close>, and
  the bounded book of \<open>src/address_book.rs\<close> with its refinement to a list in order of arrival.
\<close>

section \<open>Multiaddr\<close>

text \<open>A \<open>Multiaddr\<close> is the sequence of protocols it iterates over.\<close>

datatype protocol = Ip4 bytes | Ip6 bytes | P2p peer_id | P2pCircuit | Other bytes

type_synonym multiaddr = "protocol list"

definition is_relayed :: "multiaddr \<Rightarrow> bool" where
  "is_relayed address = list_ex (\<lambda>p. p = P2pCircuit) address"

definition without_peer :: "multiaddr \<Rightarrow> multiaddr" where
  "without_peer address = filter (\<lambda>p. case p of P2p _ \<Rightarrow> False | _ \<Rightarrow> True) address"

fun ip_of :: "multiaddr \<Rightarrow> ip_addr option" where
  "ip_of [] = None"
| "ip_of (p # ps) = (case p of Ip4 ip \<Rightarrow> Some (V4 ip) | Ip6 ip \<Rightarrow> Some (V6 ip) | _ \<Rightarrow> ip_of ps)"

text \<open>\<open>Ipv4Addr::is_loopback\<close> is 127.0.0.0/8, \<open>Ipv6Addr::is_loopback\<close> is ::1.\<close>

fun is_loopback :: "multiaddr \<Rightarrow> bool" where
  "is_loopback (Ip4 ip # _) \<longleftrightarrow> take 1 ip = [127]"
| "is_loopback (Ip6 ip # _) \<longleftrightarrow> ip = replicate 15 0 @ [1]"
| "is_loopback _ \<longleftrightarrow> False"

fun is_unspecified :: "multiaddr \<Rightarrow> bool" where
  "is_unspecified (Ip4 ip # _) \<longleftrightarrow> ip = replicate 4 0"
| "is_unspecified (Ip6 ip # _) \<longleftrightarrow> ip = replicate 16 0"
| "is_unspecified _ \<longleftrightarrow> False"

section \<open>The address book\<close>

definition MAX_PEERS :: nat where "MAX_PEERS = 4096"
definition MAX_ADDRESSES_PER_PEER :: nat where "MAX_ADDRESSES_PER_PEER = 8"

record address_book =
  book_addresses :: "(peer_id, multiaddr list) hashmap"
  book_order :: "peer_id list"

definition address_book_default :: address_book where
  "address_book_default = \<lparr>book_addresses = [], book_order = []\<rparr>"

definition add_to_list :: "multiaddr \<Rightarrow> multiaddr list \<Rightarrow> multiaddr list" where
  "add_to_list address list =
     (if address \<in> set list then list
      else (if length list = MAX_ADDRESSES_PER_PEER then drop 1 list else list) @ [address])"

definition add :: "peer_id \<Rightarrow> multiaddr \<Rightarrow> address_book \<Rightarrow> address_book" where
  "add peer address b =
     (case hm_get (book_addresses b) peer of
        Some list \<Rightarrow> b\<lparr>book_addresses := hm_insert peer (add_to_list address list) (book_addresses b)\<rparr>
      | None \<Rightarrow>
          let b = (if hm_len (book_addresses b) = MAX_PEERS
                   then (case book_order b of
                           [] \<Rightarrow> b
                         | oldest # rest \<Rightarrow> b\<lparr>book_order := rest,
                             book_addresses := hm_remove oldest (book_addresses b)\<rparr>)
                   else b)
          in b\<lparr>book_addresses := hm_insert peer [address] (book_addresses b),
               book_order := book_order b @ [peer]\<rparr>)"

definition addresses :: "address_book \<Rightarrow> peer_id \<Rightarrow> multiaddr list" where
  "addresses b peer = (case hm_get (book_addresses b) peer of Some list \<Rightarrow> list | None \<Rightarrow> [])"

definition knows :: "address_book \<Rightarrow> peer_id \<Rightarrow> bool" where
  "knows b peer = hm_contains (book_addresses b) peer"

definition handle_pending_outbound_connection :: "peer_id option \<Rightarrow> address_book \<Rightarrow> multiaddr list" where
  "handle_pending_outbound_connection maybe_peer b =
     (case Option.bind maybe_peer (hm_get (book_addresses b)) of Some list \<Rightarrow> list | None \<Rightarrow> [])"

datatype from_swarm = NewExternalAddrOfPeer peer_id multiaddr | OtherFromSwarm

fun on_swarm_event :: "from_swarm \<Rightarrow> address_book \<Rightarrow> address_book" where
  "on_swarm_event (NewExternalAddrOfPeer peer address) b = add peer address b"
| "on_swarm_event OtherFromSwarm b = b"

section \<open>The book as a list in order of arrival\<close>

definition book_wf :: "address_book \<Rightarrow> bool" where
  "book_wf b \<longleftrightarrow> hm_wf (book_addresses b) \<and> distinct (book_order b) \<and>
     set (book_order b) = hm_keys (book_addresses b) \<and> length (book_order b) \<le> MAX_PEERS \<and>
     (\<forall>peer list. hm_get (book_addresses b) peer = Some list \<longrightarrow>
        list \<noteq> [] \<and> distinct list \<and> length list \<le> MAX_ADDRESSES_PER_PEER)"

text \<open>The abstract book: peers with their addresses, the oldest first.\<close>

definition book_view :: "address_book \<Rightarrow> (peer_id \<times> multiaddr list) list" where
  "book_view b = map (\<lambda>p. (p, addresses b p)) (book_order b)"

definition view_add :: "peer_id \<Rightarrow> multiaddr \<Rightarrow> (peer_id \<times> multiaddr list) list \<Rightarrow> (peer_id \<times> multiaddr list) list" where
  "view_add peer address xs =
     (if peer \<in> fst ` set xs then map (\<lambda>(p, l). (p, if p = peer then add_to_list address l else l)) xs
      else (if length xs = MAX_PEERS then tl xs else xs) @ [(peer, [address])])"

lemma add_to_list_ok:
  "distinct l \<Longrightarrow> length l \<le> MAX_ADDRESSES_PER_PEER \<Longrightarrow>
   add_to_list a l \<noteq> [] \<and> distinct (add_to_list a l) \<and> length (add_to_list a l) \<le> MAX_ADDRESSES_PER_PEER \<and>
   a \<in> set (add_to_list a l)"
  by (auto simp: add_to_list_def MAX_ADDRESSES_PER_PEER_def distinct_drop dest: in_set_dropD)

lemma book_len: "book_wf b \<Longrightarrow> hm_len (book_addresses b) = length (book_order b)"
  using distinct_card [of "book_order b"] by (simp add: book_wf_def hm_len_keys)

lemma book_known: "book_wf b \<Longrightarrow> hm_get (book_addresses b) p \<noteq> None \<longleftrightarrow> p \<in> set (book_order b)"
  by (simp add: book_wf_def map_of_eq_None_iff)

lemma add_known:
  assumes "book_wf b" and "hm_get (book_addresses b) peer = Some list"
  shows "book_wf (add peer address b)" and "book_view (add peer address b) = view_add peer address (book_view b)"
proof -
  have mem: "peer \<in> set (book_order b)" using assms book_known [of b peer] by simp
  have eq: "add peer address b =
      b\<lparr>book_addresses := hm_insert peer (add_to_list address list) (book_addresses b)\<rparr>"
    using assms(2) by (simp add: add_def)
  show "book_wf (add peer address b)"
    using assms mem add_to_list_ok [of list address] unfolding eq
    by (auto simp: book_wf_def)
  show "book_view (add peer address b) = view_add peer address (book_view b)"
    unfolding eq using assms(2) mem by (auto simp: book_view_def view_add_def addresses_def image_iff)
qed

lemma add_new:
  assumes "book_wf b" and "hm_get (book_addresses b) peer = None"
  shows "book_wf (add peer address b)" and "book_view (add peer address b) = view_add peer address (book_view b)"
proof -
  have new: "peer \<notin> set (book_order b)" using assms book_known [of b peer] by simp
  show "book_wf (add peer address b)"
  proof (cases "length (book_order b) = MAX_PEERS")
    case True
    then obtain oldest rest where o: "book_order b = oldest # rest"
      by (cases "book_order b") (auto simp: MAX_PEERS_def)
    show ?thesis
      using assms new True book_len [OF assms(1)]
      by (auto simp: add_def o book_wf_def MAX_ADDRESSES_PER_PEER_def)
  next
    case False
    then show ?thesis
      using assms new book_len [OF assms(1)]
      by (auto simp: add_def book_wf_def MAX_ADDRESSES_PER_PEER_def)
  qed
  show "book_view (add peer address b) = view_add peer address (book_view b)"
  proof (cases "length (book_order b) = MAX_PEERS")
    case True
    then obtain oldest rest where o: "book_order b = oldest # rest"
      by (cases "book_order b") (auto simp: MAX_PEERS_def)
    have "oldest \<notin> set rest" using assms(1) o by (simp add: book_wf_def)
    then show ?thesis
      using assms(2) new True book_len [OF assms(1)]
      by (auto simp: add_def o book_view_def view_add_def addresses_def image_iff)
  next
    case False
    then show ?thesis
      using assms(2) new book_len [OF assms(1)]
      by (auto simp: add_def book_view_def view_add_def addresses_def image_iff)
  qed
qed

lemma book_wf_default: "book_wf address_book_default"
  by (simp add: book_wf_def address_book_default_def MAX_PEERS_def)

lemma book_wf_add: "book_wf b \<Longrightarrow> book_wf (add peer address b)"
  using add_known(1) add_new(1) by (cases "hm_get (book_addresses b) peer") blast+



end
