(* ===== verification/Delegation.thy ===== *)
theory Delegation
  imports Keys
begin

text \<open>
  \<open>src/delegation.rs\<close>: the 136-byte statement "node key X belongs to group Y until T" signed by the
  group key: its layout, signing and verification.
\<close>

definition CONTEXT :: bytes where
  "CONTEXT = ascii ''libp2p-ffi delegation v1''"

record delegation =
  d_node :: lp2p_key
  d_group :: lp2p_key
  d_expires_ms :: u64
  d_signature :: bytes

datatype invalid = Length | GroupKey | Signature | Expired | WrongNode

definition message :: "lp2p_key \<Rightarrow> lp2p_key \<Rightarrow> u64 \<Rightarrow> bytes" where
  "message node grp expires_ms = CONTEXT @ node @ grp @ be_bytes 8 (unat expires_ms)"

definition parse :: "bytes \<Rightarrow> invalid + delegation" where
  "parse bs =
     (if length bs \<noteq> LP2P_DELEGATION_BYTES then Inl Length
      else Inr \<lparr>
        d_node = slice 0 32 bs,
        d_group = slice 32 32 bs,
        d_expires_ms = word_of_nat (be_value (slice 64 8 bs)),
        d_signature = slice 72 64 bs\<rparr>)"

definition to_bytes :: "delegation \<Rightarrow> bytes" where
  "to_bytes d = d_node d @ d_group d @ be_bytes 8 (unat (d_expires_ms d)) @ d_signature d"

definition sign :: "crypto \<Rightarrow> bytes \<Rightarrow> lp2p_key \<Rightarrow> u64 \<Rightarrow> delegation option" where
  "sign c group_seed node expires_ms =
     (case secret_from_bytes c group_seed of
        None \<Rightarrow> None
      | Some secret \<Rightarrow>
          let grp = ed_public c secret;
              signature = ed_sign c secret (message node grp expires_ms)
          in if length signature \<noteq> 64 then None
             else Some \<lparr>d_node = node, d_group = grp, d_expires_ms = expires_ms,
                        d_signature = signature\<rparr>)"

definition verify :: "crypto \<Rightarrow> delegation \<Rightarrow> u64 \<Rightarrow> invalid + unit" where
  "verify c d now_ms =
     (if \<not> ed_public_ok c (d_group d) then Inl GroupKey
      else if \<not> ed_verify c (d_group d) (message (d_node d) (d_group d) (d_expires_ms d))
                (d_signature d) then Inl Signature
      else if d_expires_ms d \<noteq> 0 \<and> d_expires_ms d \<le> now_ms then Inl Expired
      else Inr ())"

definition verify_for :: "crypto \<Rightarrow> delegation \<Rightarrow> lp2p_key \<Rightarrow> u64 \<Rightarrow> invalid + unit" where
  "verify_for c d node now_ms =
     (case verify c d now_ms of
        Inl e \<Rightarrow> Inl e
      | Inr _ \<Rightarrow> if d_node d \<noteq> node then Inl WrongNode else Inr ())"

section \<open>The layout\<close>

text \<open>The array lengths of the Rust struct.\<close>

definition delegation_wf :: "delegation \<Rightarrow> bool" where
  "delegation_wf d \<longleftrightarrow> length (d_node d) = 32 \<and> length (d_group d) = 32 \<and> length (d_signature d) = 64"

text \<open>\<open>Delegation::parse(..).ok()\<close>.\<close>

definition parse_ok :: "bytes \<Rightarrow> delegation option" where
  "parse_ok bs = (case parse bs of Inl _ \<Rightarrow> None | Inr d \<Rightarrow> Some d)"

lemma length_to_bytes [layout_simps]: "delegation_wf d \<Longrightarrow> length (to_bytes d) = 136"
  by (simp add: delegation_wf_def to_bytes_def)

lemma slice_join4:
  "length bs = a + b + c + e \<Longrightarrow>
   slice 0 a bs @ slice a b bs @ slice (a + b) c bs @ slice (a + b + c) e bs = bs"
  using slice_split [of 0 a bs b] slice_split [of 0 "a + b" bs c] slice_split [of 0 "a + b + c" bs e]
  by (simp add: slice_all flip: append_assoc)

lemma parse_to_bytes: "delegation_wf d \<Longrightarrow> parse (to_bytes d) = Inr d"
  by (simp add: delegation_wf_def to_bytes_def parse_def LP2P_DELEGATION_BYTES_def layout_simps)

lemma to_bytes_parse:
  assumes "parse bs = Inr d"
  shows "delegation_wf d \<and> to_bytes d = bs"
proof -
  from assms have len: "length bs = 136"
    and d: "d = \<lparr>d_node = slice 0 32 bs, d_group = slice 32 32 bs,
                 d_expires_ms = word_of_nat (be_value (slice 64 8 bs)), d_signature = slice 72 64 bs\<rparr>"
    by (auto simp: parse_def LP2P_DELEGATION_BYTES_def split: if_splits)
  show ?thesis
    using len slice_join4 [of bs 32 32 8 64]
    by (simp add: d delegation_wf_def to_bytes_def be_bytes_unat64)
qed

interpretation delegation: frame_codec to_bytes parse_ok delegation_wf
  by unfold_locales
    (auto simp: parse_ok_def parse_to_bytes dest: to_bytes_parse split: sum.splits)

section \<open>Signing and verifying\<close>

lemma verify_ok_iff:
  "verify c d now = Inr () \<longleftrightarrow>
     ed_public_ok c (d_group d) \<and>
     ed_verify c (d_group d) (message (d_node d) (d_group d) (d_expires_ms d)) (d_signature d) \<and>
     (d_expires_ms d = 0 \<or> now < d_expires_ms d)"
  by (auto simp: verify_def not_le)

lemma verify_for_ok_iff:
  "verify_for c d node now = Inr () \<longleftrightarrow> verify c d now = Inr () \<and> d_node d = node"
  by (auto simp: verify_for_def split: sum.splits)

lemma message_inj:
  assumes "length n = 32" and "length n' = 32" and "length g = 32" and "length g' = 32"
    and "message n g e = message n' g' e'"
  shows "n = n' \<and> g = g' \<and> e = e'"
proof -
  from assms have "n = n'" "g = g'" and eq: "be_bytes 8 (unat e) = be_bytes 8 (unat e')"
    by (auto simp: message_def)
  from eq have "be_value (be_bytes 8 (unat e)) = be_value (be_bytes 8 (unat e'))" by simp
  then have "e = e'" by (simp add: word_unat_eq_iff)
  with \<open>n = n'\<close> \<open>g = g'\<close> show ?thesis by simp
qed

text \<open>
  The 136 bytes of a delegation and its fields determine each other: writing and parsing a
  well-formed delegation gives it back, and what parses is exactly what would be written.
\<close>

theorem delegation_roundtrip:
  "(delegation_wf d \<longrightarrow> parse (to_bytes d) = Inr d \<and> length (to_bytes d) = LP2P_DELEGATION_BYTES) \<and>
   (parse bs = Inr d \<longleftrightarrow> delegation_wf d \<and> to_bytes d = bs)"
proof (intro conjI impI)
  assume "delegation_wf d"
  then show "parse (to_bytes d) = Inr d"
    by (rule parse_to_bytes)
next
  assume "delegation_wf d"
  then show "length (to_bytes d) = LP2P_DELEGATION_BYTES"
    by (simp add: length_to_bytes LP2P_DELEGATION_BYTES_def)
next
  have "(parse_ok bs = Some d) = (parse bs = Inr d)"
    by (auto simp: parse_ok_def split: sum.splits)
  then show "(parse bs = Inr d) = (delegation_wf d \<and> to_bytes d = bs)"
    using delegation.dec_iff [of bs d] by simp
qed

definition demo_delegation :: delegation where
  "demo_delegation = \<lparr>d_node = replicate 32 2, d_group = replicate 32 1, d_expires_ms = 1000,
     d_signature = replicate 32 1 @ replicate 32 2\<rparr>"

theorem delegation_roundtrip_witness:
  "parse (to_bytes demo_delegation) = Inr demo_delegation \<and> length (to_bytes demo_delegation) = 136"
  using delegation_roundtrip [of demo_delegation "[]"]
  by (simp add: delegation_wf_def demo_delegation_def LP2P_DELEGATION_BYTES_def)

text \<open>
  A delegation signed with a group's seed names that group and the node, survives the wire,
  and verifies for that node at every time before its expiry and for no other node.
\<close>

theorem signed_delegation_verifies:
  assumes "signatures_ok c"
    and "secret_from_bytes c seed = Some sk" and "length node = 32"
  shows "\<exists>d. sign c seed node expires = Some d \<and> d_group d = ed_public c sk \<and> d_node d = node \<and>
     parse (to_bytes d) = Inr d \<and>
     (\<forall>now other. verify_for c d other now =
        (if expires \<noteq> 0 \<and> expires \<le> now then Inl Expired
         else if other \<noteq> node then Inl WrongNode else Inr ()))"
proof -
  let ?d = "\<lparr>d_node = node, d_group = ed_public c sk, d_expires_ms = expires,
             d_signature = ed_sign c sk (message node (ed_public c sk) expires)\<rparr>"
  have sig: "length (ed_public c sk) = 32" "ed_public_ok c (ed_public c sk)"
    "\<And>msg. length (ed_sign c sk msg) = 64" "\<And>msg. ed_verify c (ed_public c sk) msg (ed_sign c sk msg)"
    using assms(1,2) by (auto simp: signatures_ok_def)
  have "sign c seed node expires = Some ?d"
    using assms(2) sig by (simp add: sign_def Let_def)
  moreover have "parse (to_bytes ?d) = Inr ?d"
    by (rule parse_to_bytes) (simp add: delegation_wf_def sig assms(3))
  moreover have "\<forall>now other. verify_for c ?d other now =
        (if expires \<noteq> 0 \<and> expires \<le> now then Inl Expired
         else if other \<noteq> node then Inl WrongNode else Inr ())"
    by (auto simp: verify_for_def verify_def sig)
  ultimately show ?thesis by auto
qed

theorem signed_delegation_verifies_witness:
  "\<exists>d. sign demo_crypto (replicate 32 1) (replicate 32 2) 1000 = Some d \<and>
     d_group d = ed_public demo_crypto (replicate 32 1) \<and> d_node d = replicate 32 2 \<and>
     parse (to_bytes d) = Inr d \<and>
     (\<forall>now other. verify_for demo_crypto d other now =
        (if (1000 :: u64) \<noteq> 0 \<and> 1000 \<le> now then Inl Expired
         else if other \<noteq> replicate 32 2 then Inl WrongNode else Inr ()))"
  by (rule signed_delegation_verifies [OF demo_signatures_ok]) (simp_all add: demo_crypto_def)

end
