(* ===== verification/Wire.thy ===== *)
theory Wire
  imports Delegation
begin

text \<open>
  \<open>src/wire.rs\<close>: the request and response frames, announcements, provider keys, topic names and the
  bounded codec that reads frames from a stream. A Rust \<open>str\<close> is its UTF-8 bytes.
\<close>

definition RPC_PROTOCOL :: bytes where
  "RPC_PROTOCOL = ascii ''/lp2p/rpc/1''"

definition provider_key :: "crypto \<Rightarrow> lp2p_key \<Rightarrow> bytes" where
  "provider_key c grp = [0x12, 0x20] @ sha256 c grp"

definition VERSION :: u8 where
  "VERSION = 1"

text \<open>\<open>format!("{byte:02x}")\<close>.\<close>

definition hex_digit :: "nat \<Rightarrow> u8" where
  "hex_digit d = word_of_nat (if d < 10 then 48 + d else 87 + d)"

definition hex2 :: "u8 \<Rightarrow> bytes" where
  "hex2 b = [hex_digit (unat b div 16), hex_digit (unat b mod 16)]"

definition topic_name :: "lp2p_key \<Rightarrow> bytes" where
  "topic_name key = ascii ''/lp2p/topic/1/'' @ concat (map hex2 key)"

record request =
  rq_delegation :: bytes
  rq_protocol :: bytes
  rq_payload :: bytes

record response =
  rs_delegation :: bytes
  rs_payload :: bytes

definition encode_request :: "bytes \<Rightarrow> bytes \<Rightarrow> bytes \<Rightarrow> bytes" where
  "encode_request deleg protocol payload =
     [VERSION] @ deleg @ [word_of_nat (length protocol)] @ protocol @ payload"

definition decode_request :: "bytes \<Rightarrow> request option" where
  "decode_request frame =
     (case frame of
        [] \<Rightarrow> None
      | version # rest \<Rightarrow>
          if version \<noteq> VERSION \<or> length rest < LP2P_DELEGATION_BYTES + 1 then None
          else
            let deleg = take LP2P_DELEGATION_BYTES rest;
                rest = drop LP2P_DELEGATION_BYTES rest
            in (case rest of
                  [] \<Rightarrow> None
                | len # rest \<Rightarrow>
                    let name_len = unat len
                    in if name_len = 0 \<or> length rest < name_len then None
                       else
                         let name = take name_len rest; payload = drop name_len rest
                         in if utf8_valid name
                            then Some \<lparr>rq_delegation = deleg, rq_protocol = name, rq_payload = payload\<rparr>
                            else None))"

definition encode_response :: "bytes \<Rightarrow> bytes \<Rightarrow> bytes" where
  "encode_response deleg payload = [VERSION] @ deleg @ payload"

definition decode_response :: "bytes \<Rightarrow> response option" where
  "decode_response frame =
     (case frame of
        [] \<Rightarrow> None
      | version # rest \<Rightarrow>
          if version \<noteq> VERSION \<or> length rest < LP2P_DELEGATION_BYTES then None
          else Some \<lparr>rs_delegation = take LP2P_DELEGATION_BYTES rest,
                     rs_payload = drop LP2P_DELEGATION_BYTES rest\<rparr>)"

definition encode_announcement :: "bytes \<Rightarrow> bytes \<Rightarrow> bytes" where
  "encode_announcement deleg payload = encode_response deleg payload"

definition decode_announcement :: "bytes \<Rightarrow> response option" where
  "decode_announcement frame = decode_response frame"

record raw_codec =
  max_request :: nat
  max_response :: nat

datatype io_error = InvalidData | Io nat

text \<open>
  \<open>read_bounded\<close>: the stream delivers its bytes or fails; at most one byte past the limit is read.
\<close>

definition read_bounded :: "io_error + bytes \<Rightarrow> nat \<Rightarrow> io_error + bytes" where
  "read_bounded io lim =
     (case io of
        Inl e \<Rightarrow> Inl e
      | Inr stream \<Rightarrow>
          let buf = take (lim + 1) stream
          in if length buf > lim then Inl InvalidData else Inr buf)"

definition read_request :: "raw_codec \<Rightarrow> io_error + bytes \<Rightarrow> io_error + bytes" where
  "read_request codec io = read_bounded io (max_request codec)"

definition read_response :: "raw_codec \<Rightarrow> io_error + bytes \<Rightarrow> io_error + bytes" where
  "read_response codec io = read_bounded io (max_response codec)"

section \<open>Round trips\<close>

definition request_wf :: "request \<Rightarrow> bool" where
  "request_wf r \<longleftrightarrow> length (rq_delegation r) = LP2P_DELEGATION_BYTES \<and>
     0 < length (rq_protocol r) \<and> length (rq_protocol r) \<le> 255 \<and> utf8_valid (rq_protocol r)"

definition response_wf :: "response \<Rightarrow> bool" where
  "response_wf r \<longleftrightarrow> length (rs_delegation r) = LP2P_DELEGATION_BYTES"

definition request_frame :: "request \<Rightarrow> bytes" where
  "request_frame r = encode_request (rq_delegation r) (rq_protocol r) (rq_payload r)"

definition response_frame :: "response \<Rightarrow> bytes" where
  "response_frame r = encode_response (rs_delegation r) (rs_payload r)"

lemma unat_byte_length: "n \<le> 255 \<Longrightarrow> unat (word_of_nat n :: u8) = n"
  by (simp add: unat_of_nat take_bit_eq_mod)

lemma decode_encode_request:
  "request_wf r \<Longrightarrow> decode_request (request_frame r) = Some r"
  by (simp add: request_wf_def request_frame_def encode_request_def decode_request_def Let_def
      unat_byte_length)

lemma decode_request_sound:
  assumes "decode_request frame = Some r"
  shows "request_wf r \<and> request_frame r = frame"
proof -
  from assms obtain rest where frame: "frame = VERSION # rest" and long: "136 < length rest"
    by (auto simp: decode_request_def LP2P_DELEGATION_BYTES_def split: list.splits if_splits)
  then obtain len tl where tl: "drop 136 rest = len # tl"
    by (cases "drop 136 rest") auto
  from assms frame tl
  have r: "r = \<lparr>rq_delegation = take 136 rest, rq_protocol = take (unat len) tl,
                rq_payload = drop (unat len) tl\<rparr>"
    and "0 < unat len" "unat len \<le> length tl" "utf8_valid (take (unat len) tl)"
    by (auto simp: decode_request_def LP2P_DELEGATION_BYTES_def Let_def split: if_splits)
  moreover have "unat len \<le> 255" using unsigned_less [of len, where ?'a = nat] by simp
  moreover have "rest = take 136 rest @ len # tl"
    using tl by (metis append_take_drop_id)
  ultimately show ?thesis
    using frame long
    by (simp add: request_wf_def request_frame_def encode_request_def LP2P_DELEGATION_BYTES_def
        min_def)
qed

lemma decode_encode_response:
  "response_wf r \<Longrightarrow> decode_response (response_frame r) = Some r"
  by (simp add: response_wf_def response_frame_def encode_response_def decode_response_def)

lemma decode_response_sound:
  "decode_response frame = Some r \<Longrightarrow> response_wf r \<and> response_frame r = frame"
  by (auto simp: decode_response_def response_wf_def response_frame_def encode_response_def
      split: list.splits if_splits)

interpretation request: frame_codec request_frame decode_request request_wf
  by unfold_locales (simp_all add: decode_encode_request decode_request_sound)

interpretation response: frame_codec response_frame decode_response response_wf
  by unfold_locales (simp_all add: decode_encode_response decode_response_sound)

lemma length_encode_request [simp]:
  "length (encode_request d p x) = 2 + length d + length p + length x"
  by (simp add: encode_request_def)

lemma length_encode_response [simp]: "length (encode_response d x) = 1 + length d + length x"
  by (simp add: encode_response_def)

lemma read_bounded_iff:
  "read_bounded (Inr stream) m = (if length stream \<le> m then Inr stream else Inl InvalidData)"
  by (auto simp: read_bounded_def Let_def min_def)

section \<open>Topic names\<close>

text \<open>The value of a lowercase hexadecimal digit, the other way round.\<close>

definition unhex_digit :: "u8 \<Rightarrow> nat" where
  "unhex_digit b = (if unat b < 58 then unat b - 48 else unat b - 87)"

lemma unhex_hex_digit: "d < 16 \<Longrightarrow> unhex_digit (hex_digit d) = d"
  by (auto simp: unhex_digit_def hex_digit_def unat_of_nat take_bit_eq_mod)

lemma hex2_inj: "hex2 a = hex2 b \<Longrightarrow> a = b"
proof -
  assume "hex2 a = hex2 b"
  then have "unhex_digit (hex_digit (unat a div 16)) = unhex_digit (hex_digit (unat b div 16))"
    and "unhex_digit (hex_digit (unat a mod 16)) = unhex_digit (hex_digit (unat b mod 16))"
    by (simp_all add: hex2_def)
  moreover have "unat a div 16 < 16" and "unat b div 16 < 16"
    using unsigned_less [of a, where ?'a = nat] unsigned_less [of b, where ?'a = nat] by auto
  ultimately have "unat a div 16 = unat b div 16" and "unat a mod 16 = unat b mod 16"
    by (simp_all add: unhex_hex_digit)
  then have "unat a = unat b" by (metis div_mult_mod_eq)
  then show "a = b" by (simp add: word_unat_eq_iff)
qed

lemma concat_hex2_inj: "concat (map hex2 xs) = concat (map hex2 ys) \<Longrightarrow> xs = ys"
proof (induction xs arbitrary: ys)
  case Nil
  then show ?case by (cases ys) (auto simp: hex2_def)
next
  case (Cons x xs)
  then obtain y ys' where "ys = y # ys'" by (cases ys) (auto simp: hex2_def)
  moreover have "length (hex2 x) = length (hex2 y)" by (simp add: hex2_def)
  ultimately show ?case using Cons by (auto dest: hex2_inj)
qed

lemma topic_name_inj: "topic_name k = topic_name k' \<Longrightarrow> k = k'"
  by (simp add: topic_name_def concat_hex2_inj)

lemma length_topic_name: "length (topic_name k) = 14 + 2 * length k"
  by (induction k) (auto simp: topic_name_def hex2_def)

text \<open>
  C34: Every request, response and announcement a node writes is decoded back to the same
  delegation, protocol name and payload, and a decoder accepts nothing but such frames: no frame
  has two readings and no message two frames.
\<close>

theorem frames_roundtrip:
  "(decode_request frame = Some r \<longleftrightarrow> request_wf r \<and>
      frame = encode_request (rq_delegation r) (rq_protocol r) (rq_payload r)) \<and>
   (decode_response frame = Some s \<longleftrightarrow> response_wf s \<and>
      frame = encode_response (rs_delegation s) (rs_payload s)) \<and>
   (decode_announcement frame = Some s \<longleftrightarrow> response_wf s \<and>
      frame = encode_announcement (rs_delegation s) (rs_payload s))"
  using request.dec_iff [of frame r] response.dec_iff [of frame s]
  by (auto simp: request_frame_def response_frame_def decode_announcement_def encode_announcement_def)

text \<open>
  The gossipsub name of a 32-byte topic key has 78 bytes, and two different topic keys
  never name the same gossipsub topic.
\<close>

theorem topic_name_injective:
  assumes "length k = 32"
  shows "length (topic_name k) = 78 \<and> (topic_name k' = topic_name k \<longleftrightarrow> k' = k)"
  using assms topic_name_inj by (auto simp: length_topic_name)

theorem topic_name_injective_witness:
  "length (topic_name (replicate 32 0xab)) = 78 \<and>
   (topic_name (replicate 32 0xac) = topic_name (replicate 32 0xab) \<longleftrightarrow>
      replicate 32 (0xac :: u8) = replicate 32 0xab)"
  by (rule topic_name_injective) simp

end
