(* ===== verification/Events.thy ===== *)
theory Events
  imports Abi "HOL-Library.Sublist"
begin

text \<open>
  \<open>src/events.rs\<close>: event records, the bounded queue between the node's threads and the callers of
  \<open>lp2p_poll\<close>, and the wait loop of \<open>poll\<close> under an arbitrary schedule of the other threads. The
  mutex makes \<open>push\<close>, \<open>close\<close> and each locked section of \<open>poll\<close> atomic, so every operation is a function
  on the queue's state.
\<close>

section \<open>Building records\<close>

definition event_new :: "u16 \<Rightarrow> lp2p_event" where
  "event_new kind = \<lparr>ev_type = kind, ev_flags = 0, ev_size = 0, ev_id = 0,
     ev_group = replicate 32 0, ev_node = replicate 32 0, ev_protocol = 0, ev_reason = 0,
     ev_data_len = 0\<rparr>"

text \<open>The whole header with the two fields \<open>EventBuilder::data\<close> fills in.\<close>

definition padded_size :: "nat \<Rightarrow> nat" where
  "padded_size data_len = ((LP2P_EVENT_HEADER_BYTES + data_len + 7) div 8) * 8"

definition event_header :: "lp2p_event \<Rightarrow> bytes \<Rightarrow> lp2p_event" where
  "event_header h d = h\<lparr>ev_size := word_of_nat (padded_size (length d)),
                       ev_data_len := word_of_nat (length d)\<rparr>"

definition header_bytes :: "endian \<Rightarrow> lp2p_event \<Rightarrow> bytes" where
  "header_bytes e h =
     ne_bytes e 2 (unat (ev_type h)) @
     ne_bytes e 2 (unat (ev_flags h)) @
     ne_bytes e 4 (unat (ev_size h)) @
     ne_bytes e 8 (unat (ev_id h)) @
     ev_group h @
     ev_node h @
     ne_bytes e 2 (unat (ev_protocol h)) @
     ne_bytes e 2 (unat (ev_reason h)) @
     ne_bytes e 4 (unat (ev_data_len h))"

text \<open>\<open>out.resize(size, 0)\<close> cuts or pads with zeros.\<close>

definition resize :: "nat \<Rightarrow> bytes \<Rightarrow> bytes" where
  "resize n bs = take n bs @ replicate (n - length bs) 0"

definition event_data :: "endian \<Rightarrow> lp2p_event \<Rightarrow> bytes \<Rightarrow> bytes" where
  "event_data e h d = resize (padded_size (length d)) (header_bytes e (event_header h d) @ d)"

definition event_build :: "endian \<Rightarrow> lp2p_event \<Rightarrow> bytes" where
  "event_build e h = event_data e h []"

section \<open>The queue\<close>

record event_queue =
  q_records :: "bytes list"
  q_bytes :: nat
  q_dropped :: u64
  q_closed :: "int option"
  q_max_bytes :: nat

definition queue_new :: "nat \<Rightarrow> event_queue" where
  "queue_new max_bytes = \<lparr>q_records = [], q_bytes = 0, q_dropped = 0, q_closed = None,
     q_max_bytes = max_bytes\<rparr>"

definition push :: "bytes \<Rightarrow> event_queue \<Rightarrow> event_queue" where
  "push rec q =
     (if q_bytes q + length rec > q_max_bytes q
      then q\<lparr>q_dropped := q_dropped q + 1\<rparr>
      else q\<lparr>q_bytes := q_bytes q + length rec, q_records := q_records q @ [rec]\<rparr>)"

definition close :: "int \<Rightarrow> event_queue \<Rightarrow> event_queue" where
  "close status q = (case q_closed q of None \<Rightarrow> q\<lparr>q_closed := Some status\<rparr> | Some _ \<Rightarrow> q)"

definition dropped :: "event_queue \<Rightarrow> u64" where
  "dropped q = q_dropped q"

text \<open>
  The copy loop: whole records from the front while they fit. The result is the queue's records
  and byte count, the number of bytes written and the buffer, or the status of a buffer too
  small for the first record.
\<close>

fun copy_records ::
  "bytes list \<Rightarrow> nat \<Rightarrow> nat \<Rightarrow> bytes \<Rightarrow> int + (bytes list \<times> nat \<times> nat \<times> bytes)" where
  "copy_records [] n written buf = Inr ([], n, written, buf)"
| "copy_records (front # rest) n written buf =
     (let len = length front
      in if written + len > length buf
         then (if written = 0 then Inl LP2P_ERR_BUFFER_TOO_SMALL
               else Inr (front # rest, n, written, buf))
         else copy_records rest (n - len) (written + len) (write_at buf written front))"

text \<open>What \<open>poll\<close> does once it holds the lock with something to report.\<close>

definition poll_locked :: "endian \<Rightarrow> bytes \<Rightarrow> event_queue \<Rightarrow> int \<times> bytes \<times> event_queue" where
  "poll_locked e buf q =
     (let overflow = event_build e ((event_new LP2P_EV_OVERFLOW)\<lparr>ev_id := q_dropped q\<rparr>)
      in if q_dropped q > 0 \<and> length overflow > length buf
         then (LP2P_ERR_BUFFER_TOO_SMALL, buf, q)
         else
           let (buf, written, q) =
                 (if q_dropped q > 0
                  then (write_at buf 0 overflow, length overflow, q\<lparr>q_dropped := 0\<rparr>)
                  else (buf, 0, q))
           in case copy_records (q_records q) (q_bytes q) written buf of
                Inl status \<Rightarrow> (status, buf, q)
              | Inr (recs, n, written, buf) \<Rightarrow>
                  let q = q\<lparr>q_records := recs, q_bytes := n\<rparr>
                  in case q_closed q of
                       Some status \<Rightarrow> if written = 0 then (status, buf, q) else (as_i32 written, buf, q)
                     | None \<Rightarrow> (as_i32 written, buf, q))"

definition poll_ready :: "event_queue \<Rightarrow> bool" where
  "poll_ready q \<longleftrightarrow> \<not> (q_records q = [] \<and> q_dropped q = 0 \<and> q_closed q = None)"

text \<open>
  The wait loop. A schedule says, for each time the loop finds nothing, what the clock reads and
  what the other threads do to the queue before this one holds the lock again. \<open>Waiting\<close> is the
  state of a thread whose schedule has not gone on yet.
\<close>

datatype queue_op = Push bytes | Close int | Poll nat

fun queue_step :: "endian \<Rightarrow> queue_op \<Rightarrow> event_queue \<Rightarrow> event_queue" where
  "queue_step e (Push rec) q = push rec q"
| "queue_step e (Close status) q = close status q"
| "queue_step e (Poll cap) q = (if poll_ready q then snd (snd (poll_locked e (replicate cap 0) q)) else q)"

definition queue_run :: "endian \<Rightarrow> queue_op list \<Rightarrow> event_queue \<Rightarrow> event_queue" where
  "queue_run e ops q = fold (queue_step e) ops q"

datatype poll_result = Waiting event_queue | Returned int bytes event_queue

fun poll_loop ::
  "endian \<Rightarrow> bytes \<Rightarrow> instant \<Rightarrow> (instant \<times> queue_op list) list \<Rightarrow> event_queue \<Rightarrow> poll_result" where
  "poll_loop e buf deadline sched q =
     (if poll_ready q
      then (case poll_locked e buf q of (status, buf', q') \<Rightarrow> Returned status buf' q')
      else case sched of
          [] \<Rightarrow> Waiting q
        | (now, ops) # sched' \<Rightarrow>
            if deadline \<le> now then Returned 0 buf q
            else poll_loop e buf deadline sched' (queue_run e ops q))"

definition poll ::
  "endian \<Rightarrow> bytes \<Rightarrow> duration \<Rightarrow> instant \<Rightarrow> (instant \<times> queue_op list) list \<Rightarrow> event_queue \<Rightarrow> poll_result"
  where "poll e buf timeout start sched q = poll_loop e buf (start + timeout) sched q"


declare poll_loop.simps [simp del]

lemma poll_loop_unfold [simp]:
  "poll_loop e buf deadline [] q =
     (if poll_ready q then (case poll_locked e buf q of (status, buf', q') \<Rightarrow> Returned status buf' q')
      else Waiting q)"
  "poll_loop e buf deadline ((now, ops) # sched) q =
     (if poll_ready q then (case poll_locked e buf q of (status, buf', q') \<Rightarrow> Returned status buf' q')
      else if deadline \<le> now then Returned 0 buf q
      else poll_loop e buf deadline sched (queue_run e ops q))"
  by (simp_all add: poll_loop.simps)

lemma poll_locked_closed: "poll_locked e buf q = (st, buf', q') \<Longrightarrow> q_closed q' = q_closed q"
  by (auto simp: poll_locked_def Let_def split: if_splits sum.splits option.splits)

section \<open>Record layout\<close>

text \<open>The key fields of a header are 32 bytes, as the Rust arrays are.\<close>

definition event_wf :: "lp2p_event \<Rightarrow> bool" where
  "event_wf h \<longleftrightarrow> length (ev_group h) = 32 \<and> length (ev_node h) = 32"

lemma event_wf_new [simp]: "event_wf (event_new k)"
  by (simp add: event_wf_def event_new_def)

lemma event_wf_header [simp]: "event_wf (event_header h d) = event_wf h"
  by (simp add: event_wf_def event_header_def)

lemma length_header_bytes [simp, layout_simps]: "event_wf h \<Longrightarrow> length (header_bytes e h) = 88"
  by (simp add: event_wf_def header_bytes_def)

lemma padded_size_bounds:
  "88 + n \<le> padded_size n" "padded_size n < 96 + n" "padded_size n mod 8 = 0"
  unfolding padded_size_def LP2P_EVENT_HEADER_BYTES_def by (presburger, presburger, simp)

lemma event_data_eq:
  "event_wf h \<Longrightarrow> event_data e h d =
     header_bytes e (event_header h d) @ d @ replicate (padded_size (length d) - 88 - length d) 0"
  using padded_size_bounds(1) [of "length d"] by (simp add: event_data_def resize_def)

lemma length_event_data [simp]: "event_wf h \<Longrightarrow> length (event_data e h d) = padded_size (length d)"
  using padded_size_bounds(1) [of "length d"] by (simp add: event_data_eq)

definition overflow_record :: "endian \<Rightarrow> u64 \<Rightarrow> bytes" where
  "overflow_record e n = event_build e ((event_new LP2P_EV_OVERFLOW)\<lparr>ev_id := n\<rparr>)"

lemma length_overflow_record [simp]: "length (overflow_record e n) = 88"
  by (simp add: overflow_record_def event_build_def event_wf_def event_new_def padded_size_def
      LP2P_EVENT_HEADER_BYTES_def)

section \<open>The copy loop\<close>

text \<open>The records that fit into \<open>room\<close> bytes, and the rest.\<close>

fun fit :: "nat \<Rightarrow> bytes list \<Rightarrow> bytes list \<times> bytes list" where
  "fit room [] = ([], [])"
| "fit room (r # rs) =
     (if length r > room then ([], r # rs)
      else (case fit (room - length r) rs of (out, rest) \<Rightarrow> (r # out, rest)))"

abbreviation total :: "bytes list \<Rightarrow> nat" where
  "total rs \<equiv> sum_list (map length rs)"

lemma fit_append: "fit room rs = (out, rest) \<Longrightarrow> rs = out @ rest"
  by (induction room rs arbitrary: out rest rule: fit.induct) (auto split: if_splits prod.splits)

lemma fit_total: "fit room rs = (out, rest) \<Longrightarrow> total out \<le> room"
proof (induction room rs arbitrary: out rest rule: fit.induct)
  case (2 room r rs)
  then show ?case by (fastforce split: if_splits prod.splits)
qed simp

lemma fit_maximal: "fit room rs = (out, r # rest) \<Longrightarrow> room < total out + length r"
proof (induction room rs arbitrary: out r rest rule: fit.induct)
  case (2 room x rs)
  then show ?case by (fastforce split: if_splits prod.splits)
qed simp

lemma fit_all: "total rs \<le> room \<Longrightarrow> fit room rs = (rs, [])"
  by (induction room rs rule: fit.induct) auto

lemma copy_records_fit:
  assumes "written \<le> length buf" and "\<forall>r \<in> set rs. 0 < length r"
    and "written > 0 \<or> rs = [] \<or> length (hd rs) \<le> length buf"
    and "fit (length buf - written) rs = (out, rest)"
  shows "\<exists>buf'. copy_records rs n written buf = Inr (rest, n - total out, written + total out, buf') \<and>
     length buf' = length buf \<and> take (written + total out) buf' = take written buf @ concat out"
  using assms
proof (induction rs n written buf arbitrary: out rule: copy_records.induct)
  case (2 front rs n written buf)
  show ?case
  proof (cases "written + length front > length buf")
    case True
    then have "length buf - written < length front" using "2.prems"(1) by linarith
    with "2.prems"(4) have "out = []" and "rest = front # rs" by simp_all
    with True "2.prems"(3) show ?thesis by auto
  next
    case False
    let ?buf = "write_at buf written front"
    from False have len: "length ?buf = length buf" by simp
    from False "2.prems"(4) obtain out' where out: "out = front # out'"
      and fit': "fit (length ?buf - (written + length front)) rs = (out', rest)"
      by (auto simp: diff_diff_left split: prod.splits if_splits)
    have "\<exists>buf'. copy_records rs (n - length front) (written + length front) ?buf =
         Inr (rest, n - length front - total out', written + length front + total out', buf') \<and>
       length buf' = length ?buf \<and>
       take (written + length front + total out') buf' = take (written + length front) ?buf @ concat out'"
      by (rule "2.IH" [OF refl False _ _ _ fit']) (use False len "2.prems"(2) in auto)
    with False len show ?thesis
      by (auto simp: Let_def out take_write_at add.assoc)
  qed
qed auto

section \<open>The invariant of the queue\<close>

text \<open>
  Every record has at least a header, the byte count is the sum of the record lengths and
  stays within the bound.
\<close>

definition queue_wf :: "event_queue \<Rightarrow> bool" where
  "queue_wf q \<longleftrightarrow> (\<forall>r \<in> set (q_records q). 88 \<le> length r) \<and>
     q_bytes q = total (q_records q) \<and> q_bytes q \<le> q_max_bytes q"

text \<open>When the buffer cannot take the first thing to report.\<close>

definition too_small :: "nat \<Rightarrow> event_queue \<Rightarrow> bool" where
  "too_small cap q \<longleftrightarrow>
     (if q_dropped q > 0 then cap < 88
      else q_records q \<noteq> [] \<and> cap < length (hd (q_records q)))"

text \<open>The overflow record that goes first, if anything was dropped.\<close>

definition overflow_part :: "endian \<Rightarrow> event_queue \<Rightarrow> bytes list" where
  "overflow_part e q = (if q_dropped q > 0 then [overflow_record e (q_dropped q)] else [])"

definition delivered :: "endian \<Rightarrow> nat \<Rightarrow> event_queue \<Rightarrow> bytes list" where
  "delivered e cap q = fst (fit (cap - total (overflow_part e q)) (q_records q))"

lemma queue_wf_new [simp]: "queue_wf (queue_new m)"
  by (simp add: queue_wf_def queue_new_def)

lemma queue_wf_push: "queue_wf q \<Longrightarrow> 88 \<le> length r \<Longrightarrow> queue_wf (push r q)"
  by (auto simp: queue_wf_def push_def)

lemma queue_wf_close: "queue_wf q \<Longrightarrow> queue_wf (close st q)"
  by (simp add: queue_wf_def close_def split: option.splits)

lemma poll_too_small:
  "too_small (length buf) q \<Longrightarrow> poll_locked e buf q = (LP2P_ERR_BUFFER_TOO_SMALL, buf, q)"
  by (cases "q_records q")
    (auto simp: too_small_def poll_locked_def Let_def overflow_record_def [symmetric] split: if_splits)

lemma poll_copies:
  assumes wf: "queue_wf q" and fits: "\<not> too_small (length buf) q"
    and fit: "fit (length buf - total (overflow_part e q)) (q_records q) = (out, rest)"
  shows "\<exists>buf'. poll_locked e buf q =
       (case q_closed q of
          Some status \<Rightarrow> if overflow_part e q @ out = [] then status
                         else as_i32 (total (overflow_part e q @ out))
        | None \<Rightarrow> as_i32 (total (overflow_part e q @ out)),
        buf', q\<lparr>q_records := rest, q_bytes := total rest, q_dropped := 0\<rparr>) \<and>
     length buf' = length buf \<and>
     take (total (overflow_part e q @ out)) buf' = concat (overflow_part e q @ out)"
proof -
  let ?ov = "overflow_part e q"
  define b where "b = (if q_dropped q > 0 then write_at buf 0 (overflow_record e (q_dropped q)) else buf)"
  have room: "total ?ov \<le> length buf"
    using fits by (simp add: overflow_part_def too_small_def split: if_splits)
  have b: "length b = length buf" "take (total ?ov) b = concat ?ov"
    using room take_write_at [of 0 "overflow_record e (q_dropped q)" buf]
    by (auto simp: b_def overflow_part_def)
  have pos: "\<forall>r \<in> set (q_records q). 0 < length r"
    using wf by (fastforce simp: queue_wf_def)
  have "0 < total ?ov \<or> q_records q = [] \<or> length (hd (q_records q)) \<le> length b"
    using fits b(1) by (auto simp: overflow_part_def too_small_def)
  then obtain buf' where copy:
      "copy_records (q_records q) (q_bytes q) (total ?ov) b =
         Inr (rest, q_bytes q - total out, total ?ov + total out, buf')"
      "length buf' = length b" "take (total ?ov + total out) buf' = take (total ?ov) b @ concat out"
    using copy_records_fit [of "total ?ov" b "q_records q" out rest "q_bytes q"] room b(1) pos fit
    by auto
  have bytes: "q_bytes q - total out = total rest"
    using wf fit_append [OF fit] by (simp add: queue_wf_def)
  have out_empty: "total (?ov @ out) = 0 \<longleftrightarrow> ?ov @ out = []"
    using fit_append [OF fit] pos by (auto simp: overflow_part_def)
  have "\<not> (q_dropped q > 0 \<and> length (overflow_record e (q_dropped q)) > length buf)"
    using fits by (auto simp: too_small_def)
  then have "poll_locked e buf q =
      (case q_closed q of
          Some status \<Rightarrow> if ?ov @ out = [] then status else as_i32 (total (?ov @ out))
        | None \<Rightarrow> as_i32 (total (?ov @ out)),
       buf', q\<lparr>q_records := rest, q_bytes := total rest, q_dropped := 0\<rparr>)"
    using copy(1) bytes out_empty
    by (cases q) (auto simp: word_gt_0 poll_locked_def Let_def overflow_record_def [symmetric] b_def overflow_part_def
        split: option.splits if_splits)
  with copy b show ?thesis by auto
qed

lemma poll_state:
  assumes "queue_wf q"
  shows "snd (snd (poll_locked e buf q)) =
    (if too_small (length buf) q then q
     else q\<lparr>q_records := drop (length (delivered e (length buf) q)) (q_records q),
            q_bytes := total (drop (length (delivered e (length buf) q)) (q_records q)),
            q_dropped := 0\<rparr>)"
proof (cases "too_small (length buf) q")
  case False
  obtain out rest where fit: "fit (length buf - total (overflow_part e q)) (q_records q) = (out, rest)"
    by fastforce
  then have "delivered e (length buf) q = out" by (simp add: delivered_def)
  with fit_append [OF fit] poll_copies [OF assms False fit] False show ?thesis by auto
qed (simp add: poll_too_small)

lemma delivered_prefix: "delivered e cap q = take (length (delivered e cap q)) (q_records q)"
  using fit_append [of "cap - total (overflow_part e q)" "q_records q"]
  by (cases "fit (cap - total (overflow_part e q)) (q_records q)") (simp add: delivered_def)

lemma queue_wf_poll:
  assumes "queue_wf q"
  shows "queue_wf (snd (snd (poll_locked e buf q)))"
proof -
  have "total (drop k xs) \<le> total xs" for k and xs :: "bytes list"
    using append_take_drop_id [of k xs] by (metis le_add2 map_append sum_list.append)
  moreover have "q_bytes q = total (q_records q)" "q_bytes q \<le> q_max_bytes q"
    using assms by (auto simp: queue_wf_def)
  ultimately show ?thesis
    using assms by (auto simp: poll_state queue_wf_def dest: in_set_dropD intro: le_trans)
qed

definition op_ok :: "queue_op \<Rightarrow> bool" where
  "op_ok op \<longleftrightarrow> (case op of Push r \<Rightarrow> 88 \<le> length r | _ \<Rightarrow> True)"

lemma queue_wf_step: "queue_wf q \<Longrightarrow> op_ok op \<Longrightarrow> queue_wf (queue_step e op q)"
  by (cases op) (auto simp: op_ok_def queue_wf_push queue_wf_close queue_wf_poll)

lemma queue_step_max [simp]: "queue_wf q \<Longrightarrow> q_max_bytes (queue_step e op q) = q_max_bytes q"
  by (cases op) (auto simp: push_def close_def poll_state split: option.splits)

section \<open>Accounting over whole histories\<close>

text \<open>
  The interface between the node, which only pushes, and the callers, who only poll: a push is
  either queued at the back or counted as lost, a poll removes from the front, and the lost count
  goes back to zero only when it was reported. \<open>history\<close> runs operations and collects what was
  delivered and how many losses were reported.
\<close>

fun pushes :: "queue_op list \<Rightarrow> bytes list" where
  "pushes [] = []"
| "pushes (Push r # ops) = r # pushes ops"
| "pushes (_ # ops) = pushes ops"

fun history ::
  "(queue_op \<Rightarrow> 'q \<Rightarrow> 'q) \<Rightarrow> ('q \<Rightarrow> bytes list) \<Rightarrow> ('q \<Rightarrow> nat) \<Rightarrow> queue_op list \<Rightarrow> 'q \<Rightarrow>
     'q \<times> bytes list \<times> nat" where
  "history step view lost [] q = (q, [], 0)"
| "history step view lost (op # ops) q =
     (let q' = step op q
      in case history step view lost ops q' of (final, out, reported) \<Rightarrow>
        (case op of
           Poll _ \<Rightarrow> (final, take (length (view q) - length (view q')) (view q) @ out,
                     (lost q - lost q') + reported)
         | _ \<Rightarrow> (final, out, reported)))"

locale reporting_queue =
  fixes step :: "queue_op \<Rightarrow> 'q \<Rightarrow> 'q" and view :: "'q \<Rightarrow> bytes list" and lost :: "'q \<Rightarrow> nat"
    and inv :: "'q \<Rightarrow> bool" and top :: nat
  assumes inv_step: "inv q \<Longrightarrow> op_ok op \<Longrightarrow> inv (step op q)"
    and push_law: "inv q \<Longrightarrow> op_ok (Push r) \<Longrightarrow> lost q < top \<Longrightarrow>
      (view (step (Push r) q) = view q @ [r] \<and> lost (step (Push r) q) = lost q) \<or>
      (view (step (Push r) q) = view q \<and> lost (step (Push r) q) = Suc (lost q))"
    and close_law: "inv q \<Longrightarrow> view (step (Close st) q) = view q \<and> lost (step (Close st) q) = lost q"
    and poll_law: "inv q \<Longrightarrow> \<exists>k \<le> length (view q). view (step (Poll cap) q) = drop k (view q) \<and>
      lost (step (Poll cap) q) \<le> lost q"
begin

lemma lost_step: "inv q \<Longrightarrow> op_ok op \<Longrightarrow> lost q < top \<Longrightarrow> lost (step op q) \<le> Suc (lost q)"
proof (cases op)
  case (Push r)
  assume "inv q" "op_ok op" "lost q < top"
  with Push push_law [of q r] show ?thesis by (metis Suc_n_not_le_n nle_le)
next
  case (Close st)
  assume "inv q"
  with Close close_law [of q st] show ?thesis by simp
next
  case (Poll cap)
  assume "inv q"
  with Poll poll_law [of q cap] show ?thesis by (metis le_SucI)
qed

lemma accounting:
  assumes "inv q" and "\<forall>op \<in> set ops. op_ok op" and "lost q + length ops \<le> top"
    and "history step view lost ops q = (final, out, reported)"
  shows "inv final \<and> subseq (out @ view final) (view q @ pushes ops) \<and>
    length (view q) + length (pushes ops) + lost q = length out + length (view final) + reported + lost final"
  using assms
proof (induction ops arbitrary: q out reported)
  case (Cons op ops)
  let ?q = "step op q"
  obtain out' rep' where rec: "history step view lost ops ?q = (final, out', rep')"
    using Cons.prems(4) by (cases op) (auto simp: Let_def split: prod.splits)
  have "lost ?q + length ops \<le> top"
    using lost_step [of q op] Cons.prems by force
  with Cons.IH [OF _ _ _ rec] Cons.prems inv_step
  have IH: "inv final" "subseq (out' @ view final) (view ?q @ pushes ops)"
    "length (view ?q) + length (pushes ops) + lost ?q =
       length out' + length (view final) + rep' + lost final"
    by auto
  show ?case
  proof (cases op)
    case (Push r)
    with Cons.prems rec have eq: "out = out'" "reported = rep'" by (auto simp: Let_def)
    from Push Cons.prems
    consider "view ?q = view q @ [r]" "lost ?q = lost q" | "view ?q = view q" "lost ?q = Suc (lost q)"
      using push_law [of q r] by fastforce
    then show ?thesis
    proof cases
      case 1
      with IH Push eq show ?thesis by simp
    next
      case 2
      have "subseq (pushes ops) (r # pushes ops)" by (rule list_emb_Cons) simp
      then have "subseq (view q @ pushes ops) (view q @ r # pushes ops)"
        by (simp only: subseq_append')
      with 2 IH Push eq show ?thesis by (auto intro: subseq_order.trans)
    qed
  next
    case (Close st)
    with Cons.prems rec IH close_law [of q st] show ?thesis by (auto simp: Let_def)
  next
    case (Poll cap)
    then obtain k where k: "k \<le> length (view q)" "view ?q = drop k (view q)" "lost ?q \<le> lost q"
      using poll_law Cons.prems(1) by blast
    have eq: "out = take k (view q) @ out'" "reported = (lost q - lost ?q) + rep'"
      using Cons.prems(4) rec Poll k by (auto simp: Let_def)
    have "subseq (take k (view q) @ out' @ view final) (take k (view q) @ view ?q @ pushes ops)"
      using IH(2) by (simp add: subseq_append')
    with IH k eq Poll show ?thesis by (simp flip: append_assoc)
  qed
qed simp

end

lemma unat_Suc_u64: "unat (w :: u64) < 2 ^ 64 - 1 \<Longrightarrow> unat (w + 1) = Suc (unat w)"
  by (simp add: unat_word_ariths)

interpretation event_queue:
  reporting_queue "queue_step e" q_records "\<lambda>q. unat (q_dropped q)" queue_wf "2 ^ 64 - 1"
proof (unfold_locales, goal_cases)
  case (1 q op)
  then show ?case by (rule queue_wf_step)
next
  case (2 q r)
  then show ?case by (auto simp: push_def unat_Suc_u64)
next
  case (3 q st)
  then show ?case by (simp add: close_def split: option.splits)
next
  case (4 q cap)
  have "length (delivered e cap q) \<le> length (q_records q)"
    using delivered_prefix [of e cap q] by (metis length_take min.bounded_iff order_refl)
  with 4 show ?case by (auto simp: poll_state intro: exI [of _ 0])
qed

lemma delivered_room:
  assumes "\<not> too_small cap q"
  shows "total (overflow_part e q @ delivered e cap q) \<le> cap"
proof -
  have "total (overflow_part e q) \<le> cap"
    using assms by (simp add: overflow_part_def too_small_def split: if_splits)
  then show ?thesis
    using fit_total [of "cap - total (overflow_part e q)" "q_records q"]
    by (cases "fit (cap - total (overflow_part e q)) (q_records q)") (auto simp: delivered_def)
qed

section \<open>The wait loop\<close>

text \<open>The queue when the loop looks for the \<open>j\<close>-th time.\<close>

definition seen :: "endian \<Rightarrow> (instant \<times> queue_op list) list \<Rightarrow> event_queue \<Rightarrow> nat \<Rightarrow> event_queue" where
  "seen e sched q j = queue_run e (concat (map snd (take j sched))) q"

lemma seen_0 [simp]: "seen e sched q 0 = q"
  by (simp add: seen_def queue_run_def)

lemma seen_Suc [simp]: "seen e ((now, ops) # sched) q (Suc j) = seen e sched (queue_run e ops q) j"
  by (simp add: seen_def queue_run_def)

lemma poll_loop_returns:
  "\<exists>i < length sched. deadline \<le> fst (sched ! i) \<Longrightarrow>
   \<exists>status buf' q'. poll_loop e buf deadline sched q = Returned status buf' q'"
proof (induction sched arbitrary: q)
  case (Cons s sched)
  obtain now ops where s: "s = (now, ops)" by fastforce
  show ?case
  proof (cases "poll_ready q \<or> deadline \<le> now")
    case True
    then show ?thesis by (cases "poll_locked e buf q") (auto simp: s)
  next
    case False
    with Cons.prems have "\<exists>i < length sched. deadline \<le> fst (sched ! i)"
      by (auto simp: s less_Suc_eq_0_disj)
    with Cons.IH False show ?thesis by (simp add: s)
  qed
qed simp

lemma poll_loop_waiting: "poll_loop e buf deadline sched q = Waiting q1 \<Longrightarrow> \<not> poll_ready q1"
proof (induction sched arbitrary: q)
  case (Cons s sched)
  then show ?case by (cases s) (auto split: if_splits prod.splits)
qed (auto split: if_splits prod.splits)

lemma poll_loop_returned:
  assumes "poll_loop e buf deadline sched q = Returned status buf' q'"
  shows "\<exists>k \<le> length sched. (\<forall>j < k. \<not> poll_ready (seen e sched q j)) \<and>
    (if poll_ready (seen e sched q k) then poll_locked e buf (seen e sched q k) = (status, buf', q')
     else k < length sched \<and> deadline \<le> fst (sched ! k) \<and>
          status = 0 \<and> buf' = buf \<and> q' = seen e sched q k)"
  using assms
proof (induction sched arbitrary: q)
  case Nil
  then show ?case by (auto split: if_splits prod.splits)
next
  case (Cons s sched)
  obtain now ops where s: "s = (now, ops)" by fastforce
  show ?case
  proof (cases "poll_ready q \<or> deadline \<le> now")
    case True
    with Cons.prems show ?thesis
      by (intro exI [of _ 0]) (auto simp: s split: if_splits prod.splits)
  next
    case False
    with Cons.prems have "poll_loop e buf deadline sched (queue_run e ops q) = Returned status buf' q'"
      by (simp add: s)
    then obtain k where k: "k \<le> length sched" "\<forall>j < k. \<not> poll_ready (seen e sched (queue_run e ops q) j)"
      "if poll_ready (seen e sched (queue_run e ops q) k)
       then poll_locked e buf (seen e sched (queue_run e ops q) k) = (status, buf', q')
       else k < length sched \<and> deadline \<le> fst (sched ! k) \<and> status = 0 \<and> buf' = buf \<and>
         q' = seen e sched (queue_run e ops q) k"
      using Cons.IH by blast
    have "\<not> poll_ready (seen e (s # sched) q j)" if "j < Suc k" for j
      using that k(2) False by (cases j) (simp_all add: s)
    with k show ?thesis by (intro exI [of _ "Suc k"]) (simp add: s)
  qed
qed

section \<open>What a poll does\<close>

lemma delivered_some:
  assumes "queue_wf q" and "\<not> too_small cap q" and "q_records q \<noteq> [] \<or> q_dropped q > 0"
  shows "0 < total (overflow_part e q @ delivered e cap q)"
proof (cases "q_dropped q > 0")
  case True
  then show ?thesis by (simp add: overflow_part_def)
next
  case False
  with assms(3) obtain r rs where q: "q_records q = r # rs" by (cases "q_records q") auto
  with assms(1,2) False have "88 \<le> length r" "length r \<le> cap" by (simp_all add: queue_wf_def too_small_def)
  with q False show ?thesis by (auto simp: delivered_def overflow_part_def split: prod.splits)
qed

lemma poll_outcome:
  assumes "queue_wf q"
    and "poll_locked e buf q = (status, buf', q')"
  shows "if too_small (length buf) q then status = LP2P_ERR_BUFFER_TOO_SMALL \<and> buf' = buf \<and> q' = q
    else
      let out = overflow_part e q @ delivered e (length buf) q;
          rest = drop (length (delivered e (length buf) q)) (q_records q)
      in q_records q = delivered e (length buf) q @ rest \<and>
         (rest \<noteq> [] \<longrightarrow> length buf < total out + length (hd rest)) \<and>
         take (total out) buf' = concat out \<and> total out \<le> length buf \<and> length buf' = length buf \<and>
         q' = q\<lparr>q_records := rest, q_bytes := total rest, q_dropped := 0\<rparr> \<and>
         status = (if out = [] \<and> q_closed q \<noteq> None then the (q_closed q) else as_i32 (total out))"
proof (cases "too_small (length buf) q")
  case True
  with assms show ?thesis by (simp add: poll_too_small)
next
  case False
  obtain out rest where fit: "fit (length buf - total (overflow_part e q)) (q_records q) = (out, rest)"
    by fastforce
  have room: "total (overflow_part e q) \<le> length buf"
    using False by (simp add: overflow_part_def too_small_def split: if_splits)
  have out: "delivered e (length buf) q = out" and app: "q_records q = out @ rest"
    using fit fit_append [OF fit] by (simp_all add: delivered_def)
  have "rest \<noteq> [] \<longrightarrow> length buf < total (overflow_part e q @ out) + length (hd rest)"
    using fit_maximal [of "length buf - total (overflow_part e q)" "q_records q" out "hd rest" "tl rest"]
      fit room by (cases rest) auto
  moreover have "total (overflow_part e q @ out) \<le> length buf"
    using fit_total [OF fit] room by simp
  ultimately show ?thesis
    using poll_copies [OF assms(1) False fit] assms(2) False
    by (auto simp: out app Let_def split: option.splits)
qed

section \<open>Properties\<close>

text \<open>
  What a poll writes. When the buffer cannot take the first thing to report, the call answers
  LP2P_ERR_BUFFER_TOO_SMALL and changes nothing; otherwise the buffer begins with the overflow
  record (if events were dropped) followed by the longest run of whole records from the front of
  the queue that fits, those and only those leave the queue, and the drop counter is reset.
\<close>

theorem poll_delivers:
  assumes "queue_wf q"
    and "poll_locked e buf q = (status, buf', q')"
  shows "if too_small (length buf) q then status = LP2P_ERR_BUFFER_TOO_SMALL \<and> buf' = buf \<and> q' = q
    else
      let out = overflow_part e q @ delivered e (length buf) q;
          rest = drop (length (delivered e (length buf) q)) (q_records q)
      in q_records q = delivered e (length buf) q @ rest \<and>
         (rest \<noteq> [] \<longrightarrow> length buf < total out + length (hd rest)) \<and>
         take (total out) buf' = concat out \<and> total out \<le> length buf \<and> length buf' = length buf \<and>
         q' = q\<lparr>q_records := rest, q_bytes := total rest, q_dropped := 0\<rparr> \<and>
         status = (if out = [] \<and> q_closed q \<noteq> None then the (q_closed q) else as_i32 (total out))"
  by (rule poll_outcome [OF assms])

definition demo_queue :: event_queue where
  "demo_queue = queue_run Little [Push (event_data Little (event_new 1) [97, 98, 99]),
     Push (event_data Little (event_new 1) [97])] (queue_new 96)"

lemma demo_queue_eq:
  "demo_queue = \<lparr>q_records = [event_data Little (event_new 1) [97, 98, 99]], q_bytes = 96, q_dropped = 1,
     q_closed = None, q_max_bytes = 96\<rparr>"
  by (simp add: demo_queue_def queue_run_def queue_new_def push_def padded_size_def
      LP2P_EVENT_HEADER_BYTES_def)

lemma demo_queue_wf: "queue_wf demo_queue"
  by (simp add: demo_queue_eq queue_wf_def padded_size_def LP2P_EVENT_HEADER_BYTES_def)

theorem poll_delivers_witness:
  "\<exists>buf' q'. poll_locked Little (replicate 100 0) demo_queue = (88, buf', q') \<and>
     take 88 buf' = overflow_record Little 1 \<and> length (q_records q') = 1 \<and> q_dropped q' = 0"
proof -
  obtain status buf' q' where p: "poll_locked Little (replicate 100 0) demo_queue = (status, buf', q')"
    by (cases "poll_locked Little (replicate 100 0) demo_queue") auto
  show ?thesis
    using poll_delivers [OF demo_queue_wf p] p
    by (auto simp: too_small_def demo_queue_eq overflow_part_def delivered_def Let_def padded_size_def
        LP2P_EVENT_HEADER_BYTES_def as_i32_small split: if_splits)
qed



text \<open>
  C31: A poll never waits past its deadline and never misses what is there. Under every schedule
  of the other threads: once the clock is seen at or past the deadline the call has returned, a
  thread still waiting has found nothing to report, and a return comes from the first state the
  loop finds with something to report, or else is 0 with the buffer untouched, at a clock reading
  past the deadline with nothing to report in this or any earlier state.
\<close>

theorem poll_wait_bounded:
  "((\<exists>i < length sched. start + timeout \<le> fst (sched ! i)) \<longrightarrow>
      (\<exists>status buf' q'. poll e buf timeout start sched q = Returned status buf' q')) \<and>
   (poll e buf timeout start sched q = Waiting q1 \<longrightarrow> \<not> poll_ready q1) \<and>
   (poll e buf timeout start sched q = Returned status buf' q' \<longrightarrow>
      (\<exists>k \<le> length sched.
         (\<forall>j < k. \<not> poll_ready (seen e sched q j)) \<and>
         (if poll_ready (seen e sched q k) then poll_locked e buf (seen e sched q k) = (status, buf', q')
          else k < length sched \<and> start + timeout \<le> fst (sched ! k) \<and>
               status = 0 \<and> buf' = buf \<and> q' = seen e sched q k)))"
  unfolding poll_def
  by (intro conjI impI poll_loop_returns poll_loop_waiting poll_loop_returned)

theorem poll_wait_bounded_witness:
  "\<exists>status buf' q'. poll Little [] 5 10 [(12, []), (15, [])] (queue_new 96) = Returned status buf' q'"
proof -
  have "\<exists>i < length [(12 :: nat, [] :: queue_op list), (15, [])].
      10 + 5 \<le> fst ([(12 :: nat, [] :: queue_op list), (15, [])] ! i)"
    by (intro exI [of _ 1]) simp
  then show ?thesis using poll_wait_bounded [of "[(12, []), (15, [])]" 10 5 Little "[]" "queue_new 96"]
    by blast
qed

end
