(* ===== verification/Reader.thy ===== *)
theory Reader
  imports Events
begin

text \<open>
  The consumer side of the record format: the loop with which \<open>examples/holepunch.rs\<close>
  (\<open>Node::poll\<close>) walks the bytes \<open>lp2p_poll\<close> wrote. The loop advances by the record's own \<open>size\<close>
  field, so nothing but the producer makes it end: it is a partial function whose \<open>None\<close> means that it
  does not return, and \<open>Some (Inl ())\<close> a panic from a slice out of range.
\<close>

text \<open>\<open>std::ptr::read_unaligned\<close> of an \<open>lp2p_event\<close> at the start of the bytes.\<close>

definition read_header :: "endian \<Rightarrow> bytes \<Rightarrow> lp2p_event" where
  "read_header e bs = \<lparr>
     ev_type = word_of_nat (ne_value e (slice 0 2 bs)),
     ev_flags = word_of_nat (ne_value e (slice 2 2 bs)),
     ev_size = word_of_nat (ne_value e (slice 4 4 bs)),
     ev_id = word_of_nat (ne_value e (slice 8 8 bs)),
     ev_group = slice 16 32 bs,
     ev_node = slice 48 32 bs,
     ev_protocol = word_of_nat (ne_value e (slice 80 2 bs)),
     ev_reason = word_of_nat (ne_value e (slice 82 2 bs)),
     ev_data_len = word_of_nat (ne_value e (slice 84 4 bs))\<rparr>"

type_synonym event = "lp2p_event \<times> bytes"

partial_function (option) read_loop ::
  "endian \<Rightarrow> bytes \<Rightarrow> nat \<Rightarrow> nat \<Rightarrow> event list \<Rightarrow> (unit + event list) option" where
  "read_loop e buf n offset events =
     (if offset + LP2P_EVENT_HEADER_BYTES \<le> n then
        let header = read_header e (drop offset buf);
            start = offset + LP2P_EVENT_HEADER_BYTES;
            stop = start + unat (ev_data_len header)
        in if stop > length buf then Some (Inl ())
           else read_loop e buf n (offset + unat (ev_size header))
                  (events @ [(header, slice start (unat (ev_data_len header)) buf)])
      else Some (Inr events))"

definition read_events :: "endian \<Rightarrow> bytes \<Rightarrow> int \<Rightarrow> (unit + event list) option" where
  "read_events e buf n = (if n > 0 then read_loop e buf (nat n) 0 [] else Some (Inr []))"

section \<open>Reading back what was written\<close>

text \<open>An event as the caller sees it, and its record.\<close>

definition event_record :: "endian \<Rightarrow> event \<Rightarrow> bytes" where
  "event_record e ev = event_data e (fst ev) (snd ev)"

definition event_seen :: "event \<Rightarrow> event" where
  "event_seen ev = (event_header (fst ev) (snd ev), snd ev)"

definition event_ok :: "event \<Rightarrow> bool" where
  "event_ok ev \<longleftrightarrow> event_wf (fst ev) \<and> length (snd ev) + 96 < 2 ^ 32"

lemma read_header_bytes:
  assumes "event_wf h"
  shows "read_header e (header_bytes e h @ rest) = h"
  using assms
  by (cases h) (simp add: read_header_def header_bytes_def event_wf_def layout_simps)

lemma read_header_record:
  "event_ok ev \<Longrightarrow> read_header e (event_record e ev @ rest) = fst (event_seen ev)"
  by (simp add: event_record_def event_ok_def event_data_eq event_seen_def read_header_bytes)

lemma unat_u32_small: "n < 2 ^ 32 \<Longrightarrow> unat (word_of_nat n :: u32) = n"
  by (simp add: unat_of_nat take_bit_eq_mod)

lemma length_event_record: "event_ok ev \<Longrightarrow> length (event_record e ev) = padded_size (length (snd ev))"
  by (simp add: event_record_def event_ok_def)

lemma event_seen_sizes:
  assumes "event_ok ev"
  shows "unat (ev_size (fst (event_seen ev))) = length (event_record e ev)"
    and "unat (ev_data_len (fst (event_seen ev))) = length (snd ev)"
    and "88 + length (snd ev) \<le> length (event_record e ev)"
  using assms padded_size_bounds [of "length (snd ev)"]
  by (simp_all add: length_event_record event_seen_def event_header_def event_ok_def unat_u32_small)

lemma event_record_data:
  "event_ok ev \<Longrightarrow> slice 88 (length (snd ev)) (event_record e ev @ rest) = snd ev"
  by (simp add: event_record_def event_ok_def event_data_eq slice_def)

lemma read_loop_records:
  assumes "\<forall>ev \<in> set evs. event_ok ev"
  shows "read_loop e (front @ concat (map (event_record e) evs) @ rest)
           (length front + length (concat (map (event_record e) evs))) (length front) acc =
         Some (Inr (acc @ map event_seen evs))"
  using assms
proof (induction evs arbitrary: front acc)
  case Nil
  show ?case by (subst read_loop.simps) (simp add: LP2P_EVENT_HEADER_BYTES_def)
next
  case (Cons ev evs)
  let ?r = "event_record e ev"
  let ?all = "concat (map (event_record e) evs)"
  have ok: "event_ok ev" using Cons.prems by simp
  note sizes = event_seen_sizes(1,3) [OF ok, of e] event_seen_sizes(2) [OF ok]
  have "read_loop e (front @ (?r @ ?all) @ rest) (length front + length (?r @ ?all)) (length front) acc =
      read_loop e (front @ (?r @ ?all) @ rest) (length front + length (?r @ ?all))
        (length front + length ?r) (acc @ [event_seen ev])"
    using sizes event_record_data [OF ok, of e "?all @ rest"]
    by (subst read_loop.simps)
      (simp add: LP2P_EVENT_HEADER_BYTES_def read_header_record [OF ok] slice_def add.commute
        event_seen_def)
  also have "\<dots> = Some (Inr ((acc @ [event_seen ev]) @ map event_seen evs))"
    using Cons.IH [of "front @ ?r" "acc @ [event_seen ev]"] Cons.prems by (simp add: add.assoc)
  finally show ?case by simp
qed

lemma total_concat: "total rs = length (concat rs)"
  by (simp add: length_concat)

text \<open>The notice of dropped events, which the queue makes up when it is polled.\<close>

definition overflow_events :: "event_queue \<Rightarrow> event list" where
  "overflow_events q = (if q_dropped q > 0 then [((event_new LP2P_EV_OVERFLOW)\<lparr>ev_id := q_dropped q\<rparr>, [])] else [])"

lemma overflow_part_eq: "overflow_part e q = map (event_record e) (overflow_events q)"
  by (simp add: overflow_events_def overflow_part_def event_record_def overflow_record_def event_build_def)

lemma event_wf_overflow: "ev \<in> set (overflow_events q) \<Longrightarrow> event_wf (fst ev)"
  by (auto simp: overflow_events_def event_wf_def event_new_def split: if_splits)

lemma copied_event_ok:
  assumes "ev \<in> set evs" and "length (concat (map (event_record e) evs)) < 2 ^ 31" and "event_wf (fst ev)"
  shows "event_ok ev"
proof -
  have "length (event_record e ev) \<le> length (concat (map (event_record e) evs))"
    using member_le_sum_list [of "length (event_record e ev)" "map length (map (event_record e) evs)"] assms(1)
    by (simp add: length_concat)
  with assms(2,3) padded_size_bounds(1) [of "length (snd ev)"] show ?thesis
    by (simp add: event_ok_def event_record_def)
qed

text \<open>
  A caller that walks the polled bytes as the examples do gets back exactly the events: the overflow notice with the number of
  drops if there were any, then the events the node emitted, in order, each with its header fields and data unchanged; the loop
  ends and never panics. A record that was copied fits the buffer, so its size field did not wrap.
\<close>

lemma polled_events_read_back:
  assumes "queue_wf q" and "q_records q = map (event_record e) evs" and "\<forall>ev \<in> set evs. event_wf (fst ev)"
    and "length buf < 2 ^ 31" and "\<not> too_small (length buf) q"
    and "\<forall>status. q_closed q = Some status \<longrightarrow> status < 0"
    and "poll_locked e buf q = (n, buf', q')" and "n > 0"
  shows "\<exists>k. delivered e (length buf) q = map (event_record e) (take k evs) \<and>
    q_records q' = map (event_record e) (drop k evs) \<and>
    read_events e buf' n = Some (Inr (map event_seen (overflow_events q @ take k evs)))"
proof -
  define k where "k = length (delivered e (length buf) q)"
  let ?all = "overflow_events q @ take k evs"
  obtain out rest where fit: "fit (length buf - total (overflow_part e q)) (q_records q) = (out, rest)"
    by fastforce
  have app: "q_records q = out @ rest" and dout: "delivered e (length buf) q = out"
    using fit_append [OF fit] fit by (simp_all add: delivered_def)
  have "k = length out" and "map (event_record e) evs = out @ rest"
    using app assms(2) by (simp_all add: k_def dout)
  then have "take k (map (event_record e) evs) = out" and "drop k (map (event_record e) evs) = rest"
    by simp_all
  then have out: "out = map (event_record e) (take k evs)" and rest: "rest = map (event_record e) (drop k evs)"
    by (simp_all add: take_map drop_map)
  have all: "overflow_part e q @ out = map (event_record e) ?all"
    by (simp add: overflow_part_eq out)
  let ?T = "length (concat (map (event_record e) ?all))"
  have T: "total (overflow_part e q @ out) = ?T" by (simp only: all length_concat)
  have room: "?T \<le> length buf"
    using delivered_room [OF assms(5), of e] T by (simp add: dout)
  have ok: "\<forall>ev \<in> set ?all. event_ok ev"
    using assms(3,4) room by (intro ballI copied_event_ok [of _ ?all e]) (auto dest: in_set_takeD event_wf_overflow)
  have n: "n = int ?T" and take: "take ?T buf' = concat (map (event_record e) ?all)"
    and q': "q_records q' = rest"
    using poll_copies [OF assms(1,5) fit] assms(4,6,7,8) T room
    by (auto simp: all as_i32_small split: option.splits if_splits)
  have "concat (map (event_record e) ?all) @ drop ?T buf' = buf'"
    by (metis append_take_drop_id take)
  then have "read_loop e buf' ?T 0 [] = Some (Inr (map event_seen ?all))"
    using read_loop_records [OF ok, of e "[]" "drop ?T buf'" "[]"] by simp
  then have "read_events e buf' n = Some (Inr (map event_seen ?all))"
    using assms(8) n by (simp only: read_events_def nat_int if_True)
  then show ?thesis using q' rest out dout by auto
qed

end
