(* ===== verification/Net.thy ===== *)
theory Net
  imports Addresses Delegation Wire Reader
begin

text \<open>
  The data of \<open>src/node.rs\<close>: configuration, commands, the state shared with the caller's threads, a
  call in progress, the node's own state, and the interface to libp2p. libp2p itself is not part of
  the repository: its swarm is an arbitrary value \<open>'sw\<close>, and what the node asks of it are the
  functions of the record \<open>net\<close>, an argument of every handler. The clocks are read from the same
  value, so they may move whenever libp2p does something.
\<close>

section \<open>Constants\<close>

definition PROVIDE_DEBOUNCE :: duration where "PROVIDE_DEBOUNCE = from_secs 2"
definition TICK :: duration where "TICK = from_millis 250"
definition LISTEN_READY_TIMEOUT :: duration where "LISTEN_READY_TIMEOUT = from_secs 2"
definition FAILURE_PENALTY :: duration where "FAILURE_PENALTY = from_secs (5 * 60)"
definition MAX_REMEMBERED :: nat where "MAX_REMEMBERED = 4096"
definition MAX_RESERVATIONS :: nat where "MAX_RESERVATIONS = 2"
definition RELAY_RETRY :: duration where "RELAY_RETRY = from_secs 60"
definition MAX_RELAY_CANDIDATES :: nat where "MAX_RELAY_CANDIDATES = 64"
definition ANNOUNCE_INTERVAL :: duration where "ANNOUNCE_INTERVAL = from_secs 10"
definition ANNOUNCE_BURST :: u32 where "ANNOUNCE_BURST = 3"
definition TOPIC_LOOKUP_INTERVAL :: duration where "TOPIC_LOOKUP_INTERVAL = from_secs 30"
definition TOPIC_DIALS :: nat where "TOPIC_DIALS = 6"
definition GOSSIPSUB_OVERHEAD :: nat where "GOSSIPSUB_OVERHEAD = 1024"

section \<open>Configuration and commands\<close>

record announce_config =
  ac_topic :: bytes
  ac_max_payload_bytes :: nat

datatype reachability = Public | Private | Unknown

record token_bucket_config =
  tb_burst :: u32
  tb_interval :: duration

record relay_config =
  rc_server :: bool
  rc_client :: bool
  rc_max_reservations :: nat
  rc_max_reservations_per_peer :: nat
  rc_reservation_duration :: duration
  rc_max_circuits :: nat
  rc_max_circuits_per_peer :: nat
  rc_max_circuit_duration :: duration
  rc_max_circuit_bytes :: u64
  rc_circuits_per_peer :: "token_bucket_config option"
  rc_circuits_per_ip :: "token_bucket_config option"

record config =
  c_node_seed :: bytes
  c_delegation :: delegation
  c_listen :: "multiaddr list"
  c_dht_protocol :: bytes
  c_rpc_protocols :: "bytes list"
  c_rpc_max_request_bytes :: u32
  c_rpc_max_response_bytes :: u32
  c_rpc_timeout :: duration
  c_quic :: bool
  c_dcutr :: bool
  c_autonat :: bool
  c_reachability :: reachability
  c_relay :: relay_config
  c_max_connections :: "u32 option"
  c_max_connections_per_peer :: "u32 option"
  c_max_pending_incoming :: "u32 option"
  c_announce :: "announce_config option"
  c_event_queue_bytes :: nat
  c_topic_max_message_bytes :: nat
  c_topic_max_subscriptions :: nat

text \<open>Identifiers libp2p hands out, and the response channels it lends.\<close>

type_synonym query_id = nat
type_synonym request_id = nat
type_synonym listener_id = nat
type_synonym connection_id = nat
type_synonym channel = nat
type_synonym topic = bytes

datatype command =
    Rpc u64 lp2p_key "lp2p_key option" u16 bytes duration
  | Respond u64 bytes
  | Reject u64
  | AddAddress lp2p_key multiaddr
  | Bootstrap u64
  | RandomWalk u64
  | SetClass lp2p_key u8
  | AnnounceSetPayload bytes
  | SetLimit u8 u8 u16 limit_unit lp2p_rate
  | TopicSubscribe lp2p_key
  | TopicUnsubscribe lp2p_key
  | TopicPublish lp2p_key bytes
  | TopicPeers lp2p_key
  | Provide lp2p_key bool
  | FindProviders u64 lp2p_key
  | RoutingSample nat
  | Shutdown

section \<open>State\<close>

record shared =
  sh_events :: event_queue
  sh_next_id :: u64
  sh_connections :: u32
  sh_routing_table_peers :: u32
  sh_rpc_in :: u64
  sh_rpc_out :: u64
  sh_rpc_limited :: u64
  sh_topics_subscribed :: u32
  sh_topic_in :: u64
  sh_topic_out :: u64
  sh_topic_bytes_in :: u64
  sh_topic_bytes_out :: u64
  sh_topic_limited :: u64
  sh_poisoned :: bool

record call =
  call_group :: lp2p_key
  call_protocol :: u16
  call_frame :: bytes
  candidates :: "peer_id list"
  seen_peers :: "peer_id set"
  resolved :: "peer_id set"
  in_flight :: bool
  resolving :: bool
  lookup_running :: bool
  call_deadline :: instant
  last_failure :: u16

record topic_state =
  ts_topic :: topic
  ts_last_lookup :: "instant option"

record state =
  shared :: shared
  local_peer :: peer_id
  s_group :: lp2p_key
  s_delegation :: bytes
  s_dht_protocol :: bytes
  s_rpc_protocols :: "bytes list"
  calls :: "(u64, call) hashmap"
  outbound :: "(request_id, u64) hashmap"
  inbound :: "(u64, channel) hashmap"
  inbound_ids :: "(request_id, u64) hashmap"
  provider_lookups :: "(query_id, u64) hashmap"
  resolutions :: "(query_id, u64) hashmap"
  bootstraps :: "(query_id, u64) hashmap"
  walks :: "(query_id, u64) hashmap"
  provide_due :: bool
  last_provide :: "instant option"
  sample_offset :: nat
  last_success :: "(lp2p_key, peer_id) hashmap"
  failed :: "(peer_id, instant) hashmap"
  configured :: reachability
  s_reachability :: reachability
  listening :: "multiaddr list"
  listens_on_wildcard :: bool
  relay_client :: bool
  relay_candidates :: "(peer_id, multiaddr) hashmap"
  reservations :: "(peer_id, listener_id) hashmap"
  relay_failed :: "(peer_id, instant) hashmap"
  dialed :: "(peer_id, multiaddr) hashmap"
  s_connections :: "(connection_id, multiaddr) hashmap"
  s_limits :: limits
  last_sweep :: instant
  announce_topic :: "topic option"
  announce_payload :: "bytes option"
  announce_published :: "bytes option"
  announce_rate :: source_rate
  topics :: "(lp2p_key, topic_state) hashmap"
  topic_keys :: "(topic, lp2p_key) hashmap"
  topic_lookups :: "(query_id, lp2p_key) hashmap"
  topic_max_message_bytes :: nat
  topic_max_subscriptions :: nat
  provider_queries :: "(query_id, u64) hashmap"
  peer_ips :: "(peer_id, ip_addr) hashmap"

section \<open>What the node asks of libp2p\<close>

datatype publish_result =
  Published | Duplicate | NoPeersSubscribedToTopic | AllQueuesFull | OtherPublishError

datatype message_acceptance = Accept | Ignore | RejectMessage

text \<open>Requests without an answer the node looks at.\<close>

datatype net_action =
    StartProviding bytes
  | StopProviding bytes
  | KadAddAddress peer_id multiaddr
  | SendResponse channel bytes
  | Unsubscribe topic
  | ReportValidation bytes peer_id message_acceptance
  | AddExternalAddress multiaddr
  | RemoveExternalAddress multiaddr
  | RemoveListener listener_id
  | IdentifyPush "peer_id list"

record 'sw net =
  n_crypto :: crypto
  n_endian :: endian
  multiaddr_to_string :: "multiaddr \<Rightarrow> bytes"
  hop_protocol :: bytes
  instant_now :: "'sw \<Rightarrow> instant"
  now_ms :: "'sw \<Rightarrow> u64"
  is_connected :: "peer_id \<Rightarrow> 'sw \<Rightarrow> bool"
  connected_peers :: "'sw \<Rightarrow> peer_id list"
  num_peers :: "'sw \<Rightarrow> nat"
  external_addresses :: "'sw \<Rightarrow> multiaddr list"
  kbuckets :: "'sw \<Rightarrow> (peer_id \<times> multiaddr list) list list"
  mesh_peers :: "topic \<Rightarrow> 'sw \<Rightarrow> peer_id list"
  random_peer :: "'sw \<Rightarrow> peer_id"
  get_providers :: "bytes \<Rightarrow> 'sw \<Rightarrow> query_id \<times> 'sw"
  get_closest_peers :: "peer_id \<Rightarrow> 'sw \<Rightarrow> query_id \<times> 'sw"
  kad_bootstrap :: "'sw \<Rightarrow> query_id option \<times> 'sw"
  send_request :: "peer_id \<Rightarrow> bytes \<Rightarrow> 'sw \<Rightarrow> request_id \<times> 'sw"
  listen_on :: "multiaddr \<Rightarrow> 'sw \<Rightarrow> listener_id option \<times> 'sw"
  subscribe :: "topic \<Rightarrow> 'sw \<Rightarrow> bool \<times> 'sw"
  publish :: "topic \<Rightarrow> bytes \<Rightarrow> 'sw \<Rightarrow> publish_result \<times> 'sw"
  dial :: "peer_id \<Rightarrow> 'sw \<Rightarrow> bool \<times> 'sw"
  act :: "net_action \<Rightarrow> 'sw \<Rightarrow> 'sw"

text \<open>
  The swarm, the address book inside its behaviour, and the node's state. \<open>w_emitted\<close> is a history
  variable: every event handed to the queue so far, whether the queue took it or counted it as dropped.
\<close>

record 'sw world =
  w_net :: 'sw
  w_book :: address_book
  w_state :: state
  w_emitted :: "event list"

definition emit :: "'sw net \<Rightarrow> lp2p_event \<Rightarrow> bytes \<Rightarrow> 'sw world \<Rightarrow> 'sw world" where
  "emit n h d w = w\<lparr>
     w_state := shared_update (sh_events_update (push (event_data (n_endian n) h d))) (w_state w),
     w_emitted := w_emitted w @ [(h, d)]\<rparr>"

definition do_act :: "'sw net \<Rightarrow> net_action \<Rightarrow> 'sw world \<Rightarrow> 'sw world" where
  "do_act n a w = w\<lparr>w_net := act n a (w_net w)\<rparr>"

definition peer_key :: "'sw net \<Rightarrow> peer_id \<Rightarrow> lp2p_key" where
  "peer_key n peer = (case key_of (n_crypto n) peer of Some k \<Rightarrow> k | None \<Rightarrow> replicate 32 0)"

definition state_new :: "config \<Rightarrow> peer_id \<Rightarrow> instant \<Rightarrow> shared \<Rightarrow> state" where
  "state_new config peer now sh = \<lparr>
     shared = sh,
     local_peer = peer,
     s_group = d_group (c_delegation config),
     s_delegation = to_bytes (c_delegation config),
     s_dht_protocol = c_dht_protocol config,
     s_rpc_protocols = c_rpc_protocols config,
     calls = [],
     outbound = [],
     inbound = [],
     inbound_ids = [],
     provider_lookups = [],
     resolutions = [],
     bootstraps = [],
     walks = [],
     provide_due = False,
     last_provide = None,
     sample_offset = 0,
     last_success = [],
     failed = [],
     configured = c_reachability config,
     s_reachability = c_reachability config,
     listening = [],
     listens_on_wildcard = list_ex is_unspecified (c_listen config),
     relay_client = rc_client (c_relay config),
     relay_candidates = [],
     reservations = [],
     relay_failed = [],
     dialed = [],
     s_connections = [],
     s_limits = limits_default,
     last_sweep = now,
     announce_topic = map_option ac_topic (c_announce config),
     announce_payload = None,
     announce_published = None,
     announce_rate = source_rate_new ANNOUNCE_INTERVAL ANNOUNCE_BURST,
     topics = [],
     topic_keys = [],
     topic_lookups = [],
     topic_max_message_bytes = c_topic_max_message_bytes config,
     topic_max_subscriptions = c_topic_max_subscriptions config,
     provider_queries = [],
     peer_ips = []\<rparr>"

text \<open>
  The chain of checks behind every message from the network: the sender's key, the delegation, its
  signature and expiry, and that it names the sender. The result is the sender's key and its group.
\<close>

definition checked_sender :: "'sw net \<Rightarrow> peer_id \<Rightarrow> bytes \<Rightarrow> u64 \<Rightarrow> (lp2p_key \<times> lp2p_key) option" where
  "checked_sender n peer deleg ms =
     (case key_of (n_crypto n) peer of
        None \<Rightarrow> None
      | Some node \<Rightarrow>
          (case parse deleg of
             Inl _ \<Rightarrow> None
           | Inr d \<Rightarrow>
               (case verify_for (n_crypto n) d node ms of
                  Inl _ \<Rightarrow> None
                | Inr _ \<Rightarrow> Some (node, d_group d))))"

lemma checked_sender_iff:
  "checked_sender n peer deleg ms = Some (node, grp) \<longleftrightarrow>
     key_of (n_crypto n) peer = Some node \<and>
     (\<exists>d. parse deleg = Inr d \<and> verify_for (n_crypto n) d node ms = Inr () \<and> d_group d = grp)"
  by (auto simp: checked_sender_def split: option.splits sum.splits)

section \<open>Facts on emitting\<close>

lemma emit_simps [simp]:
  "w_net (emit n h d w) = w_net w" "w_book (emit n h d w) = w_book w"
  "w_emitted (emit n h d w) = w_emitted w @ [(h, d)]"
  "w_state (emit n h d w) =
     shared_update (sh_events_update (push (event_data (n_endian n) h d))) (w_state w)"
  by (simp_all add: emit_def)

lemma do_act_simps [simp]:
  "w_net (do_act n a w) = act n a (w_net w)" "w_book (do_act n a w) = w_book w"
  "w_emitted (do_act n a w) = w_emitted w" "w_state (do_act n a w) = w_state w"
  by (simp_all add: do_act_def)

end
