(* ===== verification/Calls.thy ===== *)
theory Calls
  imports Net
begin

text \<open>
  Outgoing calls in \<open>src/node.rs\<close>: the candidate queue of a call (\<open>enqueue\<close>), the attempt loop
  (\<open>advance\<close>), responses and failures. \<open>calls_ok\<close> is the invariant that ties every live call to what
  it waits for: a request in flight, an address lookup or a provider lookup.
\<close>

section \<open>Candidates\<close>

definition penalized :: "instant \<Rightarrow> (peer_id, instant) hashmap \<Rightarrow> peer_id \<Rightarrow> bool" where
  "penalized now failed_at p =
     (case hm_get failed_at p of Some t \<Rightarrow> duration_since now t < FAILURE_PENALTY | None \<Rightarrow> False)"

text \<open>\<open>VecDeque::insert\<close> before the first element that satisfies \<open>P\<close>, or at the end.\<close>

definition insert_before :: "('a \<Rightarrow> bool) \<Rightarrow> 'a \<Rightarrow> 'a list \<Rightarrow> 'a list" where
  "insert_before P x xs = takeWhile (\<lambda>y. \<not> P y) xs @ x # dropWhile (\<lambda>y. \<not> P y) xs"

definition enqueue ::
  "instant \<Rightarrow> (lp2p_key, peer_id) hashmap \<Rightarrow> (peer_id, instant) hashmap \<Rightarrow> peer_id \<Rightarrow> call \<Rightarrow> call" where
  "enqueue now last_ok failed_at peer c =
     (if peer \<in> seen_peers c then c
      else
        let c = c\<lparr>seen_peers := insert peer (seen_peers c)\<rparr>
        in if hm_get last_ok (call_group c) = Some peer \<and> \<not> penalized now failed_at peer
           then c\<lparr>candidates := peer # candidates c\<rparr>
           else if penalized now failed_at peer
           then c\<lparr>candidates := candidates c @ [peer]\<rparr>
           else c\<lparr>candidates := insert_before (penalized now failed_at) peer (candidates c)\<rparr>)"

section \<open>Attempts\<close>

definition put_call :: "u64 \<Rightarrow> call \<Rightarrow> 'sw world \<Rightarrow> 'sw world" where
  "put_call cid c w = w_state_update (calls_update (hm_insert cid c)) w"

text \<open>The loop of \<open>advance\<close>; the flag says that it returned from inside.\<close>

fun advance_loop :: "'sw net \<Rightarrow> u64 \<Rightarrow> peer_id list \<Rightarrow> call \<Rightarrow> 'sw world \<Rightarrow> bool \<times> 'sw world" where
  "advance_loop n cid [] c w = (False, put_call cid (c\<lparr>candidates := []\<rparr>) w)"
| "advance_loop n cid (peer # rest) c w =
     (if \<not> (is_connected n peer (w_net w) \<or> knows (w_book w) peer)
      then if peer \<notin> resolved c
           then case get_closest_peers n peer (w_net w) of (query, x) \<Rightarrow>
             (True, put_call cid (c\<lparr>resolved := insert peer (resolved c), candidates := peer # rest,
                        resolving := True\<rparr>)
                (w_state_update (resolutions_update (hm_insert query cid)) (w\<lparr>w_net := x\<rparr>)))
           else advance_loop n cid rest c w
      else case send_request n peer (call_frame c) (w_net w) of (request, x) \<Rightarrow>
        (True, put_call cid (c\<lparr>candidates := rest, in_flight := True\<rparr>)
           (w_state_update (outbound_update (hm_insert request cid) \<circ>
              shared_update (sh_rpc_out_update (\<lambda>k. k + 1))) (w\<lparr>w_net := x\<rparr>))))"

definition rpc_failed :: "u64 \<Rightarrow> call \<Rightarrow> u16 \<Rightarrow> lp2p_event" where
  "rpc_failed cid c reason = (event_new LP2P_EV_RPC_FAILED)\<lparr>ev_id := cid, ev_group := call_group c,
     ev_protocol := call_protocol c, ev_reason := reason\<rparr>"

definition drop_call :: "u64 \<Rightarrow> 'sw world \<Rightarrow> 'sw world" where
  "drop_call cid w = w_state_update (calls_update (hm_remove cid)) w"

definition advance :: "'sw net \<Rightarrow> u64 \<Rightarrow> 'sw world \<Rightarrow> 'sw world" where
  "advance n cid w =
     (case hm_get (calls (w_state w)) cid of
        None \<Rightarrow> w
      | Some c \<Rightarrow>
          if in_flight c \<or> resolving c then w
          else case advance_loop n cid (candidates c) c w of
              (True, w) \<Rightarrow> w
            | (False, w) \<Rightarrow>
                if lookup_running c then w
                else emit n (rpc_failed cid c (last_failure c)) [] (drop_call cid w))"

section \<open>Starting a call\<close>

definition call_new :: "'sw net \<Rightarrow> lp2p_key \<Rightarrow> u16 \<Rightarrow> bytes \<Rightarrow> duration \<Rightarrow> 'sw world \<Rightarrow> call" where
  "call_new n grp protocol payload timeout w = \<lparr>
     call_group = grp,
     call_protocol = protocol,
     call_frame = encode_request (s_delegation (w_state w)) (s_rpc_protocols (w_state w) ! unat protocol) payload,
     candidates = [],
     seen_peers = {},
     resolved = {},
     in_flight = False,
     resolving = False,
     lookup_running = False,
     call_deadline = instant_now n (w_net w) + timeout,
     last_failure = LP2P_FAIL_UNREACHABLE\<rparr>"

text \<open>\<open>Command::Rpc\<close>; \<open>None\<close> is the panic of an index past the configured protocols.\<close>

definition start_call ::
  "'sw net \<Rightarrow> u64 \<Rightarrow> lp2p_key \<Rightarrow> lp2p_key option \<Rightarrow> u16 \<Rightarrow> bytes \<Rightarrow> duration \<Rightarrow> 'sw world \<Rightarrow> 'sw world option" where
  "start_call n cid grp node protocol payload timeout w =
     (if unat protocol \<ge> length (s_rpc_protocols (w_state w)) then None
      else
        let c = call_new n grp protocol payload timeout w
        in Some (case node of
             Some key \<Rightarrow>
               (case peer_id (n_crypto n) key of
                  Some peer \<Rightarrow>
                    advance n cid (put_call cid (c\<lparr>seen_peers := {peer}, candidates := [peer]\<rparr>) w)
                | None \<Rightarrow> advance n cid (put_call cid c w))
           | None \<Rightarrow>
               (case get_providers n (provider_key (n_crypto n) grp) (w_net w) of (query, x) \<Rightarrow>
                  advance n cid (put_call cid (c\<lparr>lookup_running := True\<rparr>)
                    (w_state_update (provider_lookups_update (hm_insert query cid)) (w\<lparr>w_net := x\<rparr>))))))"

section \<open>Responses and failures\<close>

definition remember_failure :: "'sw net \<Rightarrow> peer_id \<Rightarrow> 'sw world \<Rightarrow> 'sw world" where
  "remember_failure n peer w =
     (let now = instant_now n (w_net w);
          f = failed (w_state w);
          f = (if hm_len f \<ge> MAX_REMEMBERED
               then let f = hm_retain (\<lambda>_ t. duration_since now t < FAILURE_PENALTY) f
                    in if hm_len f \<ge> MAX_REMEMBERED then [] else f
               else f)
      in w_state_update (failed_update (\<lambda>_. hm_insert peer now f)) w)"

definition response_ok :: "'sw net \<Rightarrow> peer_id \<Rightarrow> lp2p_key \<Rightarrow> bytes \<Rightarrow> u64 \<Rightarrow> (lp2p_key \<times> bytes) option" where
  "response_ok n peer grp frame ms =
     (case decode_response frame of
        None \<Rightarrow> None
      | Some r \<Rightarrow>
          (case checked_sender n peer (rs_delegation r) ms of
             None \<Rightarrow> None
           | Some (node, g) \<Rightarrow> if g = grp then Some (node, rs_payload r) else None))"

definition rpc_response :: "u64 \<Rightarrow> call \<Rightarrow> lp2p_key \<Rightarrow> lp2p_event" where
  "rpc_response cid c node = (event_new LP2P_EV_RPC_RESPONSE)\<lparr>ev_id := cid, ev_group := call_group c,
     ev_node := node, ev_protocol := call_protocol c\<rparr>"

definition response :: "'sw net \<Rightarrow> peer_id \<Rightarrow> request_id \<Rightarrow> bytes \<Rightarrow> 'sw world \<Rightarrow> 'sw world" where
  "response n peer request frame w =
     (case hm_get (outbound (w_state w)) request of
        None \<Rightarrow> w
      | Some cid \<Rightarrow>
          let w = w_state_update (outbound_update (hm_remove request)) w
          in case hm_get (calls (w_state w)) cid of
               None \<Rightarrow> w
             | Some c \<Rightarrow>
                 let c = c\<lparr>in_flight := False\<rparr>
                 in case response_ok n peer (call_group c) frame (now_ms n (w_net w)) of
                      Some (node, payload) \<Rightarrow>
                        emit n (rpc_response cid c node) payload
                          (w_state_update
                            (last_success_update (\<lambda>m.
                               hm_insert (call_group c) peer (if hm_len m \<ge> MAX_REMEMBERED then [] else m)) \<circ>
                             failed_update (hm_remove peer) \<circ>
                             calls_update (hm_remove cid)) w)
                    | None \<Rightarrow>
                        advance n cid (remember_failure n peer
                          (put_call cid (c\<lparr>last_failure := LP2P_FAIL_REFUSED\<rparr>) w)))"

datatype outbound_failure = FailTimeout | FailUnsupportedProtocols | FailOther

definition failure_code :: "outbound_failure \<Rightarrow> u16" where
  "failure_code e = (case e of
     FailTimeout \<Rightarrow> LP2P_FAIL_TIMEOUT
   | FailUnsupportedProtocols \<Rightarrow> LP2P_FAIL_REFUSED
   | FailOther \<Rightarrow> LP2P_FAIL_UNREACHABLE)"

definition outbound_failed :: "'sw net \<Rightarrow> peer_id \<Rightarrow> request_id \<Rightarrow> outbound_failure \<Rightarrow> 'sw world \<Rightarrow> 'sw world" where
  "outbound_failed n peer request err w =
     (let w = remember_failure n peer w
      in case hm_get (outbound (w_state w)) request of
           None \<Rightarrow> w
         | Some cid \<Rightarrow>
             let w = w_state_update (outbound_update (hm_remove request)) w;
                 w = (case hm_get (calls (w_state w)) cid of
                        None \<Rightarrow> w
                      | Some c \<Rightarrow> put_call cid (c\<lparr>in_flight := False, last_failure := failure_code err\<rparr>) w)
             in advance n cid w)"

section \<open>Provider and address lookups of a call\<close>

datatype get_providers_result = FoundProviders "peer_id list" | NoProviders

definition call_providers :: "'sw net \<Rightarrow> query_id \<Rightarrow> get_providers_result \<Rightarrow> bool \<Rightarrow> 'sw world \<Rightarrow> 'sw world" where
  "call_providers n query result is_last w =
     (case hm_get (provider_lookups (w_state w)) query of
        None \<Rightarrow> w
      | Some cid \<Rightarrow>
          let s = w_state w;
              now = instant_now n (w_net w);
              w = (case hm_get (calls s) cid of
                     None \<Rightarrow> w
                   | Some c \<Rightarrow>
                       let c = (case result of
                              FoundProviders providers \<Rightarrow>
                                fold (enqueue now (last_success s) (failed s))
                                  (filter (\<lambda>p. p \<noteq> local_peer s) providers) c
                            | NoProviders \<Rightarrow> c);
                           c = (if is_last then c\<lparr>lookup_running := False\<rparr> else c)
                       in put_call cid c w);
              w = (if is_last then w_state_update (provider_lookups_update (hm_remove query)) w else w)
          in advance n cid w)"

definition resolution_done :: "'sw net \<Rightarrow> u64 \<Rightarrow> 'sw world \<Rightarrow> 'sw world" where
  "resolution_done n cid w =
     advance n cid
       (case hm_get (calls (w_state w)) cid of
          None \<Rightarrow> w
        | Some c \<Rightarrow> put_call cid (c\<lparr>resolving := False\<rparr>) w)"

section \<open>Expiry\<close>

definition expire_one :: "'sw net \<Rightarrow> u64 \<Rightarrow> 'sw world \<Rightarrow> 'sw world" where
  "expire_one n cid w =
     (case hm_get (calls (w_state w)) cid of
        None \<Rightarrow> w
      | Some c \<Rightarrow> emit n (rpc_failed cid c LP2P_FAIL_TIMEOUT) [] (drop_call cid w))"

definition expire_calls :: "'sw net \<Rightarrow> instant \<Rightarrow> 'sw world \<Rightarrow> 'sw world" where
  "expire_calls n now w =
     fold (expire_one n) (map fst (filter (\<lambda>(_, c). call_deadline c \<le> now) (calls (w_state w)))) w"

section \<open>The order of candidates\<close>

text \<open>
  What the queue of a call should be once providers were reported: the group's last good node if it
  is not penalized, then the other nodes in the order of their first report, then the penalized ones.
\<close>

definition first_reports :: "'a list \<Rightarrow> 'a list" where
  "first_reports xs = rev (remdups (rev xs))"

definition candidate_order ::
  "instant \<Rightarrow> peer_id option \<Rightarrow> (peer_id, instant) hashmap \<Rightarrow> peer_id list \<Rightarrow> peer_id list" where
  "candidate_order now good failed_at ps =
     filter (\<lambda>p. good = Some p \<and> \<not> penalized now failed_at p) ps @
     filter (\<lambda>p. good \<noteq> Some p \<and> \<not> penalized now failed_at p) ps @
     filter (penalized now failed_at) ps"

lemma first_reports_snoc:
  "first_reports (xs @ [x]) = (if x \<in> set xs then first_reports xs else first_reports xs @ [x])"
  by (simp add: first_reports_def)

lemma set_first_reports [simp]: "set (first_reports xs) = set xs"
  by (simp add: first_reports_def)

lemma distinct_first_reports [simp]: "distinct (first_reports xs)"
  by (simp add: first_reports_def)

lemma set_insert_before [simp]: "set (insert_before P x xs) = insert x (set xs)"
  using set_append [of "takeWhile (\<lambda>y. \<not> P y) xs" "dropWhile (\<lambda>y. \<not> P y) xs"]
  by (simp add: insert_before_def)

lemma distinct_insert_before: "x \<notin> set xs \<Longrightarrow> distinct xs \<Longrightarrow> distinct (insert_before P x xs)"
  using takeWhile_dropWhile_id [of "\<lambda>y. \<not> P y" xs] distinct_append
    [of "takeWhile (\<lambda>y. \<not> P y) xs" "dropWhile (\<lambda>y. \<not> P y) xs"]
  by (auto simp: insert_before_def dest: set_takeWhileD set_dropWhileD)

lemma insert_before_split:
  assumes "\<forall>y \<in> set xs. \<not> P y" and "\<forall>y \<in> set ys. P y"
  shows "insert_before P x (xs @ ys) = xs @ x # ys"
proof -
  have "takeWhile (\<lambda>y. \<not> P y) (xs @ ys) = xs @ takeWhile (\<lambda>y. \<not> P y) ys"
    using assms(1) by (simp add: takeWhile_append2)
  moreover have "dropWhile (\<lambda>y. \<not> P y) (xs @ ys) = dropWhile (\<lambda>y. \<not> P y) ys"
    using assms(1) by (simp add: dropWhile_append2)
  moreover have "takeWhile (\<lambda>y. \<not> P y) ys = []" "dropWhile (\<lambda>y. \<not> P y) ys = ys"
    using assms(2) by (cases ys; simp)+
  ultimately show ?thesis by (simp add: insert_before_def)
qed

lemma candidate_order_snoc:
  assumes "p \<notin> set ps"
  shows "candidate_order now good failed_at (ps @ [p]) =
    (if good = Some p \<and> \<not> penalized now failed_at p then p # candidate_order now good failed_at ps
     else if penalized now failed_at p then candidate_order now good failed_at ps @ [p]
     else insert_before (penalized now failed_at) p (candidate_order now good failed_at ps))"
proof -
  have "filter (\<lambda>q. good = Some q \<and> \<not> penalized now failed_at q) ps = []" if "good = Some p"
    using assms that by (auto simp: filter_empty_conv)
  moreover have "insert_before (penalized now failed_at) p (candidate_order now good failed_at ps) =
      (filter (\<lambda>q. good = Some q \<and> \<not> penalized now failed_at q) ps @
       filter (\<lambda>q. good \<noteq> Some q \<and> \<not> penalized now failed_at q) ps) @ p #
       filter (penalized now failed_at) ps"
    unfolding candidate_order_def append_assoc [symmetric] by (intro insert_before_split) auto
  ultimately show ?thesis by (auto simp: candidate_order_def)
qed

lemma enqueue_fields [simp]:
  "call_group (enqueue now ls f p c) = call_group c" "in_flight (enqueue now ls f p c) = in_flight c"
  "resolving (enqueue now ls f p c) = resolving c" "lookup_running (enqueue now ls f p c) = lookup_running c"
  "resolved (enqueue now ls f p c) = resolved c" "last_failure (enqueue now ls f p c) = last_failure c"
  "call_protocol (enqueue now ls f p c) = call_protocol c" "call_frame (enqueue now ls f p c) = call_frame c"
  "call_deadline (enqueue now ls f p c) = call_deadline c"
  "seen_peers (enqueue now ls f p c) = insert p (seen_peers c)"
  by (auto simp: enqueue_def Let_def)

lemma fold_enqueue_fields [simp]:
  "call_group (fold (enqueue now ls f) ps c) = call_group c"
  "in_flight (fold (enqueue now ls f) ps c) = in_flight c"
  "resolving (fold (enqueue now ls f) ps c) = resolving c"
  "lookup_running (fold (enqueue now ls f) ps c) = lookup_running c"
  "resolved (fold (enqueue now ls f) ps c) = resolved c"
  "seen_peers (fold (enqueue now ls f) ps c) = seen_peers c \<union> set ps"
  by (induction ps arbitrary: c) auto

lemma set_candidates_enqueue:
  "set (candidates (enqueue now ls f p c)) =
     (if p \<in> seen_peers c then set (candidates c) else insert p (set (candidates c)))"
  by (auto simp: enqueue_def Let_def)

lemma distinct_candidates_enqueue:
  "distinct (candidates c) \<Longrightarrow> set (candidates c) \<subseteq> seen_peers c \<Longrightarrow> distinct (candidates (enqueue now ls f p c))"
  by (auto simp: enqueue_def Let_def intro!: distinct_insert_before)

lemma candidates_fold_enqueue:
  "distinct (candidates c) \<Longrightarrow> set (candidates c) \<subseteq> seen_peers c \<Longrightarrow>
   distinct (candidates (fold (enqueue now ls f) ps c)) \<and>
   set (candidates (fold (enqueue now ls f) ps c)) \<subseteq> seen_peers c \<union> set ps"
proof (induction ps arbitrary: c)
  case (Cons p ps)
  have "distinct (candidates (enqueue now ls f p c))"
    by (rule distinct_candidates_enqueue [OF Cons.prems])
  moreover have "set (candidates (enqueue now ls f p c)) \<subseteq> seen_peers (enqueue now ls f p c)"
    using Cons.prems(2) by (auto simp: set_candidates_enqueue)
  ultimately show ?case using Cons.IH [of "enqueue now ls f p c"] by auto
qed simp

lemma enqueue_candidates:
  "p \<notin> seen_peers c \<Longrightarrow> candidates (enqueue now ls f p c) =
     (if hm_get ls (call_group c) = Some p \<and> \<not> penalized now f p then p # candidates c
      else if penalized now f p then candidates c @ [p]
      else insert_before (penalized now f) p (candidates c))"
  by (simp add: enqueue_def Let_def)

lemma enqueue_seen: "p \<in> seen_peers c \<Longrightarrow> enqueue now ls f p c = c"
  by (simp add: enqueue_def)

text \<open>
  C32: The queue of a call is in the order the comment on \<open>enqueue\<close> promises. However providers are
  reported, with or without repetition, a call that starts with an empty queue asks the group's last
  good node first unless it failed recently, then the others in the order the DHT first reported them, and
  the recently failed ones last, each once.
\<close>

theorem enqueue_order:
  assumes "candidates c = []" and "seen_peers c \<inter> set ps = {}"
  shows "candidates (fold (enqueue now ls f) ps c) =
    candidate_order now (hm_get ls (call_group c)) f (first_reports ps)"
  using assms(2)
proof (induction ps rule: rev_induct)
  case Nil
  then show ?case using assms(1) by (simp add: first_reports_def candidate_order_def)
next
  case (snoc p ps)
  let ?c = "fold (enqueue now ls f) ps c"
  have IH: "candidates ?c = candidate_order now (hm_get ls (call_group c)) f (first_reports ps)"
    using snoc by auto
  show ?case
  proof (cases "p \<in> set ps")
    case True
    then show ?thesis using IH by (simp add: first_reports_snoc enqueue_seen)
  next
    case False
    then have "p \<notin> seen_peers ?c" using snoc.prems by auto
    with False IH show ?thesis
      by (simp add: enqueue_candidates first_reports_snoc candidate_order_snoc)
  qed
qed

definition demo_call :: call where
  "demo_call = \<lparr>call_group = [1], call_protocol = 0, call_frame = [], candidates = [], seen_peers = {},
     resolved = {}, in_flight = False, resolving = False, lookup_running = True, call_deadline = 0,
     last_failure = 0\<rparr>"

theorem enqueue_order_witness:
  "candidates (fold (enqueue 10 [([1], PeerId 0 [3])] [(PeerId 0 [1], 5)])
       [PeerId 0 [1], PeerId 0 [2], PeerId 0 [3], PeerId 0 [2]] demo_call) =
     [PeerId 0 [3], PeerId 0 [2], PeerId 0 [1]]"
  using enqueue_order [of demo_call "[PeerId 0 [1], PeerId 0 [2], PeerId 0 [3], PeerId 0 [2]]" 10
      "[([1], PeerId 0 [3])]" "[(PeerId 0 [1], 5)]"]
  by (simp add: demo_call_def candidate_order_def first_reports_def penalized_def duration_since_def
      FAILURE_PENALTY_def from_secs_def)

end
