(* ===== verification/Topics.thy ===== *)
theory Topics
  imports Net
begin

text \<open>
  Topics and announcements in \<open>src/node.rs\<close>: subscribing, looking members up, publishing, and what
  happens to a gossipsub message from the network.
\<close>

section \<open>Announcing\<close>

definition announce :: "'sw net \<Rightarrow> 'sw world \<Rightarrow> 'sw world" where
  "announce n w =
     (case (announce_topic (w_state w), announce_payload (w_state w)) of
        (Some topic, Some payload) \<Rightarrow>
          if announce_published (w_state w) = Some payload then w
          else
            let frame = encode_announcement (s_delegation (w_state w)) payload
            in case publish n topic frame (w_net w) of (result, x) \<Rightarrow>
                 let w = w\<lparr>w_net := x\<rparr>
                 in if result = NoPeersSubscribedToTopic \<or> result = AllQueuesFull then w
                    else w_state_update (announce_published_update (\<lambda>_. Some payload)) w
      | _ \<Rightarrow> w)"

section \<open>Following topics\<close>

definition topic_lookup :: "'sw net \<Rightarrow> lp2p_key \<Rightarrow> 'sw world \<Rightarrow> 'sw world" where
  "topic_lookup n key w =
     (case get_providers n (provider_key (n_crypto n) key) (w_net w) of (query, x) \<Rightarrow>
        let w = w_state_update (topic_lookups_update (hm_insert query key)) (w\<lparr>w_net := x\<rparr>)
        in case hm_get (topics (w_state w)) key of
             None \<Rightarrow> w
           | Some ts \<Rightarrow> w_state_update (topics_update (hm_insert key
               (ts\<lparr>ts_last_lookup := Some (instant_now n (w_net w))\<rparr>))) w)"

definition store_topic_count :: "'sw world \<Rightarrow> 'sw world" where
  "store_topic_count w =
     w_state_update (\<lambda>s. shared_update (sh_topics_subscribed_update (\<lambda>_. word_of_nat (hm_len (topics s)))) s) w"

definition topic_subscribe :: "'sw net \<Rightarrow> lp2p_key \<Rightarrow> 'sw world \<Rightarrow> 'sw world" where
  "topic_subscribe n key w =
     (if hm_contains (topics (w_state w)) key \<or>
         hm_len (topics (w_state w)) \<ge> topic_max_subscriptions (w_state w) then w
      else
        let topic = topic_name key
        in case subscribe n topic (w_net w) of (ok, x) \<Rightarrow>
             let w = w\<lparr>w_net := x\<rparr>
             in if \<not> ok then w
                else topic_lookup n key
                  (do_act n (StartProviding (provider_key (n_crypto n) key))
                    (store_topic_count
                      (w_state_update
                        (topics_update (hm_insert key \<lparr>ts_topic = topic, ts_last_lookup = None\<rparr>) \<circ>
                         topic_keys_update (hm_insert topic key)) w))))"

definition topic_unsubscribe :: "'sw net \<Rightarrow> lp2p_key \<Rightarrow> 'sw world \<Rightarrow> 'sw world" where
  "topic_unsubscribe n key w =
     (case hm_get (topics (w_state w)) key of
        None \<Rightarrow> w
      | Some ts \<Rightarrow>
          let w = w_state_update (topics_update (hm_remove key)) w;
              w = do_act n (Unsubscribe (ts_topic ts)) w;
              w = w_state_update (topic_keys_update (hm_remove (ts_topic ts))) w;
              w = do_act n (StopProviding (provider_key (n_crypto n) key)) w
          in store_topic_count w)"

fun dial_loop :: "'sw net \<Rightarrow> nat \<Rightarrow> peer_id list \<Rightarrow> 'sw world \<Rightarrow> 'sw world" where
  "dial_loop n dialed_count [] w = w"
| "dial_loop n dialed_count (peer # peers) w =
     (if dialed_count \<ge> TOPIC_DIALS then w
      else if peer = local_peer (w_state w) \<or> is_connected n peer (w_net w)
      then dial_loop n dialed_count peers w
      else case dial n peer (w_net w) of (ok, x) \<Rightarrow>
        dial_loop n (if ok then Suc dialed_count else dialed_count) peers (w\<lparr>w_net := x\<rparr>))"

definition dial_topic_members :: "'sw net \<Rightarrow> peer_id list \<Rightarrow> 'sw world \<Rightarrow> 'sw world" where
  "dial_topic_members n providers w = dial_loop n 0 providers w"

definition topic_publish :: "'sw net \<Rightarrow> lp2p_key \<Rightarrow> bytes \<Rightarrow> 'sw world \<Rightarrow> 'sw world" where
  "topic_publish n key payload w =
     (case hm_get (topics (w_state w)) key of
        None \<Rightarrow> w
      | Some ts \<Rightarrow>
          let frame = encode_announcement (s_delegation (w_state w)) payload
          in case publish n (ts_topic ts) frame (w_net w) of (result, x) \<Rightarrow>
               let w = w\<lparr>w_net := x\<rparr>
               in if result = Published
                  then w_state_update (shared_update
                         (sh_topic_out_update (\<lambda>k. k + 1) \<circ>
                          sh_topic_bytes_out_update (\<lambda>k. k + word_of_nat (length frame)))) w
                  else w)"

definition topic_peers :: "'sw net \<Rightarrow> lp2p_key \<Rightarrow> 'sw world \<Rightarrow> nat" where
  "topic_peers n key w =
     (case hm_get (topics (w_state w)) key of
        None \<Rightarrow> 0 | Some ts \<Rightarrow> length (mesh_peers n (ts_topic ts) (w_net w)))"

section \<open>Messages from the network\<close>

record gossip_message =
  gm_source :: "peer_id option"
  gm_data :: bytes
  gm_topic :: topic

text \<open>The closure \<open>checked\<close>: publisher, its key, its group and the payload.\<close>

definition checked_message ::
  "'sw net \<Rightarrow> gossip_message \<Rightarrow> u64 \<Rightarrow> (peer_id \<times> lp2p_key \<times> lp2p_key \<times> bytes) option" where
  "checked_message n m ms =
     (case gm_source m of
        None \<Rightarrow> None
      | Some source \<Rightarrow>
          (case decode_announcement (gm_data m) of
             None \<Rightarrow> None
           | Some frame \<Rightarrow>
               (case checked_sender n source (rs_delegation frame) ms of
                  None \<Rightarrow> None
                | Some (node, grp) \<Rightarrow> Some (source, node, grp, rs_payload frame))))"

text \<open>A refused message is counted and, within the window, reported.\<close>

definition limited_event :: "lp2p_key \<Rightarrow> lp2p_key \<Rightarrow> u16 \<Rightarrow> u16 \<Rightarrow> lp2p_event" where
  "limited_event grp node protocol reason = (event_new LP2P_EV_LIMITED)\<lparr>ev_group := grp, ev_node := node,
     ev_protocol := protocol, ev_reason := reason\<rparr>"

definition report_limited ::
  "'sw net \<Rightarrow> lp2p_key \<Rightarrow> lp2p_key \<Rightarrow> u16 \<Rightarrow> u16 \<Rightarrow> instant \<Rightarrow> 'sw world \<Rightarrow> 'sw world" where
  "report_limited n grp node protocol reason now w =
     (case may_report now (s_limits (w_state w)) of (yes, L) \<Rightarrow>
        let w = w_state_update (s_limits_update (\<lambda>_. L)) w
        in if yes then emit n (limited_event grp node protocol reason) [] w else w)"

definition topic_message ::
  "'sw net \<Rightarrow> peer_id \<Rightarrow> gossip_message \<Rightarrow> 'sw world \<Rightarrow> message_acceptance \<times> 'sw world" where
  "topic_message n propagation_source m w =
     (case hm_get (topic_keys (w_state w)) (gm_topic m) of
        None \<Rightarrow> (Ignore, w)
      | Some key \<Rightarrow>
          let now = instant_now n (w_net w)
          in case checked_message n m (now_ms n (w_net w)) of
               None \<Rightarrow> (RejectMessage, w)
             | Some (_, node, grp, payload) \<Rightarrow>
                 if length payload > topic_max_message_bytes (w_state w) then (RejectMessage, w)
                 else
                   let req = \<lparr>lr_group = grp, lr_peer = propagation_source,
                         lr_ip = hm_get (peer_ips (w_state w)) propagation_source,
                         lr_protocol = LP2P_PROTOCOL_TOPICS\<rparr>
                   in case check req (length (gm_data m)) now (s_limits (w_state w)) of
                        (Inl reason, L) \<Rightarrow>
                          (Ignore, report_limited n grp node LP2P_PROTOCOL_TOPICS reason now
                             (w_state_update (s_limits_update (\<lambda>_. L) \<circ>
                                shared_update (sh_topic_limited_update (\<lambda>k. k + 1))) w))
                      | (Inr _, L) \<Rightarrow>
                          (Accept, emit n ((event_new LP2P_EV_TOPIC_MESSAGE)\<lparr>ev_group := grp, ev_node := node\<rparr>)
                             (key @ payload)
                             (w_state_update (s_limits_update (\<lambda>_. L) \<circ>
                                shared_update (sh_topic_in_update (\<lambda>k. k + 1) \<circ>
                                  sh_topic_bytes_in_update (\<lambda>k. k + word_of_nat (length (gm_data m))))) w)))"

definition announcement_message ::
  "'sw net \<Rightarrow> gossip_message \<Rightarrow> 'sw world \<Rightarrow> message_acceptance \<times> 'sw world" where
  "announcement_message n m w =
     (let now = instant_now n (w_net w)
      in case checked_message n m (now_ms n (w_net w)) of
           None \<Rightarrow> (RejectMessage, w)
         | Some (source, node, grp, payload) \<Rightarrow>
             if class_of (s_limits (w_state w)) grp = LP2P_CLASS_BLOCKED then (RejectMessage, w)
             else case allow source now (announce_rate (w_state w)) of (ok, r) \<Rightarrow>
               let w = w_state_update (announce_rate_update (\<lambda>_. r)) w
               in if ok
                  then (Accept, emit n ((event_new LP2P_EV_ANNOUNCEMENT)\<lparr>ev_group := grp, ev_node := node\<rparr>) payload w)
                  else (Ignore, w))"

datatype gossip_event = Subscribed | Message peer_id bytes gossip_message | OtherGossip

fun gossipsub_event :: "'sw net \<Rightarrow> gossip_event \<Rightarrow> 'sw world \<Rightarrow> 'sw world" where
  "gossipsub_event n Subscribed w = announce n w"
| "gossipsub_event n (Message propagation_source message_id m) w =
     (case (if hm_contains (topic_keys (w_state w)) (gm_topic m)
            then topic_message n propagation_source m w
            else announcement_message n m w) of (acceptance, w) \<Rightarrow>
        do_act n (ReportValidation message_id propagation_source acceptance) w)"
| "gossipsub_event n OtherGossip w = w"

end
