(* ===== verification/Relay.thy ===== *)
theory Relay
  imports Net
begin

text \<open>
  Reachability in \<open>src/node.rs\<close>: reservations on relays, AutoNAT's verdicts, lost relays, and what
  identify tells about a peer.
\<close>

definition is_private :: "state \<Rightarrow> bool" where
  "is_private s \<longleftrightarrow> s_reachability s = Private"

fun reserve_loop :: "'sw net \<Rightarrow> instant \<Rightarrow> (peer_id \<times> multiaddr) list \<Rightarrow> 'sw world \<Rightarrow> 'sw world" where
  "reserve_loop n now [] w = w"
| "reserve_loop n now ((peer, address) # rest) w =
     (if hm_len (reservations (w_state w)) \<ge> MAX_RESERVATIONS then w
      else
        let circuit = without_peer address @ [P2p peer, P2pCircuit]
        in case listen_on n circuit (w_net w) of
             (Some listener, x) \<Rightarrow>
               reserve_loop n now rest
                 (w_state_update (reservations_update (hm_insert peer listener)) (w\<lparr>w_net := x\<rparr>))
           | (None, x) \<Rightarrow>
               reserve_loop n now rest
                 (w_state_update (relay_failed_update (hm_insert peer now)) (w\<lparr>w_net := x\<rparr>)))"

definition relay_usable :: "instant \<Rightarrow> state \<Rightarrow> peer_id \<Rightarrow> bool" where
  "relay_usable now s peer \<longleftrightarrow> \<not> hm_contains (reservations s) peer \<and>
     (case hm_get (relay_failed s) peer of None \<Rightarrow> True | Some t \<Rightarrow> duration_since now t \<ge> RELAY_RETRY)"

definition reserve :: "'sw net \<Rightarrow> 'sw world \<Rightarrow> 'sw world" where
  "reserve n w =
     (let s = w_state w
      in if \<not> is_private s \<or> \<not> relay_client s \<or> hm_len (reservations s) \<ge> MAX_RESERVATIONS then w
         else
           let now = instant_now n (w_net w)
           in reserve_loop n now (filter (\<lambda>(peer, _). relay_usable now s peer) (relay_candidates s)) w)"

datatype nat_verdict = NatPublic multiaddr | NatPrivate | NatUnknown

definition nat_next :: "nat_verdict \<Rightarrow> reachability option" where
  "nat_next status = (case status of NatPublic _ \<Rightarrow> Some Public | NatPrivate \<Rightarrow> Some Private | NatUnknown \<Rightarrow> None)"

definition go_private :: "'sw net \<Rightarrow> 'sw world \<Rightarrow> 'sw world" where
  "go_private n w =
     reserve n (fold (\<lambda>a. do_act n (RemoveExternalAddress a))
       (filter (\<lambda>a. \<not> is_relayed a) (external_addresses n (w_net w))) w)"

definition go_public :: "'sw net \<Rightarrow> 'sw world \<Rightarrow> 'sw world" where
  "go_public n w =
     (let s = w_state w;
          w = fold (\<lambda>a. do_act n (AddExternalAddress a))
                (filter (\<lambda>a. \<not> (listens_on_wildcard s \<and> is_loopback a)) (listening s)) w;
          w = fold (\<lambda>a. do_act n (RemoveExternalAddress a))
                (filter is_relayed (external_addresses n (w_net w))) w;
          w = fold (\<lambda>(_, l). do_act n (RemoveListener l)) (reservations (w_state w)) w
      in w_state_update (reservations_update (\<lambda>_. [])) w)"

definition nat_status :: "'sw net \<Rightarrow> nat_verdict \<Rightarrow> 'sw world \<Rightarrow> 'sw world" where
  "nat_status n status w =
     (if configured (w_state w) \<noteq> Unknown then w
      else case nat_next status of
          None \<Rightarrow> w
        | Some next_reach \<Rightarrow>
            if next_reach = s_reachability (w_state w) then w
            else
              let was_private = is_private (w_state w);
                  w = w_state_update (s_reachability_update (\<lambda>_. next_reach)) w;
                  w = (if next_reach = Private then go_private n w
                       else if was_private then go_public n w else w);
                  w = do_act n (IdentifyPush (connected_peers n (w_net w))) w;
                  w = w_state_update (provide_due_update (\<lambda>_. True)) w
              in emit n ((event_new LP2P_EV_REACHABILITY)\<lparr>ev_reason :=
                   ucast (if next_reach = Private then LP2P_REACH_PRIVATE else LP2P_REACH_PUBLIC)\<rparr>) [] w)"

definition relay_lost :: "'sw net \<Rightarrow> listener_id \<Rightarrow> 'sw world \<Rightarrow> 'sw world" where
  "relay_lost n listener w =
     fold (\<lambda>peer w. w_state_update (reservations_update (hm_remove peer) \<circ>
             relay_failed_update (hm_insert peer (instant_now n (w_net w)))) w)
       (map fst (filter (\<lambda>(_, l). l = listener) (reservations (w_state w)))) w"

record identify_info =
  ii_protocols :: "bytes list"
  ii_listen_addrs :: "multiaddr list"

definition relay_address :: "state \<Rightarrow> peer_id \<Rightarrow> identify_info \<Rightarrow> multiaddr option" where
  "relay_address s peer info =
     (case hm_get (dialed s) peer of
        Some a \<Rightarrow> Some a
      | None \<Rightarrow> List.find (\<lambda>a. \<not> is_relayed a \<and> \<not> is_unspecified a) (ii_listen_addrs info))"

definition learn_address :: "'sw net \<Rightarrow> bool \<Rightarrow> peer_id \<Rightarrow> multiaddr \<Rightarrow> 'sw world \<Rightarrow> 'sw world" where
  "learn_address n speaks_dht peer address w =
     (let w = w\<lparr>w_book := add peer address (w_book w)\<rparr>
      in if speaks_dht then do_act n (KadAddAddress peer address) w else w)"

definition identified :: "'sw net \<Rightarrow> peer_id \<Rightarrow> identify_info \<Rightarrow> 'sw world \<Rightarrow> 'sw world" where
  "identified n peer info w =
     (let s = w_state w;
          speaks_dht = (s_dht_protocol s \<in> set (ii_protocols info));
          w = (if hop_protocol n \<in> set (ii_protocols info) \<and>
                  hm_len (relay_candidates s) < MAX_RELAY_CANDIDATES
               then (case relay_address s peer info of
                       Some a \<Rightarrow> w_state_update (relay_candidates_update (hm_insert peer a)) w
                     | None \<Rightarrow> w)
               else w);
          w = fold (learn_address n speaks_dht peer) (ii_listen_addrs info) w
      in reserve n w)"

end
