(* ===== verification/Node.thy ===== *)
theory Node
  imports Calls Topics Relay
begin

text \<open>
  The handlers of \<open>src/node.rs\<close> that put the parts together: Kademlia, RPC and swarm events.
\<close>

section \<open>Discovered peers\<close>

definition discovered :: "'sw net \<Rightarrow> u64 \<Rightarrow> peer_id \<Rightarrow> multiaddr list \<Rightarrow> event" where
  "discovered n cid peer addrs =
     ((event_new LP2P_EV_PEER_DISCOVERED)\<lparr>ev_id := cid, ev_node := peer_key n peer\<rparr>,
      concat (map (\<lambda>a. multiaddr_to_string n a @ [0]) addrs))"

definition emit_event :: "'sw net \<Rightarrow> event \<Rightarrow> 'sw world \<Rightarrow> 'sw world" where
  "emit_event n ev w = emit n (fst ev) (snd ev) w"

definition dht_result :: "u64 \<Rightarrow> u16 \<Rightarrow> event" where
  "dht_result cid reason =
     ((event_new LP2P_EV_DHT_RESULT)\<lparr>ev_id := cid, ev_flags := LP2P_EVF_LAST, ev_reason := reason\<rparr>, [])"

definition routing_sample :: "'sw net \<Rightarrow> nat \<Rightarrow> 'sw world \<Rightarrow> event list \<times> 'sw world" where
  "routing_sample n limit w =
     (let entries = concat (kbuckets n (w_net w))
      in if entries = [] then ([], w)
         else
           let offset = (sample_offset (w_state w) + 1) mod length entries
           in (map (\<lambda>(peer, addrs). discovered n 0 peer addrs)
                 (take (min limit (length entries)) (drop offset entries @ take offset entries)),
               w_state_update (sample_offset_update (\<lambda>_. offset)) w))"

definition provide :: "'sw net \<Rightarrow> 'sw world \<Rightarrow> 'sw world" where
  "provide n w =
     (let w = do_act n (StartProviding (provider_key (n_crypto n) (s_group (w_state w)))) w
      in w_state_update (provide_due_update (\<lambda>_. False) \<circ>
           last_provide_update (\<lambda>_. Some (instant_now n (w_net w)))) w)"

section \<open>Kademlia events\<close>

datatype kad_ev =
    RoutingUpdated peer_id "multiaddr list" bool
  | GetProvidersProgress query_id get_providers_result bool
  | GetClosestPeersProgress query_id "(peer_id \<times> multiaddr list) list"
  | BootstrapProgress query_id bool bool
  | OtherKad

definition book_add_all :: "peer_id \<Rightarrow> multiaddr list \<Rightarrow> 'sw world \<Rightarrow> 'sw world" where
  "book_add_all peer addrs w = w\<lparr>w_book := fold (add peer) addrs (w_book w)\<rparr>"

definition found_providers :: "get_providers_result \<Rightarrow> peer_id list" where
  "found_providers result = (case result of FoundProviders ps \<Rightarrow> ps | NoProviders \<Rightarrow> [])"

definition get_providers_progress ::
  "'sw net \<Rightarrow> query_id \<Rightarrow> get_providers_result \<Rightarrow> bool \<Rightarrow> 'sw world \<Rightarrow> 'sw world" where
  "get_providers_progress n query result is_last w =
     (if hm_contains (topic_lookups (w_state w)) query then
        let w = (case result of FoundProviders ps \<Rightarrow> dial_topic_members n ps w | NoProviders \<Rightarrow> w)
        in if is_last then w_state_update (topic_lookups_update (hm_remove query)) w else w
      else case hm_get (provider_queries (w_state w)) query of
          Some cid \<Rightarrow>
            let w = fold (\<lambda>p w. emit_event n (discovered n cid p (addresses (w_book w) p)) w)
                      (found_providers result) w
            in if is_last
               then emit_event n (dht_result cid 0)
                      (w_state_update (provider_queries_update (hm_remove query)) w)
               else w
        | None \<Rightarrow> call_providers n query result is_last w)"

definition get_closest_peers_progress ::
  "'sw net \<Rightarrow> query_id \<Rightarrow> (peer_id \<times> multiaddr list) list \<Rightarrow> 'sw world \<Rightarrow> 'sw world" where
  "get_closest_peers_progress n query peers w =
     (let w = fold (\<lambda>(peer, addrs). book_add_all peer addrs) peers w
      in case hm_get (resolutions (w_state w)) query of
           Some cid \<Rightarrow> resolution_done n cid (w_state_update (resolutions_update (hm_remove query)) w)
         | None \<Rightarrow>
             (case hm_get (walks (w_state w)) query of
                Some walk \<Rightarrow>
                  emit_event n (dht_result walk 0)
                    (fold (\<lambda>(peer, addrs). emit_event n (discovered n walk peer addrs)) peers
                      (w_state_update (walks_update (hm_remove query)) w))
              | None \<Rightarrow> w))"

fun kad_event :: "'sw net \<Rightarrow> kad_ev \<Rightarrow> 'sw world \<Rightarrow> 'sw world" where
  "kad_event n (RoutingUpdated peer addrs is_new_peer) w =
     (let w = book_add_all peer addrs w
      in if is_new_peer then w_state_update (provide_due_update (\<lambda>_. True)) w else w)"
| "kad_event n (GetProvidersProgress query result is_last) w = get_providers_progress n query result is_last w"
| "kad_event n (GetClosestPeersProgress query peers) w = get_closest_peers_progress n query peers w"
| "kad_event n (BootstrapProgress query ok is_last) w =
     (if \<not> is_last then w
      else
        let w = (case hm_get (bootstraps (w_state w)) query of
                   Some cid \<Rightarrow> emit_event n (dht_result cid (if ok then 0 else LP2P_FAIL_TIMEOUT))
                     (w_state_update (bootstraps_update (hm_remove query)) w)
                 | None \<Rightarrow> w)
        in w_state_update (provide_due_update (\<lambda>_. True)) w)"
| "kad_event n OtherKad w = w"

section \<open>RPC events\<close>

definition index_of :: "'a \<Rightarrow> 'a list \<Rightarrow> nat option" where
  "index_of x xs = List.find (\<lambda>i. xs ! i = x) [0..<length xs]"

definition request_ip :: "state \<Rightarrow> connection_id \<Rightarrow> ip_addr option" where
  "request_ip s connection =
     (case hm_get (s_connections s) connection of
        Some a \<Rightarrow> if is_relayed a then None else ip_of a
      | None \<Rightarrow> None)"

definition inbound_request ::
  "'sw net \<Rightarrow> peer_id \<Rightarrow> connection_id \<Rightarrow> request_id \<Rightarrow> bytes \<Rightarrow> channel \<Rightarrow> 'sw world \<Rightarrow> 'sw world" where
  "inbound_request n peer connection request_id frame channel w =
     (case decode_request frame of
        None \<Rightarrow> w
      | Some request \<Rightarrow>
          (case checked_sender n peer (rq_delegation request) (now_ms n (w_net w)) of
             None \<Rightarrow> w
           | Some (node, grp) \<Rightarrow>
               (case index_of (rq_protocol request) (s_rpc_protocols (w_state w)) of
                  None \<Rightarrow> w
                | Some protocol \<Rightarrow>
                    let now = instant_now n (w_net w);
                        req = \<lparr>lr_group = grp, lr_peer = peer, lr_ip = request_ip (w_state w) connection,
                               lr_protocol = word_of_nat protocol\<rparr>
                    in case check req (length frame) now (s_limits (w_state w)) of
                         (Inl reason, L) \<Rightarrow>
                           report_limited n grp node (word_of_nat protocol) reason now
                             (w_state_update (s_limits_update (\<lambda>_. L) \<circ>
                                shared_update (sh_rpc_limited_update (\<lambda>k. k + 1))) w)
                       | (Inr _, L) \<Rightarrow>
                           let cid = sh_next_id (shared (w_state w));
                               w = w_state_update (s_limits_update (\<lambda>_. L) \<circ>
                                     shared_update (sh_next_id_update (\<lambda>k. k + 1) \<circ>
                                       sh_rpc_in_update (\<lambda>k. k + 1))) w;
                               w = emit n ((event_new LP2P_EV_RPC_REQUEST)\<lparr>ev_id := cid, ev_group := grp,
                                     ev_node := node, ev_protocol := word_of_nat protocol\<rparr>) (rq_payload request) w
                           in w_state_update (inbound_update (hm_insert cid channel) \<circ>
                                inbound_ids_update (hm_insert request_id cid)) w)))"

datatype rpc_ev =
    InboundRequest peer_id connection_id request_id bytes channel
  | Response peer_id request_id bytes
  | OutboundFailure peer_id request_id outbound_failure
  | InboundFailure request_id
  | ResponseSent request_id

definition inbound_done :: "request_id \<Rightarrow> 'sw world \<Rightarrow> 'sw world" where
  "inbound_done request_id w =
     (case hm_get (inbound_ids (w_state w)) request_id of
        None \<Rightarrow> w
      | Some cid \<Rightarrow> w_state_update (inbound_ids_update (hm_remove request_id) \<circ>
          inbound_update (hm_remove cid)) w)"

fun rpc_event :: "'sw net \<Rightarrow> rpc_ev \<Rightarrow> 'sw world \<Rightarrow> 'sw world" where
  "rpc_event n (InboundRequest peer connection request_id frame channel) w =
     inbound_request n peer connection request_id frame channel w"
| "rpc_event n (Response peer request_id frame) w = response n peer request_id frame w"
| "rpc_event n (OutboundFailure peer request_id err) w = outbound_failed n peer request_id err w"
| "rpc_event n (InboundFailure request_id) w = inbound_done request_id w"
| "rpc_event n (ResponseSent request_id) w = inbound_done request_id w"

section \<open>Swarm events\<close>

datatype endpoint = Dialer multiaddr | Listener multiaddr

fun remote_address :: "endpoint \<Rightarrow> multiaddr" where
  "remote_address (Dialer address) = address"
| "remote_address (Listener send_back_addr) = send_back_addr"

fun is_dialer :: "endpoint \<Rightarrow> bool" where
  "is_dialer (Dialer _) = True"
| "is_dialer (Listener _) = False"

text \<open>The result of a hole punch: the connection, or the error as \<open>format!\<close> prints it.\<close>

datatype swarm_ev =
    NewListenAddr listener_id multiaddr
  | ExpiredListenAddr multiaddr
  | ListenerClosed listener_id
  | ListenerError listener_id
  | ConnectionEstablished peer_id connection_id nat endpoint
  | ConnectionClosed peer_id connection_id nat
  | Kad kad_ev
  | Identify peer_id identify_info
  | RpcEvent rpc_ev
  | Gossipsub gossip_event
  | Dcutr peer_id "bytes + connection_id"
  | Autonat nat_verdict
  | OtherSwarmEvent

definition new_listen_addr :: "'sw net \<Rightarrow> multiaddr \<Rightarrow> 'sw world \<Rightarrow> 'sw world" where
  "new_listen_addr n address w =
     (let w = (if is_relayed address
               then let w = do_act n (AddExternalAddress address) w;
                        w = do_act n (IdentifyPush (connected_peers n (w_net w))) w
                    in w_state_update (provide_due_update (\<lambda>_. True)) w
               else if \<not> is_unspecified address
               then w_state_update (listening_update (List.insert address)) w
               else w);
          loopback_of_wildcard = listens_on_wildcard (w_state w) \<and> is_loopback address;
          w = (if \<not> is_relayed address \<and> \<not> is_private (w_state w) \<and> \<not> is_unspecified address \<and>
                  \<not> loopback_of_wildcard
               then do_act n (AddExternalAddress address) w else w)
      in emit n (event_new LP2P_EV_LISTENING) (multiaddr_to_string n address) w)"

definition connection_established ::
  "'sw net \<Rightarrow> peer_id \<Rightarrow> connection_id \<Rightarrow> nat \<Rightarrow> endpoint \<Rightarrow> 'sw world \<Rightarrow> 'sw world" where
  "connection_established n peer connection num_established endpoint w =
     (let remote = remote_address endpoint;
          w = w_state_update (s_connections_update (hm_insert connection remote)) w;
          w = (if \<not> is_relayed remote
               then (case ip_of remote of
                       Some ip \<Rightarrow> w_state_update (peer_ips_update (hm_insert peer ip)) w
                     | None \<Rightarrow> w)
               else w);
          w = (if is_dialer endpoint \<and> \<not> is_relayed remote
               then w_state_update (dialed_update (hm_insert peer remote)) w else w)
      in if num_established = 1
         then emit n ((event_new LP2P_EV_PEER_CONNECTED)\<lparr>ev_node := peer_key n peer\<rparr>)
                (multiaddr_to_string n remote) w
         else w)"

definition connection_closed :: "'sw net \<Rightarrow> peer_id \<Rightarrow> connection_id \<Rightarrow> nat \<Rightarrow> 'sw world \<Rightarrow> 'sw world" where
  "connection_closed n peer connection num_established w =
     (let w = w_state_update (s_connections_update (hm_remove connection)) w
      in if num_established = 0
         then emit n ((event_new LP2P_EV_PEER_DISCONNECTED)\<lparr>ev_node := peer_key n peer\<rparr>) []
                (w_state_update (dialed_update (hm_remove peer) \<circ> peer_ips_update (hm_remove peer)) w)
         else w)"

definition hole_punch :: "'sw net \<Rightarrow> peer_id \<Rightarrow> bytes + connection_id \<Rightarrow> 'sw world \<Rightarrow> 'sw world" where
  "hole_punch n peer result w =
     (let h = (event_new LP2P_EV_HOLE_PUNCH)\<lparr>ev_node := peer_key n peer\<rparr>
      in case result of
           Inr connection \<Rightarrow>
             emit n h (case hm_get (s_connections (w_state w)) connection of
                         Some a \<Rightarrow> multiaddr_to_string n a | None \<Rightarrow> []) w
         | Inl err \<Rightarrow> emit n (h\<lparr>ev_reason := 1\<rparr>) err w)"

fun swarm_event :: "'sw net \<Rightarrow> swarm_ev \<Rightarrow> 'sw world \<Rightarrow> 'sw world" where
  "swarm_event n (NewListenAddr _ address) w = new_listen_addr n address w"
| "swarm_event n (ExpiredListenAddr address) w = w_state_update (listening_update (removeAll address)) w"
| "swarm_event n (ListenerClosed listener) w = relay_lost n listener w"
| "swarm_event n (ListenerError listener) w = relay_lost n listener w"
| "swarm_event n (ConnectionEstablished peer connection num_established endpoint) w =
     connection_established n peer connection num_established endpoint w"
| "swarm_event n (ConnectionClosed peer connection num_established) w =
     connection_closed n peer connection num_established w"
| "swarm_event n (Kad ev) w = kad_event n ev w"
| "swarm_event n (Identify peer info) w = identified n peer info w"
| "swarm_event n (RpcEvent ev) w = rpc_event n ev w"
| "swarm_event n (Gossipsub ev) w = gossipsub_event n ev w"
| "swarm_event n (Dcutr peer result) w = hole_punch n peer result w"
| "swarm_event n (Autonat status) w = nat_status n status w"
| "swarm_event n OtherSwarmEvent w = w"

end
