(* ===== verification/Loop.thy ===== *)
theory Loop
  imports Node
begin

text \<open>
  The tick, the commands, start-up and the main loop of \<open>src/node.rs\<close>, with the parts of the swarm's
  configuration that the node computes itself.
\<close>

section \<open>The tick\<close>

definition lonely_topics :: "'sw net \<Rightarrow> instant \<Rightarrow> 'sw world \<Rightarrow> lp2p_key list" where
  "lonely_topics n now w =
     map fst (filter (\<lambda>(_, ts).
         (case ts_last_lookup ts of None \<Rightarrow> True | Some t \<Rightarrow> duration_since now t \<ge> TOPIC_LOOKUP_INTERVAL) \<and>
         length (mesh_peers n (ts_topic ts) (w_net w)) = 0)
       (topics (w_state w)))"

definition sweep_limits :: "instant \<Rightarrow> 'sw world \<Rightarrow> 'sw world" where
  "sweep_limits now w =
     (if duration_since now (last_sweep (w_state w)) \<ge> from_secs 10
      then w_state_update (s_limits_update (sweep now) \<circ> last_sweep_update (\<lambda>_. now)) w
      else w)"

definition provide_if_due :: "'sw net \<Rightarrow> instant \<Rightarrow> 'sw world \<Rightarrow> 'sw world" where
  "provide_if_due n now w =
     (if provide_due (w_state w) \<and>
         (case last_provide (w_state w) of None \<Rightarrow> True | Some t \<Rightarrow> duration_since now t \<ge> PROVIDE_DEBOUNCE)
      then provide n w else w)"

definition store_counts :: "'sw net \<Rightarrow> 'sw world \<Rightarrow> 'sw world" where
  "store_counts n w =
     w_state_update (shared_update
       (sh_routing_table_peers_update (\<lambda>_. word_of_nat (sum_list (map length (kbuckets n (w_net w))))) \<circ>
        sh_connections_update (\<lambda>_. word_of_nat (num_peers n (w_net w))))) w"

definition tick :: "'sw net \<Rightarrow> 'sw world \<Rightarrow> 'sw world" where
  "tick n w =
     (let now = instant_now n (w_net w);
          w = expire_calls n now w;
          w = reserve n w;
          w = announce n w;
          w = fold (topic_lookup n) (lonely_topics n now w) w;
          w = sweep_limits now w;
          w = provide_if_due n now w
      in store_counts n w)"

section \<open>Commands\<close>

datatype reply = NoReply | Count nat | Records "event list"

text \<open>What a command answers on its reply channel, and the state after it; \<open>None\<close> is a panic.\<close>

fun command :: "'sw net \<Rightarrow> command \<Rightarrow> 'sw world \<Rightarrow> (reply \<times> 'sw world) option" where
  "command n (Rpc cid grp node protocol payload timeout) w =
     map_option (Pair NoReply) (start_call n cid grp node protocol payload timeout w)"
| "command n (Respond cid payload) w =
     Some (NoReply,
       case hm_get (inbound (w_state w)) cid of
         None \<Rightarrow> w
       | Some channel \<Rightarrow>
           do_act n (SendResponse channel (encode_response (s_delegation (w_state w)) payload))
             (w_state_update (inbound_update (hm_remove cid)) w))"
| "command n (Reject cid) w = Some (NoReply, w_state_update (inbound_update (hm_remove cid)) w)"
| "command n (AddAddress node address) w =
     Some (NoReply,
       case peer_id (n_crypto n) node of
         None \<Rightarrow> w
       | Some peer \<Rightarrow> do_act n (KadAddAddress peer address) (w\<lparr>w_book := add peer address (w_book w)\<rparr>))"
| "command n (Bootstrap cid) w =
     Some (NoReply,
       case kad_bootstrap n (w_net w) of
         (Some query, x) \<Rightarrow> w_state_update (bootstraps_update (hm_insert query cid)) (w\<lparr>w_net := x\<rparr>)
       | (None, x) \<Rightarrow> emit_event n (dht_result cid LP2P_FAIL_UNREACHABLE) (w\<lparr>w_net := x\<rparr>))"
| "command n (RandomWalk cid) w =
     Some (NoReply,
       case get_closest_peers n (random_peer n (w_net w)) (w_net w) of (query, x) \<Rightarrow>
         w_state_update (walks_update (hm_insert query cid)) (w\<lparr>w_net := x\<rparr>))"
| "command n (SetClass grp class) w =
     Some (NoReply, w_state_update (s_limits_update (set_class grp class)) w)"
| "command n (AnnounceSetPayload payload) w =
     Some (NoReply, announce n (w_state_update (announce_payload_update (\<lambda>_. Some payload)) w))"
| "command n (SetLimit class scope protocol un rate) w =
     Some (NoReply, w_state_update (s_limits_update (set_limit class scope protocol un rate)) w)"
| "command n (TopicSubscribe key) w = Some (NoReply, topic_subscribe n key w)"
| "command n (TopicUnsubscribe key) w = Some (NoReply, topic_unsubscribe n key w)"
| "command n (TopicPublish key payload) w = Some (NoReply, topic_publish n key payload w)"
| "command n (TopicPeers key) w = Some (Count (topic_peers n key w), w)"
| "command n (Provide key stop) w =
     Some (NoReply, do_act n ((if stop then StopProviding else StartProviding) (provider_key (n_crypto n) key)) w)"
| "command n (FindProviders cid key) w =
     Some (NoReply,
       case get_providers n (provider_key (n_crypto n) key) (w_net w) of (query, x) \<Rightarrow>
         w_state_update (provider_queries_update (hm_insert query cid)) (w\<lparr>w_net := x\<rparr>))"
| "command n (RoutingSample limit) w = (case routing_sample n limit w of (rs, w) \<Rightarrow> Some (Records rs, w))"
| "command n Shutdown w = Some (NoReply, w)"

section \<open>The main loop\<close>

text \<open>
  One turn of \<open>select!\<close>: what libp2p did with the swarm in the meantime, what its behaviours told
  the address book, and the branch taken. A closed channel is a receive of nothing.
\<close>

datatype input = Receive "command option" | Swarm swarm_ev | Tick

type_synonym 'sw meantime = "('sw \<Rightarrow> 'sw) \<times> from_swarm list"

type_synonym 'sw turn = "'sw meantime \<times> input"

definition arrive :: "'sw meantime \<Rightarrow> 'sw world \<Rightarrow> 'sw world" where
  "arrive m w = w\<lparr>w_net := fst m (w_net w), w_book := fold on_swarm_event (snd m) (w_book w)\<rparr>"

datatype 'sw run_result = Running "'sw world" | Stopped "'sw world" | Panicked "'sw world"

fun run_turn :: "'sw net \<Rightarrow> input \<Rightarrow> 'sw world \<Rightarrow> 'sw run_result" where
  "run_turn n (Receive None) w = Stopped w"
| "run_turn n (Receive (Some c)) w =
     (if c = Shutdown then Stopped w
      else case command n c w of None \<Rightarrow> Panicked w | Some (_, w') \<Rightarrow> Running w')"
| "run_turn n (Swarm ev) w = Running (swarm_event n ev w)"
| "run_turn n Tick w = Running (tick n w)"

fun run :: "'sw net \<Rightarrow> 'sw turn list \<Rightarrow> 'sw world \<Rightarrow> 'sw run_result" where
  "run n [] w = Running w"
| "run n ((m, inp) # turns) w =
     (case run_turn n inp (arrive m w) of
        Running w' \<Rightarrow> run n turns w'
      | r \<Rightarrow> r)"

section \<open>Start-up\<close>

fun listen_all :: "'sw net \<Rightarrow> multiaddr list \<Rightarrow> 'sw \<Rightarrow> ((listener_id \<times> bool) list \<times> 'sw) option" where
  "listen_all n [] x = Some ([], x)"
| "listen_all n (address # rest) x =
     (case listen_on n address x of
        (None, _) \<Rightarrow> None
      | (Some listener, x) \<Rightarrow>
          map_option (\<lambda>(ls, x). ((listener, is_unspecified address) # ls, x)) (listen_all n rest x))"

definition still_pending :: "swarm_ev \<Rightarrow> listener_id \<times> bool \<Rightarrow> bool" where
  "still_pending ev = (\<lambda>(l, wildcard).
     (case ev of
        NewListenAddr listener address \<Rightarrow> \<not> (l = listener \<and> (\<not> wildcard \<or> \<not> is_loopback address))
      | ListenerClosed listener \<Rightarrow> l \<noteq> listener
      | ListenerError listener \<Rightarrow> l \<noteq> listener
      | _ \<Rightarrow> True))"

text \<open>The events that arrive before the timeout; at their end the timeout has passed.\<close>

fun await_listeners ::
  "'sw net \<Rightarrow> (listener_id \<times> bool) list \<Rightarrow> ('sw meantime \<times> swarm_ev) list \<Rightarrow> 'sw world \<Rightarrow> 'sw world" where
  "await_listeners n pending [] w = w"
| "await_listeners n pending ((m, ev) # evs) w =
     (if pending = [] then w
      else await_listeners n (filter (still_pending ev) pending) evs (swarm_event n ev (arrive m w)))"

definition reach_code :: "reachability \<Rightarrow> u8" where
  "reach_code r = (case r of
     Public \<Rightarrow> LP2P_REACH_PUBLIC | Private \<Rightarrow> LP2P_REACH_PRIVATE | Unknown \<Rightarrow> LP2P_REACH_UNKNOWN)"

definition shared_new :: "nat \<Rightarrow> shared" where
  "shared_new queue_bytes = \<lparr>sh_events = queue_new queue_bytes, sh_next_id = 1, sh_connections = 0,
     sh_routing_table_peers = 0, sh_rpc_in = 0, sh_rpc_out = 0, sh_rpc_limited = 0,
     sh_topics_subscribed = 0, sh_topic_in = 0, sh_topic_out = 0, sh_topic_bytes_in = 0,
     sh_topic_bytes_out = 0, sh_topic_limited = 0, sh_poisoned = False\<rparr>"

definition world_new :: "config \<Rightarrow> peer_id \<Rightarrow> instant \<Rightarrow> 'sw \<Rightarrow> 'sw world" where
  "world_new config peer now x = \<lparr>w_net = x, w_book = address_book_default,
     w_state = state_new config peer now (shared_new (c_event_queue_bytes config)), w_emitted = []\<rparr>"

text \<open>
  \<open>run_thread\<close> up to the main loop: the swarm \<open>build_swarm\<close> made, or its status, and the events until
  the listeners are ready. The result is the status sent to \<open>Node::start\<close>, or the world the loop starts from.
\<close>

definition run_thread_start ::
  "'sw net \<Rightarrow> config \<Rightarrow> peer_id \<Rightarrow> int + 'sw \<Rightarrow> ('sw meantime \<times> swarm_ev) list \<Rightarrow> int + 'sw world" where
  "run_thread_start n config peer built evs =
     (case built of
        Inl status \<Rightarrow> Inl status
      | Inr x \<Rightarrow>
          (case listen_all n (c_listen config) x of
             None \<Rightarrow> Inl LP2P_ERR_NETWORK
           | Some (listeners, x) \<Rightarrow>
               let w = world_new config peer (instant_now n x) x;
                   w = await_listeners n listeners evs w;
                   w = emit n ((event_new LP2P_EV_REACHABILITY)\<lparr>ev_reason :=
                         ucast (reach_code (c_reachability config))\<rparr>) [] w
               in Inr (provide n w)))"

definition start ::
  "'sw net \<Rightarrow> config \<Rightarrow> u64 \<Rightarrow> int + 'sw \<Rightarrow> ('sw meantime \<times> swarm_ev) list \<Rightarrow> int + 'sw world" where
  "start n config ms built evs =
     (case keypair_from_seed (n_crypto n) (c_node_seed config) of
        None \<Rightarrow> Inl LP2P_ERR_INVALID_ARGUMENT
      | Some keypair \<Rightarrow>
          (case public_key (n_crypto n) keypair of
             None \<Rightarrow> Inl LP2P_ERR_INVALID_ARGUMENT
           | Some node_key \<Rightarrow>
               (case verify_for (n_crypto n) (c_delegation config) node_key ms of
                  Inl _ \<Rightarrow> Inl LP2P_ERR_INVALID_ARGUMENT
                | Inr _ \<Rightarrow>
                    run_thread_start n config
                      (to_peer_id (n_crypto n) (keypair_public (n_crypto n) keypair)) built evs)))"

text \<open>The end of \<open>run_thread\<close>: the queue is closed with what happened.\<close>

definition shut_events :: "int \<Rightarrow> 'sw world \<Rightarrow> 'sw world" where
  "shut_events status w = w_state_update (shared_update (sh_events_update (close status))) w"

definition run_thread_end :: "'sw run_result \<Rightarrow> 'sw world" where
  "run_thread_end r = (case r of
     Running w \<Rightarrow> w
   | Stopped w \<Rightarrow> shut_events LP2P_ERR_SHUT_DOWN w
   | Panicked w \<Rightarrow>
       shut_events LP2P_ERR_PANIC (w_state_update (shared_update (sh_poisoned_update (\<lambda>_. True))) w))"

end
