(* ===== verification/CallInvariant.thy ===== *)
theory CallInvariant
  imports Calls
begin

text \<open>
  The invariant of outgoing calls. Every live call waits for something that will report back -- a
  request in flight, an address lookup or a provider lookup --, the maps from libp2p's identifiers to
  calls are one to one, and each call that was started has ended with exactly one event or is still live.
  What the node relies on is that libp2p never hands out an identifier twice.
\<close>

section \<open>Identifiers of libp2p\<close>

text \<open>
  \<open>iss\<close> and \<open>isq\<close> are the request and query identifiers handed out so far: a new one is not among
  them, and no call forgets any.
\<close>

definition ids_grow :: "('sw \<Rightarrow> request_id set) \<Rightarrow> ('sw \<Rightarrow> query_id set) \<Rightarrow> 'sw \<Rightarrow> 'sw \<Rightarrow> bool" where
  "ids_grow iss isq x x' \<longleftrightarrow> iss x \<subseteq> iss x' \<and> isq x \<subseteq> isq x'"

definition net_fresh :: "'sw net \<Rightarrow> ('sw \<Rightarrow> request_id set) \<Rightarrow> ('sw \<Rightarrow> query_id set) \<Rightarrow> bool" where
  "net_fresh n iss isq \<longleftrightarrow>
     (\<forall>p f x r x'. send_request n p f x = (r, x') \<longrightarrow> r \<notin> iss x \<and> r \<in> iss x' \<and> ids_grow iss isq x x') \<and>
     (\<forall>k x q x'. get_providers n k x = (q, x') \<longrightarrow> q \<notin> isq x \<and> q \<in> isq x' \<and> ids_grow iss isq x x') \<and>
     (\<forall>p x q x'. get_closest_peers n p x = (q, x') \<longrightarrow> q \<notin> isq x \<and> q \<in> isq x' \<and> ids_grow iss isq x x') \<and>
     (\<forall>x q x'. kad_bootstrap n x = (Some q, x') \<longrightarrow> q \<notin> isq x \<and> q \<in> isq x') \<and>
     (\<forall>x q x'. kad_bootstrap n x = (q, x') \<longrightarrow> ids_grow iss isq x x') \<and>
     (\<forall>a x l x'. listen_on n a x = (l, x') \<longrightarrow> ids_grow iss isq x x') \<and>
     (\<forall>t x b x'. subscribe n t x = (b, x') \<longrightarrow> ids_grow iss isq x x') \<and>
     (\<forall>t f x b x'. publish n t f x = (b, x') \<longrightarrow> ids_grow iss isq x x') \<and>
     (\<forall>p x b x'. dial n p x = (b, x') \<longrightarrow> ids_grow iss isq x x') \<and>
     (\<forall>a x. ids_grow iss isq x (act n a x))"

lemma ids_grow_refl [simp]: "ids_grow iss isq x x"
  by (simp add: ids_grow_def)

lemma ids_grow_trans: "ids_grow iss isq x y \<Longrightarrow> ids_grow iss isq y z \<Longrightarrow> ids_grow iss isq x z"
  by (auto simp: ids_grow_def)

lemma net_fresh_request:
  "net_fresh n iss isq \<Longrightarrow> send_request n p f x = (r, x') \<Longrightarrow> r \<notin> iss x \<and> r \<in> iss x' \<and> ids_grow iss isq x x'"
  by (simp add: net_fresh_def)

lemma net_fresh_query:
  "net_fresh n iss isq \<Longrightarrow> get_providers n k x = (q, x') \<Longrightarrow> q \<notin> isq x \<and> q \<in> isq x' \<and> ids_grow iss isq x x'"
  "net_fresh n iss isq \<Longrightarrow> get_closest_peers n p x = (q, x') \<Longrightarrow> q \<notin> isq x \<and> q \<in> isq x' \<and> ids_grow iss isq x x'"
  "net_fresh n iss isq \<Longrightarrow> kad_bootstrap n x = (Some q, x') \<Longrightarrow> q \<notin> isq x \<and> q \<in> isq x'"
  by (simp_all add: net_fresh_def)

lemma net_fresh_grow:
  "net_fresh n iss isq \<Longrightarrow> kad_bootstrap n x = (q, x') \<Longrightarrow> ids_grow iss isq x x'"
  "net_fresh n iss isq \<Longrightarrow> listen_on n a x = (l, x') \<Longrightarrow> ids_grow iss isq x x'"
  "net_fresh n iss isq \<Longrightarrow> subscribe n t x = (b, x') \<Longrightarrow> ids_grow iss isq x x'"
  "net_fresh n iss isq \<Longrightarrow> publish n t d x = (pr, x') \<Longrightarrow> ids_grow iss isq x x'"
  "net_fresh n iss isq \<Longrightarrow> dial n p x = (b, x') \<Longrightarrow> ids_grow iss isq x x'"
  "net_fresh n iss isq \<Longrightarrow> ids_grow iss isq x (act n ac x)"
  by (simp_all add: net_fresh_def)

section \<open>The invariant\<close>

definition one_to_one :: "('k, 'v) hashmap \<Rightarrow> bool" where
  "one_to_one m \<longleftrightarrow> (\<forall>a b v. hm_get m a = Some v \<longrightarrow> hm_get m b = Some v \<longrightarrow> a = b)"

definition names :: "('k, 'v) hashmap \<Rightarrow> 'v \<Rightarrow> bool" where
  "names m v \<longleftrightarrow> (\<exists>k. hm_get m k = Some v)"

definition call_ok :: "state \<Rightarrow> u64 \<Rightarrow> call \<Rightarrow> bool" where
  "call_ok s cid c \<longleftrightarrow>
     in_flight c = names (outbound s) cid \<and> resolving c = names (resolutions s) cid \<and>
     lookup_running c = names (provider_lookups s) cid \<and> \<not> (in_flight c \<and> resolving c) \<and>
     distinct (candidates c) \<and> set (candidates c) \<subseteq> seen_peers c \<and> resolved c \<subseteq> seen_peers c"

definition waits :: "call \<Rightarrow> bool" where
  "waits c \<longleftrightarrow> in_flight c \<or> resolving c \<or> lookup_running c"

definition calls_inv :: "state \<Rightarrow> bool" where
  "calls_inv s \<longleftrightarrow> hm_wf (calls s) \<and>
     one_to_one (outbound s) \<and> one_to_one (resolutions s) \<and> one_to_one (provider_lookups s) \<and>
     (\<forall>cid c. hm_get (calls s) cid = Some c \<longrightarrow> call_ok s cid c)"

definition all_wait_but :: "u64 set \<Rightarrow> state \<Rightarrow> bool" where
  "all_wait_but S s \<longleftrightarrow> (\<forall>cid c. hm_get (calls s) cid = Some c \<longrightarrow> cid \<notin> S \<longrightarrow> waits c)"

text \<open>In how many of the maps a query is entered.\<close>

definition owners :: "state \<Rightarrow> query_id \<Rightarrow> nat" where
  "owners s q =
     of_bool (q \<in> hm_keys (provider_lookups s)) + of_bool (q \<in> hm_keys (resolutions s)) +
     of_bool (q \<in> hm_keys (topic_lookups s)) + of_bool (q \<in> hm_keys (provider_queries s)) +
     of_bool (q \<in> hm_keys (walks s)) + of_bool (q \<in> hm_keys (bootstraps s))"

definition ids_ok :: "('sw \<Rightarrow> request_id set) \<Rightarrow> ('sw \<Rightarrow> query_id set) \<Rightarrow> 'sw world \<Rightarrow> bool" where
  "ids_ok iss isq w \<longleftrightarrow> hm_keys (outbound (w_state w)) \<subseteq> iss (w_net w) \<and>
     (\<forall>q. owners (w_state w) q \<le> 1 \<and> (0 < owners (w_state w) q \<longrightarrow> q \<in> isq (w_net w)))"

section \<open>Ends of calls\<close>

definition is_end :: "event \<Rightarrow> bool" where
  "is_end ev \<longleftrightarrow> ev_type (fst ev) = LP2P_EV_RPC_RESPONSE \<or> ev_type (fst ev) = LP2P_EV_RPC_FAILED"

definition ends :: "event list \<Rightarrow> u64 list" where
  "ends evs = map (\<lambda>ev. ev_id (fst ev)) (filter is_end evs)"

text \<open>How often a call ended, plus one while it is live.\<close>

definition balance :: "'sw world \<Rightarrow> u64 \<Rightarrow> nat" where
  "balance w cid = count_list (ends (w_emitted w)) cid + of_bool (cid \<in> hm_keys (calls (w_state w)))"

lemma ends_append [simp]: "ends (xs @ ys) = ends xs @ ends ys"
  by (simp add: ends_def)

lemma ends_nil [simp]: "ends [] = []"
  by (simp add: ends_def)

lemma is_end_rpc [simp]: "is_end (rpc_failed cid c r, d)" "is_end (rpc_response cid c node, d)"
  by (simp_all add: is_end_def rpc_failed_def rpc_response_def event_new_def)

lemma ends_one: "ends [ev] = (if is_end ev then [ev_id (fst ev)] else [])"
  by (simp add: ends_def)

section \<open>Maps that change\<close>

lemma names_insert: "names (hm_insert k v m) u \<longleftrightarrow> v = u \<or> (\<exists>j. j \<noteq> k \<and> hm_get m j = Some u)"
  by (auto simp: names_def split: if_splits)

lemma names_insert_fresh: "k \<notin> hm_keys m \<Longrightarrow> names (hm_insert k v m) u \<longleftrightarrow> v = u \<or> names m u"
  by (auto simp: names_def map_of_eq_None_iff split: if_splits) (metis map_of_eq_None_iff option.distinct(1))

lemma one_to_one_insert: "one_to_one m \<Longrightarrow> \<not> names m v \<Longrightarrow> one_to_one (hm_insert k v m)"
  by (auto simp: one_to_one_def names_def)

lemma one_to_one_remove: "one_to_one m \<Longrightarrow> one_to_one (hm_remove k m)"
  by (auto simp: one_to_one_def)

lemma names_remove:
  assumes "one_to_one m" and "hm_get m k = Some v"
  shows "names (hm_remove k m) u \<longleftrightarrow> u \<noteq> v \<and> names m u"
  using assms unfolding names_def one_to_one_def
  by (auto split: if_splits) (metis option.inject)

lemma names_keys: "hm_get m k = Some v \<Longrightarrow> names m v"
  by (auto simp: names_def)

section \<open>Attempts keep the invariant\<close>

lemma put_call_simps [simp]:
  "w_net (put_call cid c w) = w_net w" "w_book (put_call cid c w) = w_book w"
  "w_emitted (put_call cid c w) = w_emitted w"
  "w_state (put_call cid c w) = calls_update (hm_insert cid c) (w_state w)"
  by (simp_all add: put_call_def)

lemma drop_call_simps [simp]:
  "w_net (drop_call cid w) = w_net w" "w_book (drop_call cid w) = w_book w"
  "w_emitted (drop_call cid w) = w_emitted w"
  "w_state (drop_call cid w) = calls_update (hm_remove cid) (w_state w)"
  by (simp_all add: drop_call_def)

lemma hm_keys_get: "k \<in> hm_keys m \<longleftrightarrow> hm_get m k \<noteq> None"
  by (simp add: map_of_eq_None_iff)

lemma calls_inv_resolve:
  assumes "calls_inv s" and "hm_get (calls s) cid = Some c" and "\<not> resolving c" and "\<not> in_flight c"
    and "q \<notin> hm_keys (resolutions s)"
    and "distinct (p # rest)" and "set (p # rest) \<subseteq> seen_peers c"
  shows "calls_inv (calls_update (hm_insert cid
      (c\<lparr>resolved := insert p (resolved c), candidates := p # rest, resolving := True\<rparr>))
      (resolutions_update (hm_insert q cid) s))"
proof -
  have ok: "call_ok s cid c" using assms(1,2) by (simp add: calls_inv_def)
  then have "\<not> names (resolutions s) cid" using assms(3) by (simp add: call_ok_def)
  then have "one_to_one (hm_insert q cid (resolutions s))"
    using assms(1) by (intro one_to_one_insert) (simp_all add: calls_inv_def)
  moreover have "names (hm_insert q cid (resolutions s)) u \<longleftrightarrow> cid = u \<or> names (resolutions s) u" for u
    by (rule names_insert_fresh [OF assms(5)])
  ultimately show ?thesis
    using assms(1,4,6,7) ok by (auto simp: calls_inv_def call_ok_def)
qed

lemma calls_inv_send:
  assumes "calls_inv s" and "hm_get (calls s) cid = Some c" and "\<not> resolving c" and "\<not> in_flight c"
    and "r \<notin> hm_keys (outbound s)"
    and "distinct rest" and "set rest \<subseteq> seen_peers c"
  shows "calls_inv (calls_update (hm_insert cid (c\<lparr>candidates := rest, in_flight := True\<rparr>))
      (outbound_update (hm_insert r cid) s))"
proof -
  have ok: "call_ok s cid c" using assms(1,2) by (simp add: calls_inv_def)
  then have "\<not> names (outbound s) cid" using assms(4) by (simp add: call_ok_def)
  then have "one_to_one (hm_insert r cid (outbound s))"
    using assms(1) by (intro one_to_one_insert) (simp_all add: calls_inv_def)
  moreover have "names (hm_insert r cid (outbound s)) u \<longleftrightarrow> cid = u \<or> names (outbound s) u" for u
    by (rule names_insert_fresh [OF assms(5)])
  ultimately show ?thesis
    using assms(1,3,6,7) ok by (auto simp: calls_inv_def call_ok_def)
qed

lemma calls_inv_shared [simp]: "calls_inv (shared_update f s) = calls_inv s"
  by (simp add: calls_inv_def call_ok_def)

lemma all_wait_put: "all_wait_but {cid} s \<Longrightarrow> waits c \<Longrightarrow> all_wait_but {} (calls_update (hm_insert cid c) s)"
  by (auto simp: all_wait_but_def)

lemma owners_simps [simp]:
  "owners (calls_update f1 s) = owners s" "owners (outbound_update f2 s) = owners s"
  "owners (shared_update f3 s) = owners s" "owners (failed_update f4 s) = owners s"
  "owners (last_success_update f5 s) = owners s"
  by (simp_all add: owners_def fun_eq_iff)

lemma ids_ok_request:
  assumes "ids_ok iss isq w" and "r \<in> iss (w_net w')" and "ids_grow iss isq (w_net w) (w_net w')"
    and "hm_keys (outbound (w_state w')) = insert r (hm_keys (outbound (w_state w)))"
    and "owners (w_state w') = owners (w_state w)"
  shows "ids_ok iss isq w'"
  using assms unfolding ids_ok_def ids_grow_def by auto

lemma ids_ok_fresh_query:
  "ids_ok iss isq w \<Longrightarrow> q \<notin> isq (w_net w) \<Longrightarrow> owners (w_state w) q = 0"
  by (auto simp: ids_ok_def)

text \<open>A new query entered into one of the maps.\<close>

lemma ids_ok_query:
  assumes "ids_ok iss isq w" and "q \<notin> isq (w_net w)" and "q \<in> isq (w_net w')" and "ids_grow iss isq (w_net w) (w_net w')"
    and "hm_keys (outbound (w_state w')) = hm_keys (outbound (w_state w))"
    and "owners (w_state w') = (owners (w_state w))(q := 1)"
  shows "ids_ok iss isq w'"
  using assms unfolding ids_ok_def ids_grow_def by (auto simp: fun_upd_apply)

lemma balance_same:
  "w_emitted w' = w_emitted w \<Longrightarrow> hm_keys (calls (w_state w')) = hm_keys (calls (w_state w)) \<Longrightarrow>
   balance w' = balance w"
  by (auto simp: balance_def fun_eq_iff)

text \<open>The four facts that travel through the handlers.\<close>

definition calls_good :: "('sw \<Rightarrow> request_id set) \<Rightarrow> ('sw \<Rightarrow> query_id set) \<Rightarrow> u64 set \<Rightarrow> 'sw world \<Rightarrow> bool" where
  "calls_good iss isq S w \<longleftrightarrow> calls_inv (w_state w) \<and> all_wait_but S (w_state w) \<and> ids_ok iss isq w"

lemma advance_loop_done:
  assumes fresh: "net_fresh n iss isq" and good: "calls_good iss isq {cid} w"
    and call: "hm_get (calls (w_state w)) cid = Some c" "\<not> in_flight c" "\<not> resolving c"
    and cs: "distinct cs" "set cs \<subseteq> seen_peers c"
    and loop: "advance_loop n cid cs c w = (True, w')"
  shows "calls_good iss isq {} w' \<and> balance w' = balance w \<and> ids_grow iss isq (w_net w) (w_net w')"
  using cs loop
proof (induction cs)
  case (Cons p rest)
  have inv: "calls_inv (w_state w)" "all_wait_but {cid} (w_state w)" "ids_ok iss isq w"
    using good by (simp_all add: calls_good_def)
  have keys: "insert cid (hm_keys (calls (w_state w))) = hm_keys (calls (w_state w))"
    using call(1) by (intro insert_absorb) (auto simp: hm_keys_get)
  show ?case
  proof (cases "is_connected n p (w_net w) \<or> knows (w_book w) p")
    case True
    obtain r x where req: "send_request n p (call_frame c) (w_net w) = (r, x)" by fastforce
    note f = net_fresh_request [OF fresh req]
    let ?c = "c\<lparr>candidates := rest, in_flight := True\<rparr>"
    have w': "w' = put_call cid ?c (w_state_update (outbound_update (hm_insert r cid) \<circ>
          shared_update (sh_rpc_out_update (\<lambda>k. k + 1))) (w\<lparr>w_net := x\<rparr>))"
      using True Cons.prems(3) req by simp
    have "r \<notin> hm_keys (outbound (w_state w))" using inv(3) f by (auto simp: ids_ok_def)
    then have "calls_inv (w_state w')"
      using calls_inv_send [of "shared_update (sh_rpc_out_update (\<lambda>k. k + 1)) (w_state w)" cid c r rest]
        inv(1) call Cons.prems(1,2) by (simp add: w')
    moreover have "all_wait_but {} (w_state w')"
      using all_wait_put [of cid "outbound_update (hm_insert r cid)
          (shared_update (sh_rpc_out_update (\<lambda>k. k + 1)) (w_state w))" ?c] inv(2)
      by (simp add: w' waits_def all_wait_but_def)
    moreover have "ids_ok iss isq w'"
      using inv(3) f by (intro ids_ok_request [of iss isq w r w']) (simp_all add: w')
    ultimately show ?thesis using f keys by (simp add: calls_good_def w' balance_def)
  next
    case False
    show ?thesis
    proof (cases "p \<in> resolved c")
      case True
      with False Cons show ?thesis by simp
    next
      case new: False
      obtain q x where req: "get_closest_peers n p (w_net w) = (q, x)" by fastforce
      note f = net_fresh_query(2) [OF fresh req]
      let ?c = "c\<lparr>resolved := insert p (resolved c), candidates := p # rest, resolving := True\<rparr>"
      have w': "w' = put_call cid ?c
          (w_state_update (resolutions_update (hm_insert q cid)) (w\<lparr>w_net := x\<rparr>))"
        using False new Cons.prems(3) req by simp
      have q0: "owners (w_state w) q = 0" using inv(3) f by (intro ids_ok_fresh_query) auto
      then have "q \<notin> hm_keys (resolutions (w_state w))" by (simp add: owners_def split: if_splits)
      then have "calls_inv (w_state w')"
        using calls_inv_resolve [OF inv(1) call(1,3,2) _ Cons.prems(1,2)] by (simp add: w')
      moreover have "all_wait_but {} (w_state w')"
        using all_wait_put [of cid "resolutions_update (hm_insert q cid) (w_state w)" ?c] inv(2)
        by (simp add: w' waits_def all_wait_but_def)
      moreover have "ids_ok iss isq w'"
        using inv(3) f q0 by (intro ids_ok_query [of iss isq w q w']) (auto simp: w' owners_def fun_eq_iff)
      ultimately show ?thesis using f keys by (simp add: calls_good_def w' balance_def)
    qed
  qed
qed simp

lemma advance_loop_failed:
  "advance_loop n cid cs c w = (False, w') \<Longrightarrow> w' = put_call cid (c\<lparr>candidates := []\<rparr>) w"
  by (induction n cid cs c w rule: advance_loop.induct) (auto split: if_splits prod.splits)

lemma call_ok_calls [simp]: "call_ok (calls_update f s) u c = call_ok s u c"
  by (simp add: call_ok_def)

lemma calls_inv_put: "calls_inv s \<Longrightarrow> call_ok s cid c \<Longrightarrow> calls_inv (calls_update (hm_insert cid c) s)"
  by (auto simp: calls_inv_def call_ok_def)

lemma calls_inv_drop: "calls_inv s \<Longrightarrow> calls_inv (calls_update (hm_remove cid) s)"
  by (auto simp: calls_inv_def call_ok_def)

lemma all_wait_drop: "all_wait_but {cid} s \<Longrightarrow> all_wait_but {} (calls_update (hm_remove cid) s)"
  by (auto simp: all_wait_but_def)

lemma all_wait_shared [simp]: "all_wait_but S (shared_update f s) = all_wait_but S s"
  by (simp add: all_wait_but_def)

lemma ids_ok_same:
  "w_net w' = w_net w \<Longrightarrow> outbound (w_state w') = outbound (w_state w) \<Longrightarrow>
   owners (w_state w') = owners (w_state w) \<Longrightarrow> ids_ok iss isq w' = ids_ok iss isq w"
  by (simp add: ids_ok_def)

lemma ids_ok_put [simp]: "ids_ok iss isq (put_call cid c w) = ids_ok iss isq w"
  by (rule ids_ok_same) simp_all

lemma ids_ok_drop [simp]: "ids_ok iss isq (drop_call cid w) = ids_ok iss isq w"
  by (rule ids_ok_same) simp_all

lemma ids_ok_emit [simp]: "ids_ok iss isq (emit n h d w) = ids_ok iss isq w"
  by (rule ids_ok_same) simp_all

lemma calls_good_emit [simp]: "calls_good iss isq S (emit n h d w) = calls_good iss isq S w"
  by (simp add: calls_good_def)

lemma balance_emit:
  "balance (emit n h d w) cid = balance w cid + of_bool (is_end (h, d) \<and> ev_id h = cid)"
  by (simp add: balance_def ends_one)

lemma balance_drop_emit:
  assumes "hm_get (calls (w_state w)) cid \<noteq> None" and "is_end (h, d)" and "ev_id h = cid"
    and "w_emitted w' = w_emitted w" and "calls (w_state w') = hm_remove cid (calls (w_state w))"
  shows "balance (emit n h d w') = balance w"
  using assms by (auto simp: balance_emit fun_eq_iff) (auto simp: balance_def hm_keys_get)

lemma ev_id_rpc [simp]: "ev_id (rpc_failed cid c r) = cid" "ev_id (rpc_response cid c node) = cid"
  by (simp_all add: rpc_failed_def rpc_response_def)

lemma all_wait_absent: "hm_get (calls s) cid = None \<Longrightarrow> all_wait_but {cid} s \<Longrightarrow> all_wait_but {} s"
  unfolding all_wait_but_def by (metis empty_iff insert_iff option.distinct(1))

lemma all_wait_present:
  "hm_get (calls s) cid = Some c \<Longrightarrow> waits c \<Longrightarrow> all_wait_but {cid} s \<Longrightarrow> all_wait_but {} s"
  unfolding all_wait_but_def by (metis empty_iff insert_iff option.inject)

lemma all_wait_maps [simp]:
  "all_wait_but S (outbound_update f s) = all_wait_but S s"
  "all_wait_but S (resolutions_update g s) = all_wait_but S s"
  "all_wait_but S (provider_lookups_update h s) = all_wait_but S s"
  by (simp_all add: all_wait_but_def)

lemma advance_good:
  assumes fresh: "net_fresh n iss isq" and good: "calls_good iss isq {cid} w"
  shows "calls_good iss isq {} (advance n cid w) \<and> balance (advance n cid w) = balance w \<and>
    ids_grow iss isq (w_net w) (w_net (advance n cid w))"
proof (cases "hm_get (calls (w_state w)) cid")
  case None
  with good show ?thesis by (auto simp: advance_def calls_good_def intro: all_wait_absent)
next
  case (Some c)
  have inv: "calls_inv (w_state w)" "all_wait_but {cid} (w_state w)" "ids_ok iss isq w"
    using good by (simp_all add: calls_good_def)
  have ok: "call_ok (w_state w) cid c" using inv(1) Some by (simp add: calls_inv_def)
  show ?thesis
  proof (cases "in_flight c \<or> resolving c")
    case True
    then have "calls_good iss isq {} w"
      using good Some all_wait_present [of "w_state w" cid c] by (auto simp: calls_good_def waits_def)
    with Some True show ?thesis by (simp add: advance_def)
  next
    case idle: False
    obtain b w1 where loop: "advance_loop n cid (candidates c) c w = (b, w1)" by fastforce
    show ?thesis
    proof (cases b)
      case True
      with loop idle Some advance_loop_done [OF fresh good Some, of "candidates c" w1] ok show ?thesis
        by (simp add: advance_def call_ok_def)
    next
      case False
      let ?c = "c\<lparr>candidates := []\<rparr>"
      have w1: "w1 = put_call cid ?c w" using loop False by (intro advance_loop_failed) simp
      have put: "calls_inv (w_state w1)" "all_wait_but {cid} (w_state w1)" "ids_ok iss isq w1"
        using inv ok by (auto simp: w1 call_ok_def all_wait_but_def intro: calls_inv_put)
      have same: "balance w1 = balance w"
        using Some by (intro balance_same) (auto simp: w1 hm_keys_get)
      have live: "hm_get (calls (w_state w1)) cid \<noteq> None" by (simp add: w1)
      show ?thesis
      proof (cases "lookup_running c")
        case True
        then have "all_wait_but {} (w_state w1)"
          using all_wait_put [OF inv(2), of ?c] by (simp add: w1 waits_def)
        with put same loop False True idle Some show ?thesis
          by (simp add: advance_def calls_good_def w1)
      next
        case stop: False
        have "balance (emit n (rpc_failed cid c (last_failure c)) [] (drop_call cid w1)) = balance w"
          using balance_drop_emit [OF live, of _ _ "drop_call cid w1" n] same by simp
        with put loop False stop idle Some show ?thesis
          by (simp add: advance_def calls_good_def calls_inv_drop all_wait_drop, simp add: w1)
      qed
    qed
  qed
qed

section \<open>Handlers keep the invariant\<close>

lemma all_wait_weaken: "all_wait_but {} s \<Longrightarrow> all_wait_but S s"
  by (auto simp: all_wait_but_def)

lemma all_wait_put_but: "all_wait_but {} s \<Longrightarrow> all_wait_but {cid} (calls_update (hm_insert cid c) s)"
  by (auto simp: all_wait_but_def)

lemma calls_inv_memory [simp]:
  "calls_inv (failed_update f s) = calls_inv s" "calls_inv (last_success_update g s) = calls_inv s"
  "all_wait_but S (failed_update f s) = all_wait_but S s"
  "all_wait_but S (last_success_update g s) = all_wait_but S s"
  by (simp_all add: calls_inv_def call_ok_def all_wait_but_def)

lemma remember_failure_simps [simp]:
  "w_net (remember_failure n p w) = w_net w" "w_emitted (remember_failure n p w) = w_emitted w"
  "calls (w_state (remember_failure n p w)) = calls (w_state w)"
  "outbound (w_state (remember_failure n p w)) = outbound (w_state w)"
  "owners (w_state (remember_failure n p w)) = owners (w_state w)"
  "calls_inv (w_state (remember_failure n p w)) = calls_inv (w_state w)"
  "all_wait_but S (w_state (remember_failure n p w)) = all_wait_but S (w_state w)"
  by (simp_all add: remember_failure_def Let_def)

lemma ids_ok_remember [simp]: "ids_ok iss isq (remember_failure n p w) = ids_ok iss isq w"
  by (rule ids_ok_same) simp_all

lemma calls_good_remember [simp]:
  "calls_good iss isq S (remember_failure n p w) = calls_good iss isq S w"
  by (simp add: calls_good_def)

lemma balance_remember [simp]: "balance (remember_failure n p w) = balance w"
  by (intro balance_same) simp_all

text \<open>A request that is answered or failed: its entry goes, and the call is no longer in flight.\<close>

lemma calls_inv_answered:
  assumes "calls_inv s" and "hm_get (outbound s) r = Some cid" and "hm_get (calls s) cid = Some c"
    and "c' = c\<lparr>in_flight := False, last_failure := code\<rparr>"
  shows "calls_inv (calls_update (hm_insert cid c') (outbound_update (hm_remove r) s))"
proof -
  have one: "one_to_one (outbound s)" and ok: "call_ok s cid c" using assms(1,3) by (simp_all add: calls_inv_def)
  note nm = names_remove [OF one assms(2)]
  show ?thesis
    using assms(1,4) ok nm one_to_one_remove [OF one, of r] by (auto simp: calls_inv_def call_ok_def)
qed

lemma calls_inv_unanswered:
  assumes "calls_inv s" and "hm_get (outbound s) r = Some cid" and "hm_get (calls s) cid = None"
  shows "calls_inv (outbound_update (hm_remove r) s)"
proof -
  have one: "one_to_one (outbound s)" using assms(1) by (simp add: calls_inv_def)
  note nm = names_remove [OF one assms(2)]
  have "call_ok (outbound_update (hm_remove r) s) u c" if "hm_get (calls s) u = Some c" for u c
    using assms that nm [of u] by (auto simp: calls_inv_def call_ok_def)
  then show ?thesis
    using assms(1) one_to_one_remove [OF one, of r] by (simp add: calls_inv_def)
qed

lemma calls_inv_finished:
  assumes "calls_inv s" and "hm_get (outbound s) r = Some cid"
  shows "calls_inv (calls_update (hm_remove cid) (outbound_update (hm_remove r) s))"
proof -
  have one: "one_to_one (outbound s)" using assms(1) by (simp add: calls_inv_def)
  note nm = names_remove [OF one assms(2)]
  have "call_ok (outbound_update (hm_remove r) s) u c" if "hm_get (calls s) u = Some c" "u \<noteq> cid" for u c
    using assms that nm [of u] by (auto simp: calls_inv_def call_ok_def)
  then show ?thesis
    using assms(1) one_to_one_remove [OF one, of r] by (auto simp: calls_inv_def)
qed

lemma ids_ok_outbound_remove:
  "ids_ok iss isq w \<Longrightarrow> ids_ok iss isq (w_state_update (outbound_update (hm_remove r)) w)"
  by (auto simp: ids_ok_def)

lemma outbound_failed_good:
  assumes "net_fresh n iss isq" and "calls_good iss isq {} w"
  shows "calls_good iss isq {} (outbound_failed n p r err w) \<and>
    balance (outbound_failed n p r err w) = balance w \<and>
    ids_grow iss isq (w_net w) (w_net (outbound_failed n p r err w))"
proof (cases "hm_get (outbound (w_state w)) r")
  case None
  with assms show ?thesis by (simp add: outbound_failed_def Let_def)
next
  case (Some cid)
  let ?w = "w_state_update (outbound_update (hm_remove r)) (remember_failure n p w)"
  have inv: "calls_inv (w_state (remember_failure n p w))" "all_wait_but {} (w_state (remember_failure n p w))"
    "ids_ok iss isq (remember_failure n p w)"
    using assms(2) by (simp_all add: calls_good_def)
  define w1 where "w1 = (case hm_get (calls (w_state ?w)) cid of None \<Rightarrow> ?w
    | Some c \<Rightarrow> put_call cid (c\<lparr>in_flight := False, last_failure := failure_code err\<rparr>) ?w)"
  have "calls_inv (w_state w1)"
    using calls_inv_answered [OF inv(1), of r cid] calls_inv_unanswered [OF inv(1), of r cid] Some
    by (auto simp: w1_def split: option.splits)
  moreover have "all_wait_but {cid} (w_state w1)"
    using inv(2) by (auto simp: w1_def all_wait_but_def split: option.splits)
  moreover have "ids_ok iss isq w1"
    using ids_ok_outbound_remove [OF inv(3)] by (auto simp: w1_def split: option.splits)
  ultimately have "calls_good iss isq {cid} w1" by (simp add: calls_good_def)
  moreover have "balance w1 = balance w"
    by (intro balance_same) (auto simp: w1_def hm_keys_get split: option.splits)
  moreover have "w_net w1 = w_net w" by (simp add: w1_def split: option.splits)
  moreover have "outbound_failed n p r err w = advance n cid w1"
    using Some by (simp add: outbound_failed_def Let_def w1_def)
  ultimately show ?thesis using advance_good [OF assms(1), of cid w1] by simp
qed

lemma response_good:
  assumes "net_fresh n iss isq" and "calls_good iss isq {} w"
  shows "calls_good iss isq {} (response n p r frame w) \<and>
    balance (response n p r frame w) = balance w \<and>
    ids_grow iss isq (w_net w) (w_net (response n p r frame w))"
proof (cases "hm_get (outbound (w_state w)) r")
  case None
  with assms show ?thesis by (simp add: response_def)
next
  case (Some cid)
  let ?w = "w_state_update (outbound_update (hm_remove r)) w"
  have inv: "calls_inv (w_state w)" "all_wait_but {} (w_state w)" "ids_ok iss isq w"
    using assms(2) by (simp_all add: calls_good_def)
  note ids = ids_ok_outbound_remove [OF inv(3), of r]
  show ?thesis
  proof (cases "hm_get (calls (w_state w)) cid")
    case None
    have "balance ?w = balance w" by (intro balance_same) simp_all
    with None Some inv(2) ids calls_inv_unanswered [OF inv(1) Some None] show ?thesis
      by (simp add: response_def Let_def calls_good_def)
  next
    case call: (Some c)
    note answered = calls_inv_answered [OF inv(1) Some call]
    show ?thesis
    proof (cases "response_ok n p (call_group c) frame (now_ms n (w_net w))")
      case None
      define w1 where "w1 = put_call cid (c\<lparr>in_flight := False, last_failure := LP2P_FAIL_REFUSED\<rparr>) ?w"
      have "calls_inv (w_state w1)" using answered by (simp add: w1_def)
      moreover have "all_wait_but {cid} (w_state w1)" using inv(2) by (auto simp: w1_def all_wait_but_def)
      moreover have "ids_ok iss isq w1" using ids by (simp add: w1_def)
      ultimately have "calls_good iss isq {cid} (remember_failure n p w1)" by (simp add: calls_good_def)
      moreover have "balance w1 = balance w"
        using call by (intro balance_same) (auto simp: w1_def hm_keys_get)
      moreover have "response n p r frame w = advance n cid (remember_failure n p w1)"
        using Some call None by (simp add: response_def Let_def w1_def)
      ultimately show ?thesis using advance_good [OF assms(1), of cid "remember_failure n p w1"]
        by (simp add: w1_def)
    next
      case checked: (Some np)
      obtain node payload where np: "np = (node, payload)" by fastforce
      define w1 where "w1 = w_state_update (last_success_update (\<lambda>m. hm_insert (call_group c) p
          (if hm_len m \<ge> MAX_REMEMBERED then [] else m)) \<circ> failed_update (hm_remove p)) (drop_call cid ?w)"
      have w1: "w_net w1 = w_net w" "w_emitted w1 = w_emitted w"
          "calls (w_state w1) = hm_remove cid (calls (w_state w))"
        by (simp_all add: w1_def)
      have "calls_inv (w_state w1)"
        using calls_inv_finished [OF inv(1) Some] by (simp add: w1_def)
      moreover have "all_wait_but {} (w_state w1)" using inv(2) by (auto simp: w1 all_wait_but_def)
      moreover have "ids_ok iss isq w1"
        using ids ids_ok_same [of w1 ?w] by (simp add: w1_def)
      ultimately have "calls_good iss isq {} w1" by (simp add: calls_good_def)
      moreover have "balance (emit n (rpc_response cid (c\<lparr>in_flight := False\<rparr>) node) payload w1) = balance w"
        using balance_drop_emit [of w cid _ _ w1 n] call w1 by simp
      moreover have "response n p r frame w =
          emit n (rpc_response cid (c\<lparr>in_flight := False\<rparr>) node) payload w1"
        using Some call checked
        by (simp add: response_def Let_def w1_def np drop_call_def comp_def)
      ultimately show ?thesis by (simp add: w1)
    qed
  qed
qed

lemma ids_ok_shrink:
  assumes "ids_ok iss isq w" and "w_net w' = w_net w" and "hm_keys (outbound (w_state w')) \<subseteq> hm_keys (outbound (w_state w))"
    and "\<And>q. owners (w_state w') q \<le> owners (w_state w) q"
  shows "ids_ok iss isq w'"
proof -
  have "owners (w_state w') q \<le> 1 \<and> (0 < owners (w_state w') q \<longrightarrow> q \<in> isq (w_net w'))" for q
    using assms(1,2) assms(4) [of q] by (auto simp: ids_ok_def intro: le_trans)
  then show ?thesis using assms(1,2,3) by (auto simp: ids_ok_def)
qed

lemma owners_remove:
  "owners (provider_lookups_update (hm_remove k) s) q \<le> owners s q"
  "owners (resolutions_update (hm_remove k) s) q \<le> owners s q"
  by (simp_all add: owners_def)

text \<open>A lookup that reports: the call's queue may grow, and the last report ends the lookup.\<close>

lemma calls_inv_lookup_ended:
  assumes "calls_inv s" and "hm_get (provider_lookups s) q = Some cid" and "hm_get (calls s) cid = Some c"
    and "in_flight c' = in_flight c" and "resolving c' = resolving c" and "resolved c' = resolved c"
    and "\<not> lookup_running c'"
    and "distinct (candidates c')" and "set (candidates c') \<subseteq> seen_peers c'" and "seen_peers c \<subseteq> seen_peers c'"
  shows "calls_inv (calls_update (hm_insert cid c') (provider_lookups_update (hm_remove q) s))"
proof -
  let ?s = "provider_lookups_update (hm_remove q) s"
  have one: "one_to_one (provider_lookups s)" and ok: "call_ok s cid c" using assms(1,3) by (simp_all add: calls_inv_def)
  note nm = names_remove [OF one assms(2)]
  have "call_ok ?s cid c'" using assms(4-) ok nm [of cid] by (auto simp: call_ok_def)
  moreover have "call_ok ?s u d" if "hm_get (calls s) u = Some d" "u \<noteq> cid" for u d
    using assms(1) that nm [of u] by (auto simp: calls_inv_def call_ok_def)
  ultimately show ?thesis
    using assms(1) one_to_one_remove [OF one, of q] by (auto simp: calls_inv_def)
qed

lemma calls_inv_lookup_orphan:
  assumes "calls_inv s" and "hm_get (provider_lookups s) q = Some cid" and "hm_get (calls s) cid = None"
  shows "calls_inv (provider_lookups_update (hm_remove q) s)"
proof -
  let ?s = "provider_lookups_update (hm_remove q) s"
  have one: "one_to_one (provider_lookups s)" using assms(1) by (simp add: calls_inv_def)
  have "call_ok ?s u d" if "hm_get (calls s) u = Some d" for u d
    using assms that names_remove [OF one assms(2), of u] by (auto simp: calls_inv_def call_ok_def)
  then show ?thesis using assms(1) one_to_one_remove [OF one, of q] by (simp add: calls_inv_def)
qed

lemma provider_lookups_calls:
  "provider_lookups_update f (calls_update g s) = calls_update g (provider_lookups_update f s)"
  by simp

lemma call_providers_good:
  assumes "net_fresh n iss isq" and "calls_good iss isq {} w"
  shows "calls_good iss isq {} (call_providers n q result is_last w) \<and>
    balance (call_providers n q result is_last w) = balance w \<and>
    ids_grow iss isq (w_net w) (w_net (call_providers n q result is_last w))"
proof (cases "hm_get (provider_lookups (w_state w)) q")
  case None
  with assms show ?thesis by (simp add: call_providers_def)
next
  case (Some cid)
  let ?s = "w_state w"
  have inv: "calls_inv ?s" "all_wait_but {} ?s" "ids_ok iss isq w"
    using assms(2) by (simp_all add: calls_good_def)
  define grown where "grown c = (case result of FoundProviders providers \<Rightarrow>
      fold (enqueue (instant_now n (w_net w)) (last_success ?s) (failed ?s))
        (filter (\<lambda>p. p \<noteq> local_peer ?s) providers) c | NoProviders \<Rightarrow> c)" for c
  define w1 where "w1 = (case hm_get (calls ?s) cid of None \<Rightarrow> w
    | Some c \<Rightarrow> put_call cid (if is_last then (grown c)\<lparr>lookup_running := False\<rparr> else grown c) w)"
  define w2 where "w2 = (if is_last then w_state_update (provider_lookups_update (hm_remove q)) w1 else w1)"
  have grown: "in_flight (grown c) = in_flight c" "resolving (grown c) = resolving c"
      "resolved (grown c) = resolved c" "lookup_running (grown c) = lookup_running c"
      "seen_peers c \<subseteq> seen_peers (grown c)" for c
    by (auto simp: grown_def split: get_providers_result.splits)
  have cand: "distinct (candidates (grown c)) \<and> set (candidates (grown c)) \<subseteq> seen_peers (grown c)"
    if "hm_get (calls ?s) cid = Some c" for c
  proof -
    have c: "distinct (candidates c)" "set (candidates c) \<subseteq> seen_peers c"
      using inv(1) that by (auto simp: calls_inv_def call_ok_def)
    show ?thesis
    proof (cases result)
      case (FoundProviders ps)
      show ?thesis
        using candidates_fold_enqueue [OF c] by (simp only: FoundProviders grown_def
            get_providers_result.case fold_enqueue_fields simp_thms)
    next
      case NoProviders
      with c show ?thesis by (simp add: grown_def)
    qed
  qed
  have "calls_inv (w_state w2)"
  proof (cases "hm_get (calls ?s) cid")
    case None
    then show ?thesis using inv(1) calls_inv_lookup_orphan [OF inv(1) Some] by (simp add: w2_def w1_def)
  next
    case call: (Some c)
    have ok: "call_ok ?s cid c" using inv(1) call by (simp add: calls_inv_def)
    show ?thesis
    proof (cases is_last)
      case True
      then show ?thesis
        using calls_inv_lookup_ended [OF inv(1) Some call, of "(grown c)\<lparr>lookup_running := False\<rparr>"]
          grown [of c] cand [OF call] call by (simp add: w2_def w1_def provider_lookups_calls)
    next
      case False
      have "call_ok ?s cid (grown c)" using ok grown [of c] cand [OF call] by (auto simp: call_ok_def)
      with False call calls_inv_put [OF inv(1)] show ?thesis by (simp add: w2_def w1_def)
    qed
  qed
  moreover have "all_wait_but {cid} (w_state w2)"
    using all_wait_put_but [OF inv(2)] all_wait_weaken [OF inv(2)]
    by (simp add: w2_def w1_def split: option.splits)
  moreover have "ids_ok iss isq w2"
    by (rule ids_ok_shrink [OF inv(3)])
      (simp_all add: w2_def w1_def owners_remove(1) split: option.splits,
        metis owners_remove(1) owners_simps(1))
  ultimately have good: "calls_good iss isq {cid} w2" by (simp add: calls_good_def)
  have same: "balance w2 = balance w" "w_net w2 = w_net w"
    by (intro balance_same) (auto simp: w2_def w1_def hm_keys_get split: option.splits)
  have "call_providers n q result is_last w = advance n cid w2"
    using Some by (simp add: call_providers_def Let_def w2_def w1_def grown_def split: option.split)
  with advance_good [OF assms(1) good] same show ?thesis by simp
qed

lemma calls_inv_resolved:
  assumes "calls_inv s" and "hm_get (resolutions s) q = Some cid"
  shows "calls_inv (case hm_get (calls s) cid of
      None \<Rightarrow> resolutions_update (hm_remove q) s
    | Some c \<Rightarrow> calls_update (hm_insert cid (c\<lparr>resolving := False\<rparr>)) (resolutions_update (hm_remove q) s))"
proof -
  let ?s = "resolutions_update (hm_remove q) s"
  have one: "one_to_one (resolutions s)" using assms(1) by (simp add: calls_inv_def)
  note nm = names_remove [OF one assms(2)]
  have others: "call_ok ?s u d" if "hm_get (calls s) u = Some d" "u \<noteq> cid" for u d
    using assms(1) that nm [of u] by (auto simp: calls_inv_def call_ok_def)
  have self: "call_ok ?s cid (c\<lparr>resolving := False\<rparr>)" if "hm_get (calls s) cid = Some c" for c
    using assms(1) that nm [of cid] by (auto simp: calls_inv_def call_ok_def)
  show ?thesis
  proof (cases "hm_get (calls s) cid")
    case None
    have "\<forall>u d. hm_get (calls s) u = Some d \<longrightarrow> call_ok ?s u d"
      using others None by (metis option.distinct(1))
    with None assms(1) one_to_one_remove [OF one, of q] show ?thesis by (simp add: calls_inv_def)
  next
    case (Some c)
    with assms(1) one_to_one_remove [OF one, of q] self others show ?thesis
      by (auto simp: calls_inv_def)
  qed
qed

lemma resolution_done_good:
  assumes "net_fresh n iss isq" and "calls_good iss isq {} w" and "hm_get (resolutions (w_state w)) q = Some cid"
  defines "w0 \<equiv> w_state_update (resolutions_update (hm_remove q)) w"
  shows "calls_good iss isq {} (resolution_done n cid w0) \<and>
    balance (resolution_done n cid w0) = balance w \<and>
    ids_grow iss isq (w_net w) (w_net (resolution_done n cid w0))"
proof -
  have inv: "calls_inv (w_state w)" "all_wait_but {} (w_state w)" "ids_ok iss isq w"
    using assms(2) by (simp_all add: calls_good_def)
  define w1 where "w1 = (case hm_get (calls (w_state w0)) cid of None \<Rightarrow> w0
    | Some c \<Rightarrow> put_call cid (c\<lparr>resolving := False\<rparr>) w0)"
  have "calls_inv (w_state w1)"
    using calls_inv_resolved [OF inv(1) assms(3)] by (simp add: w1_def w0_def split: option.splits)
  moreover have "all_wait_but {cid} (w_state w1)"
    using all_wait_put_but [of "resolutions_update (hm_remove q) (w_state w)" cid] all_wait_weaken [OF inv(2)] inv(2)
    by (simp add: w1_def w0_def split: option.splits)
  moreover have "ids_ok iss isq w1"
    by (rule ids_ok_shrink [OF inv(3)]) (simp_all add: w1_def w0_def owners_remove split: option.splits)
  ultimately have good: "calls_good iss isq {cid} w1" by (simp add: calls_good_def)
  have same: "balance w1 = balance w" "w_net w1 = w_net w"
    by (intro balance_same) (auto simp: w1_def w0_def hm_keys_get split: option.splits)
  have "resolution_done n cid w0 = advance n cid w1"
    by (simp add: resolution_done_def w1_def split: option.splits)
  with advance_good [OF assms(1) good] same show ?thesis by simp
qed

section \<open>Expiry and new calls\<close>

lemma expire_one_good:
  assumes "calls_good iss isq {} w"
  shows "calls_good iss isq {} (expire_one n cid w) \<and> balance (expire_one n cid w) = balance w \<and>
    w_net (expire_one n cid w) = w_net w"
proof (cases "hm_get (calls (w_state w)) cid")
  case None
  with assms show ?thesis by (simp add: expire_one_def)
next
  case (Some c)
  have "all_wait_but {} (calls_update (hm_remove cid) (w_state w))"
    using assms by (auto simp: calls_good_def all_wait_but_def)
  with assms have "calls_good iss isq {} (drop_call cid w)"
    by (simp add: calls_good_def calls_inv_drop)
  moreover have "balance (emit n (rpc_failed cid c LP2P_FAIL_TIMEOUT) [] (drop_call cid w)) = balance w"
    using Some by (intro balance_drop_emit) simp_all
  ultimately show ?thesis using Some by (simp add: expire_one_def)
qed

lemma fold_expire_good:
  "calls_good iss isq {} w \<Longrightarrow>
   calls_good iss isq {} (fold (expire_one n) ids w) \<and> balance (fold (expire_one n) ids w) = balance w \<and>
   w_net (fold (expire_one n) ids w) = w_net w"
proof (induction ids arbitrary: w)
  case (Cons i ids)
  from expire_one_good [OF Cons.prems, of n i] Cons.IH [of "expire_one n i w"] show ?case by simp
qed simp

lemma expire_calls_good:
  "calls_good iss isq {} w \<Longrightarrow>
   calls_good iss isq {} (expire_calls n now w) \<and> balance (expire_calls n now w) = balance w \<and>
   w_net (expire_calls n now w) = w_net w"
  by (simp add: expire_calls_def fold_expire_good)

text \<open>An identifier nothing in the state refers to.\<close>

definition call_id_unused :: "state \<Rightarrow> u64 \<Rightarrow> bool" where
  "call_id_unused s cid \<longleftrightarrow> hm_get (calls s) cid = None \<and> \<not> names (outbound s) cid \<and>
     \<not> names (resolutions s) cid \<and> \<not> names (provider_lookups s) cid"

lemma balance_put_new:
  "hm_get (calls (w_state w)) cid = None \<Longrightarrow> w_emitted w' = w_emitted w \<Longrightarrow>
   calls (w_state w') = hm_insert cid c (calls (w_state w)) \<Longrightarrow>
   balance w' = (balance w)(cid := Suc (balance w cid))"
  by (auto simp: balance_def fun_eq_iff map_of_eq_None_iff)

lemma advance_new_call:
  assumes "net_fresh n iss isq" and "calls_good iss isq {} w" and "call_id_unused (w_state w) cid"
    and "\<not> in_flight c" and "\<not> resolving c" and "\<not> lookup_running c"
    and "distinct (candidates c)" and "set (candidates c) \<subseteq> seen_peers c" and "resolved c \<subseteq> seen_peers c"
  shows "calls_good iss isq {} (advance n cid (put_call cid c w)) \<and>
    balance (advance n cid (put_call cid c w)) = (balance w)(cid := Suc (balance w cid)) \<and>
    ids_grow iss isq (w_net w) (w_net (advance n cid (put_call cid c w)))"
proof -
  have "call_ok (w_state w) cid c"
    using assms(3-) by (auto simp: call_ok_def call_id_unused_def)
  then have "calls_good iss isq {cid} (put_call cid c w)"
    using assms(2) by (auto simp: calls_good_def all_wait_but_def intro: calls_inv_put)
  from advance_good [OF assms(1) this] balance_put_new [of w cid "put_call cid c w" c] assms(3)
  show ?thesis by (simp add: call_id_unused_def)
qed

lemma calls_inv_lookup:
  assumes "calls_inv s" and "call_id_unused s cid" and "q \<notin> hm_keys (provider_lookups s)"
    and "\<not> in_flight c" and "\<not> resolving c" and "lookup_running c" and "candidates c = []" and "resolved c = {}"
  shows "calls_inv (calls_update (hm_insert cid c) (provider_lookups_update (hm_insert q cid) s))"
proof -
  let ?s = "provider_lookups_update (hm_insert q cid) s"
  note nm = names_insert_fresh [OF assms(3), of cid]
  have "call_ok ?s cid c" using assms(2,4-) nm [of cid] by (simp add: call_ok_def call_id_unused_def)
  moreover have "call_ok ?s u d" if "hm_get (calls s) u = Some d" "u \<noteq> cid" for u d
    using assms(1) that nm [of u] by (auto simp: calls_inv_def call_ok_def)
  moreover have "one_to_one (hm_insert q cid (provider_lookups s))"
    using assms(1,2) by (intro one_to_one_insert) (simp_all add: calls_inv_def call_id_unused_def)
  ultimately show ?thesis using assms(1) by (auto simp: calls_inv_def)
qed

lemma advance_new_lookup:
  assumes "net_fresh n iss isq" and "calls_good iss isq {} w" and "call_id_unused (w_state w) cid"
    and "get_providers n k (w_net w) = (q, x)"
    and "\<not> in_flight c" and "\<not> resolving c" and "lookup_running c" and "candidates c = []" and "resolved c = {}"
  defines "w1 \<equiv> put_call cid c (w_state_update (provider_lookups_update (hm_insert q cid)) (w\<lparr>w_net := x\<rparr>))"
  shows "calls_good iss isq {} (advance n cid w1) \<and>
    balance (advance n cid w1) = (balance w)(cid := Suc (balance w cid)) \<and>
    ids_grow iss isq (w_net w) (w_net (advance n cid w1))"
proof -
  note f = net_fresh_query(1) [OF assms(1,4)]
  have inv: "calls_inv (w_state w)" "all_wait_but {} (w_state w)" "ids_ok iss isq w"
    using assms(2) by (simp_all add: calls_good_def)
  have q0: "owners (w_state w) q = 0" using inv(3) f by (intro ids_ok_fresh_query) auto
  then have new: "q \<notin> hm_keys (provider_lookups (w_state w))" by (simp add: owners_def split: if_splits)
  have "calls_inv (w_state w1)"
    using calls_inv_lookup [OF inv(1) assms(3) new assms(5-9)] by (simp add: w1_def)
  moreover have "all_wait_but {cid} (w_state w1)"
    using inv(2) by (auto simp: w1_def all_wait_but_def)
  moreover have "ids_ok iss isq w1"
    using inv(3) f q0 by (intro ids_ok_query [of iss isq w q w1]) (auto simp: w1_def owners_def fun_eq_iff)
  ultimately have "calls_good iss isq {cid} w1" by (simp add: calls_good_def)
  moreover have "balance w1 = (balance w)(cid := Suc (balance w cid))"
    using assms(3) by (intro balance_put_new) (simp_all add: w1_def call_id_unused_def)
  moreover have "ids_grow iss isq (w_net w) (w_net w1)" using f by (simp add: w1_def)
  ultimately show ?thesis using advance_good [OF assms(1), of cid w1] ids_grow_trans by fastforce
qed

lemma start_call_good:
  assumes "net_fresh n iss isq" and "calls_good iss isq {} w" and "call_id_unused (w_state w) cid"
    and "start_call n cid grp node protocol payload timeout w = Some w'"
  shows "calls_good iss isq {} w' \<and> balance w' = (balance w)(cid := Suc (balance w cid)) \<and>
    ids_grow iss isq (w_net w) (w_net w')"
proof -
  let ?c = "call_new n grp protocol payload timeout w"
  have c: "\<not> in_flight ?c" "\<not> resolving ?c" "\<not> lookup_running ?c" "candidates ?c = []" "resolved ?c = {}"
    by (simp_all add: call_new_def)
  show ?thesis
  proof (cases node)
    case None
    obtain q x where req: "get_providers n (provider_key (n_crypto n) grp) (w_net w) = (q, x)" by fastforce
    have "w' = advance n cid (put_call cid (?c\<lparr>lookup_running := True\<rparr>)
        (w_state_update (provider_lookups_update (hm_insert q cid)) (w\<lparr>w_net := x\<rparr>)))"
      using assms(4) None req by (simp add: start_call_def Let_def split: if_splits)
    with advance_new_lookup [OF assms(1-3) req, of "?c\<lparr>lookup_running := True\<rparr>"] c show ?thesis by simp
  next
    case (Some key)
    show ?thesis
    proof (cases "peer_id (n_crypto n) key")
      case None
      with Some assms(4) have "w' = advance n cid (put_call cid ?c w)"
        by (simp add: start_call_def Let_def split: if_splits)
      with advance_new_call [OF assms(1-3), of ?c] c show ?thesis by simp
    next
      case peer: (Some p)
      with Some assms(4) have "w' = advance n cid (put_call cid (?c\<lparr>seen_peers := {p}, candidates := [p]\<rparr>) w)"
        by (simp add: start_call_def Let_def split: if_splits)
      with advance_new_call [OF assms(1-3), of "?c\<lparr>seen_peers := {p}, candidates := [p]\<rparr>"] c show ?thesis by simp
    qed
  qed
qed

end
