(* ===== verification/NodeInvariant.thy ===== *)
theory NodeInvariant
  imports Loop CallInvariant
begin

text \<open>
  The call invariant over everything the node does: handlers that have nothing to do with calls are
  \<open>quiet\<close> -- they leave calls and their ends alone and enter only new query identifiers --, the others
  keep the invariant by the lemmas on calls. Together: every turn of the main loop keeps it.
\<close>

section \<open>Quiet steps\<close>

abbreviation next_call_id :: "'sw world \<Rightarrow> u64" where
  "next_call_id w \<equiv> sh_next_id (shared (w_state w))"

definition quiet ::
  "('sw \<Rightarrow> request_id set) \<Rightarrow> ('sw \<Rightarrow> query_id set) \<Rightarrow> 'sw world \<Rightarrow> 'sw world \<Rightarrow> bool" where
  "quiet iss isq w w' \<longleftrightarrow>
     calls (w_state w') = calls (w_state w) \<and> outbound (w_state w') = outbound (w_state w) \<and>
     provider_lookups (w_state w') = provider_lookups (w_state w) \<and>
     resolutions (w_state w') = resolutions (w_state w) \<and>
     ends (w_emitted w') = ends (w_emitted w) \<and> next_call_id w' = next_call_id w \<and> ids_grow iss isq (w_net w) (w_net w') \<and>
     (ids_ok iss isq w \<longrightarrow> ids_ok iss isq w')"

definition keeps :: "(state \<Rightarrow> state) \<Rightarrow> bool" where
  "keeps f \<longleftrightarrow> (\<forall>s. calls (f s) = calls s \<and> outbound (f s) = outbound s \<and>
     provider_lookups (f s) = provider_lookups s \<and> resolutions (f s) = resolutions s \<and>
     sh_next_id (shared (f s)) = sh_next_id (shared s) \<and> (\<forall>q. owners (f s) q \<le> owners s q))"

named_theorems quiet_intros \<open>steps that leave the calls alone\<close>

lemma quiet_good:
  "quiet iss isq w w' \<Longrightarrow> calls_good iss isq S w \<Longrightarrow> calls_good iss isq S w'"
  by (auto simp: quiet_def calls_good_def calls_inv_def call_ok_def all_wait_but_def)

lemma quiet_balance: "quiet iss isq w w' \<Longrightarrow> balance w' = balance w"
  by (simp add: quiet_def balance_def fun_eq_iff)

lemma quiet_grow: "quiet iss isq w w' \<Longrightarrow> ids_grow iss isq (w_net w) (w_net w')"
  by (simp add: quiet_def)

lemma quiet_refl [quiet_intros]: "quiet iss isq w w"
  by (simp add: quiet_def)

lemma quiet_trans: "quiet iss isq w w1 \<Longrightarrow> quiet iss isq w1 w2 \<Longrightarrow> quiet iss isq w w2"
  by (auto simp: quiet_def intro: ids_grow_trans)

lemma quiet_emit_event: "\<not> is_end (h, d) \<Longrightarrow> quiet iss isq w (emit n h d w)"
  by (simp add: quiet_def ends_one)

lemma quiet_emit [quiet_intros]:
  "\<not> is_end (h, d) \<Longrightarrow> quiet iss isq w w1 \<Longrightarrow> quiet iss isq w (emit n h d w1)"
  by (rule quiet_trans [OF _ quiet_emit_event])

lemma quiet_net:
  assumes "ids_grow iss isq (w_net w) x"
  shows "quiet iss isq w (w\<lparr>w_net := x\<rparr>)"
proof -
  have "ids_ok iss isq (w\<lparr>w_net := x\<rparr>)" if "ids_ok iss isq w"
    using that assms by (auto simp: ids_ok_def ids_grow_def)
  with assms show ?thesis by (simp add: quiet_def)
qed

lemma quiet_do_act [quiet_intros]:
  "net_fresh n iss isq \<Longrightarrow> quiet iss isq w w1 \<Longrightarrow> quiet iss isq w (do_act n a w1)"
  unfolding do_act_def by (rule quiet_trans [OF _ quiet_net]) (simp_all add: net_fresh_grow)

lemma quiet_upd:
  assumes "keeps f"
  shows "quiet iss isq w (w_state_update f w)"
proof -
  have "ids_ok iss isq (w_state_update f w)" if "ids_ok iss isq w"
    using assms by (intro ids_ok_shrink [OF that]) (simp_all add: keeps_def)
  with assms show ?thesis by (simp add: quiet_def keeps_def)
qed

lemma quiet_state [quiet_intros]:
  "keeps f \<Longrightarrow> quiet iss isq w w1 \<Longrightarrow> quiet iss isq w (w_state_update f w1)"
  by (rule quiet_trans [OF _ quiet_upd])

lemma quiet_book [quiet_intros]: "quiet iss isq w w1 \<Longrightarrow> quiet iss isq w (w1\<lparr>w_book := b\<rparr>)"
  by (simp add: quiet_def ids_ok_same [of "w1\<lparr>w_book := b\<rparr>" w1])

lemma quiet_fold:
  "(\<And>x w. quiet iss isq w (f x w)) \<Longrightarrow> quiet iss isq w (fold f xs w)"
  by (induction xs arbitrary: w) (auto intro: quiet_intros quiet_trans)

text \<open>A query that libp2p just named, entered into one map.\<close>

lemma quiet_query:
  assumes "net_fresh n iss isq" and "get_providers n k (w_net w) = (q, x)"
  shows "quiet iss isq w (w_state_update (topic_lookups_update (hm_insert q v)) (w\<lparr>w_net := x\<rparr>))"
    and "quiet iss isq w (w_state_update (provider_queries_update (hm_insert q u)) (w\<lparr>w_net := x\<rparr>))"
proof -
  note f = net_fresh_query(1) [OF assms]
  have o: "owners (w_state w) q = 0" if "ids_ok iss isq w" using that f by (simp add: ids_ok_fresh_query)
  have "ids_ok iss isq (w_state_update (topic_lookups_update (hm_insert q v)) (w\<lparr>w_net := x\<rparr>))"
    if "ids_ok iss isq w"
    using f o [OF that] by (intro ids_ok_query [OF that, of q]) (auto simp: owners_def fun_eq_iff)
  with f show "quiet iss isq w (w_state_update (topic_lookups_update (hm_insert q v)) (w\<lparr>w_net := x\<rparr>))"
    by (simp add: quiet_def)
  have "ids_ok iss isq (w_state_update (provider_queries_update (hm_insert q u)) (w\<lparr>w_net := x\<rparr>))"
    if "ids_ok iss isq w"
    using f o [OF that] by (intro ids_ok_query [OF that, of q]) (auto simp: owners_def fun_eq_iff)
  with f show "quiet iss isq w (w_state_update (provider_queries_update (hm_insert q u)) (w\<lparr>w_net := x\<rparr>))"
    by (simp add: quiet_def)
qed

lemma quiet_walk:
  assumes "net_fresh n iss isq" and "get_closest_peers n p (w_net w) = (q, x)"
  shows "quiet iss isq w (w_state_update (walks_update (hm_insert q u)) (w\<lparr>w_net := x\<rparr>))"
proof -
  note f = net_fresh_query(2) [OF assms]
  have "ids_ok iss isq (w_state_update (walks_update (hm_insert q u)) (w\<lparr>w_net := x\<rparr>))"
    if "ids_ok iss isq w"
    using f ids_ok_fresh_query [OF that, of q]
    by (intro ids_ok_query [OF that, of q]) (auto simp: owners_def fun_eq_iff)
  with f show ?thesis by (simp add: quiet_def)
qed

lemma quiet_bootstrap:
  assumes "net_fresh n iss isq" and "kad_bootstrap n (w_net w) = (Some q, x)"
  shows "quiet iss isq w (w_state_update (bootstraps_update (hm_insert q u)) (w\<lparr>w_net := x\<rparr>))"
proof -
  note f = net_fresh_query(3) [OF assms] net_fresh_grow(1) [OF assms]
  have "ids_ok iss isq (w_state_update (bootstraps_update (hm_insert q u)) (w\<lparr>w_net := x\<rparr>))"
    if "ids_ok iss isq w"
    using f ids_ok_fresh_query [OF that, of q]
    by (intro ids_ok_query [OF that, of q]) (auto simp: owners_def fun_eq_iff)
  with f show ?thesis by (simp add: quiet_def)
qed

section \<open>Updates that concern no call\<close>

lemma keeps_fields [quiet_intros]:
  "keeps (topics_update f1)"
  "keeps (topic_keys_update f2)"
  "keeps (s_limits_update f3)"
  "keeps (announce_rate_update f4)"
  "keeps (announce_payload_update f5)"
  "keeps (announce_published_update f6)"
  "keeps (reservations_update f7)"
  "keeps (relay_failed_update f8)"
  "keeps (relay_candidates_update f9)"
  "keeps (s_reachability_update f10)"
  "keeps (provide_due_update f11)"
  "keeps (last_provide_update f12)"
  "keeps (listening_update f13)"
  "keeps (s_connections_update f14)"
  "keeps (peer_ips_update f15)"
  "keeps (dialed_update f16)"
  "keeps (sample_offset_update f17)"
  "keeps (last_sweep_update f18)"
  "keeps (inbound_update f19)"
  "keeps (inbound_ids_update f20)"
  by (simp_all add: keeps_def owners_def)

lemma keeps_shared [quiet_intros]: "(\<And>sh. sh_next_id (f sh) = sh_next_id sh) \<Longrightarrow> keeps (shared_update f)"
  by (simp add: keeps_def)

lemma keeps_remove [quiet_intros]:
  "keeps (topic_lookups_update (hm_remove q))" "keeps (provider_queries_update (hm_remove q))"
  "keeps (walks_update (hm_remove q))" "keeps (bootstraps_update (hm_remove q))"
  by (simp_all add: keeps_def owners_def)

lemma keeps_comp [quiet_intros]: "keeps f \<Longrightarrow> keeps g \<Longrightarrow> keeps (f \<circ> g)"
  unfolding keeps_def comp_def by (metis le_trans)

lemma is_end_iff [simp]: "is_end (h, d) \<longleftrightarrow> ev_type h = 6 \<or> ev_type h = 7"
  by (simp add: is_end_def event_type_defs)

lemma ev_type_new [simp]: "ev_type (event_new k) = k"
  by (simp add: event_new_def)

lemmas quiet_simps = Let_def event_type_defs

section \<open>Topics and announcements\<close>

lemma quiet_announce:
  assumes "net_fresh n iss isq"
  shows "quiet iss isq w (announce n w)"
  using net_fresh_grow(4) [OF assms]
  by (auto simp: announce_def quiet_simps split: option.splits prod.splits if_splits
      intro!: quiet_intros intro: quiet_net)

lemma quiet_topic_lookup:
  assumes "net_fresh n iss isq"
  shows "quiet iss isq w (topic_lookup n key w)"
proof -
  obtain q x where req: "get_providers n (provider_key (n_crypto n) key) (w_net w) = (q, x)" by fastforce
  note asked = quiet_query(1) [OF assms req, of key]
  from asked quiet_state [OF keeps_fields(1) asked] show ?thesis
    by (simp add: topic_lookup_def quiet_simps req split: option.splits)
qed

lemma quiet_topic_count: "quiet iss isq w (store_topic_count w)"
  unfolding store_topic_count_def by (intro quiet_upd) (simp add: keeps_def owners_def)

lemma quiet_topic_subscribe:
  assumes "net_fresh n iss isq"
  shows "quiet iss isq w (topic_subscribe n key w)"
proof -
  obtain ok x where sub: "subscribe n (topic_name key) (w_net w) = (ok, x)" by fastforce
  let ?w = "w_state_update (topics_update (hm_insert key \<lparr>ts_topic = topic_name key, ts_last_lookup = None\<rparr>) \<circ>
      topic_keys_update (hm_insert (topic_name key) key)) (w\<lparr>w_net := x\<rparr>)"
  have net: "quiet iss isq w (w\<lparr>w_net := x\<rparr>)"
    by (rule quiet_net) (rule net_fresh_grow(3) [OF assms sub])
  then have "quiet iss isq w ?w" by (intro quiet_intros)
  then have "quiet iss isq w (store_topic_count ?w)" by (rule quiet_trans [OF _ quiet_topic_count])
  then have "quiet iss isq w (topic_lookup n key
      (do_act n (StartProviding (provider_key (n_crypto n) key)) (store_topic_count ?w)))"
    by (intro quiet_trans [OF _ quiet_topic_lookup] quiet_intros assms)
  with net show ?thesis by (simp add: topic_subscribe_def quiet_simps sub quiet_refl)
qed

lemma quiet_topic_unsubscribe:
  assumes "net_fresh n iss isq"
  shows "quiet iss isq w (topic_unsubscribe n key w)"
  using assms
  by (auto simp: topic_unsubscribe_def quiet_simps split: option.splits
      intro!: quiet_trans [OF _ quiet_topic_count] quiet_intros)

lemma quiet_dial_loop:
  assumes "net_fresh n iss isq"
  shows "quiet iss isq w (dial_loop n k ps w)"
proof (induction ps arbitrary: k w)
  case (Cons p ps)
  obtain ok x where d: "dial n p (w_net w) = (ok, x)" by fastforce
  have "quiet iss isq w (w\<lparr>w_net := x\<rparr>)" by (rule quiet_net) (rule net_fresh_grow(5) [OF assms d])
  with Cons show ?case by (auto simp: d intro: quiet_refl quiet_trans)
qed (simp add: quiet_refl)

lemma quiet_topic_publish:
  assumes "net_fresh n iss isq"
  shows "quiet iss isq w (topic_publish n key payload w)"
  using net_fresh_grow(4) [OF assms]
  by (auto simp: topic_publish_def quiet_simps split: option.splits prod.splits
      intro!: quiet_intros intro: quiet_net)

lemma quiet_report_limited: "quiet iss isq w w1 \<Longrightarrow> quiet iss isq w (report_limited n grp node protocol reason now w1)"
  by (auto simp: report_limited_def limited_event_def quiet_simps split: prod.splits intro!: quiet_intros)

lemma quiet_topic_message: "quiet iss isq w (snd (topic_message n p m w))"
  by (auto simp: topic_message_def quiet_simps split: option.splits prod.splits sum.splits
      intro!: quiet_intros quiet_report_limited)

lemma quiet_announcement_message: "quiet iss isq w (snd (announcement_message n m w))"
  by (auto simp: announcement_message_def quiet_simps split: option.splits prod.splits
      intro!: quiet_intros)

lemma quiet_gossipsub_event:
  assumes "net_fresh n iss isq"
  shows "quiet iss isq w (gossipsub_event n ev w)"
proof (cases ev)
  case (Message p i m)
  then show ?thesis
    using quiet_topic_message [of iss isq w n p m] quiet_announcement_message [of iss isq w n m] assms
    by (auto split: prod.splits intro!: quiet_do_act)
qed (simp_all add: quiet_announce [OF assms] quiet_refl)

section \<open>Relays and reachability\<close>

lemma quiet_reserve_loop:
  assumes "net_fresh n iss isq"
  shows "quiet iss isq w (reserve_loop n now cs w)"
proof (induction cs arbitrary: w)
  case (Cons c cs)
  obtain p a where c: "c = (p, a)" by fastforce
  obtain l x where lis: "listen_on n (without_peer a @ [P2p p, P2pCircuit]) (w_net w) = (l, x)" by fastforce
  have "quiet iss isq w (w\<lparr>w_net := x\<rparr>)" by (rule quiet_net) (rule net_fresh_grow(2) [OF assms lis])
  then have "quiet iss isq w (w_state_update (reservations_update f) (w\<lparr>w_net := x\<rparr>))"
      and "quiet iss isq w (w_state_update (relay_failed_update g) (w\<lparr>w_net := x\<rparr>))" for f g
    by (intro quiet_intros; simp)+
  with Cons show ?case
    by (auto simp: c lis Let_def split: option.splits intro: quiet_refl quiet_trans)
qed (simp add: quiet_refl)

lemma quiet_reserve: "net_fresh n iss isq \<Longrightarrow> quiet iss isq w (reserve n w)"
  by (auto simp: reserve_def Let_def intro: quiet_reserve_loop quiet_refl)

lemma quiet_acts:
  "net_fresh n iss isq \<Longrightarrow> quiet iss isq w w1 \<Longrightarrow> quiet iss isq w (fold (\<lambda>a. do_act n (f a)) xs w1)"
  by (rule quiet_trans, assumption, rule quiet_fold) (intro quiet_intros)

lemma quiet_go_private: "net_fresh n iss isq \<Longrightarrow> quiet iss isq w (go_private n w)"
  unfolding go_private_def by (intro quiet_trans [OF _ quiet_reserve] quiet_acts quiet_refl)

lemma quiet_go_public: "net_fresh n iss isq \<Longrightarrow> quiet iss isq w (go_public n w)"
  unfolding go_public_def Let_def case_prod_beta by (intro quiet_intros quiet_acts)

lemma quiet_nat_status:
  assumes "net_fresh n iss isq"
  shows "quiet iss isq w (nat_status n status w)"
proof -
  have "quiet iss isq w (w_state_update (s_reachability_update f) w)" for f by (intro quiet_intros)
  then show ?thesis
    using quiet_trans [OF _ quiet_go_private [OF assms]] quiet_trans [OF _ quiet_go_public [OF assms]]
    by (auto simp: nat_status_def quiet_simps split: option.splits intro!: quiet_emit quiet_do_act assms
        quiet_state [OF keeps_fields(11)] quiet_refl)
qed

lemma quiet_relay_lost: "quiet iss isq w (relay_lost n l w)"
  unfolding relay_lost_def by (rule quiet_fold) (intro quiet_intros)

lemma quiet_learn_address:
  "net_fresh n iss isq \<Longrightarrow> quiet iss isq w (learn_address n dht p a w)"
  by (auto simp: learn_address_def Let_def intro!: quiet_intros)

lemma quiet_identified:
  assumes "net_fresh n iss isq"
  shows "quiet iss isq w (identified n p info w)"
proof -
  have "quiet iss isq w (w_state_update (relay_candidates_update f) w)" for f by (intro quiet_intros)
  then show ?thesis
    unfolding identified_def Let_def
    by (intro quiet_trans [OF _ quiet_reserve [OF assms]] quiet_trans [OF _ quiet_fold])
      (auto intro: quiet_refl quiet_learn_address [OF assms] split: option.splits)
qed

section \<open>The other events\<close>

lemma quiet_emit_ev:
  "\<not> is_end ev \<Longrightarrow> quiet iss isq w w1 \<Longrightarrow> quiet iss isq w (emit_event n ev w1)"
  unfolding emit_event_def by (cases ev) (auto intro!: quiet_emit)

lemma discovered_not_end [simp]: "\<not> is_end (discovered n i p as)"
  by (simp add: discovered_def event_type_defs)

lemma dht_result_not_end [simp]: "\<not> is_end (dht_result i r)"
  by (simp add: dht_result_def event_type_defs)

lemma quiet_book_add: "quiet iss isq w (book_add_all p as w)"
  unfolding book_add_all_def by (intro quiet_intros)

text \<open>An admitted request takes the next identifier; everything else about it is quiet.\<close>

definition bump_id :: "'sw world \<Rightarrow> 'sw world" where
  "bump_id w = w_state_update (shared_update (sh_next_id_update (\<lambda>k. k + 1))) w"

lemma quiet_after_bump:
  assumes "\<And>sh. sh_next_id (f sh) = sh_next_id sh" and "keeps g"
  shows "quiet iss isq (bump_id w) (w_state_update (g \<circ> shared_update (sh_next_id_update (\<lambda>k. k + 1) \<circ> f)) w)"
proof -
  have "ids_ok iss isq (w_state_update (g \<circ> shared_update (sh_next_id_update (\<lambda>k. k + 1) \<circ> f)) w)"
    if "ids_ok iss isq (bump_id w)"
    using assms by (intro ids_ok_shrink [OF that]) (simp_all add: keeps_def bump_id_def, metis owners_simps(3))
  then show ?thesis using assms by (simp add: quiet_def keeps_def bump_id_def)
qed

lemma quiet_inbound_request:
  "quiet iss isq w (inbound_request n p c r frame ch w) \<or>
   quiet iss isq (bump_id w) (inbound_request n p c r frame ch w)"
  unfolding inbound_request_def
  by (auto simp: quiet_simps split: option.split prod.split sum.split
      intro!: quiet_intros(1) quiet_report_limited quiet_state quiet_emit quiet_after_bump
        keeps_comp keeps_fields keeps_shared)

lemma quiet_inbound_done: "quiet iss isq w (inbound_done r w)"
  by (auto simp: inbound_done_def split: option.splits intro!: quiet_intros)

lemma quiet_new_listen_addr:
  assumes "net_fresh n iss isq"
  shows "quiet iss isq w (new_listen_addr n a w)"
  using assms by (auto simp: new_listen_addr_def quiet_simps intro!: quiet_intros)

lemma quiet_connection_established: "quiet iss isq w (connection_established n p c k e w)"
  by (auto simp: connection_established_def quiet_simps split: option.splits intro!: quiet_intros)

lemma quiet_connection_closed: "quiet iss isq w (connection_closed n p c k w)"
  by (auto simp: connection_closed_def quiet_simps intro!: quiet_intros)

lemma quiet_hole_punch: "quiet iss isq w (hole_punch n p r w)"
  by (auto simp: hole_punch_def quiet_simps split: sum.splits intro!: quiet_intros)

section \<open>References to calls\<close>

definition referenced :: "state \<Rightarrow> u64 set" where
  "referenced s = hm_keys (calls s) \<union> ran (hm_get (outbound s)) \<union> ran (hm_get (resolutions s)) \<union>
     ran (hm_get (provider_lookups s))"

lemma unreferenced: "cid \<notin> referenced s \<Longrightarrow> call_id_unused s cid"
  by (auto simp: referenced_def call_id_unused_def names_def ran_def map_of_eq_None_iff)

lemma ran_hm_insert: "ran (hm_get (hm_insert k v m)) \<subseteq> insert v (ran (hm_get m))"
  by (auto simp: ran_def split: if_splits)

lemma ran_hm_remove: "ran (hm_get (hm_remove k m)) \<subseteq> ran (hm_get m)"
  by (auto simp: ran_def split: if_splits)

lemma in_ran: "hm_get m k = Some v \<Longrightarrow> v \<in> ran (hm_get m)"
  by (auto simp: ran_def)

text \<open>What a step may refer to, and that it leaves the next identifier alone.\<close>

definition refers_within :: "u64 set \<Rightarrow> 'sw world \<Rightarrow> 'sw world \<Rightarrow> bool" where
  "refers_within S w w' \<longleftrightarrow> referenced (w_state w') \<subseteq> S \<union> referenced (w_state w) \<and> next_call_id w' = next_call_id w"

lemma refers_refl [simp]: "refers_within S w w"
  by (simp add: refers_within_def)

lemma refers_trans: "refers_within S w w1 \<Longrightarrow> refers_within S w1 w2 \<Longrightarrow> refers_within S w w2"
  by (auto simp: refers_within_def)

lemma refers_quiet: "quiet iss isq w w' \<Longrightarrow> refers_within S w w'"
  by (simp add: quiet_def refers_within_def referenced_def)

lemma refers_emit: "refers_within S w w1 \<Longrightarrow> refers_within S w (emit n h d w1)"
  by (simp add: refers_within_def referenced_def)

lemma refers_put:
  "cid \<in> S \<union> referenced (w_state w) \<Longrightarrow> refers_within S w w1 \<Longrightarrow> refers_within S w (put_call cid c w1)"
  by (auto simp: refers_within_def referenced_def)

lemma refers_drop: "refers_within S w w1 \<Longrightarrow> refers_within S w (drop_call cid w1)"
  by (auto simp: refers_within_def referenced_def)

lemma refers_remove:
  "refers_within S w w1 \<Longrightarrow> refers_within S w (w_state_update (outbound_update (hm_remove r)) w1)"
  "refers_within S w w1 \<Longrightarrow> refers_within S w (w_state_update (resolutions_update (hm_remove q)) w1)"
  "refers_within S w w1 \<Longrightarrow> refers_within S w (w_state_update (provider_lookups_update (hm_remove q)) w1)"
  using ran_hm_remove [of r "outbound (w_state w1)"] ran_hm_remove [of q "resolutions (w_state w1)"]
    ran_hm_remove [of q "provider_lookups (w_state w1)"]
  by (auto simp: refers_within_def referenced_def)

lemma refers_net: "refers_within S w w1 \<Longrightarrow> refers_within S w (w1\<lparr>w_net := x\<rparr>)"
  by (simp add: refers_within_def)

lemma referenced_insert:
  "referenced (outbound_update (hm_insert r cid) s) \<subseteq> insert cid (referenced s)"
  "referenced (resolutions_update (hm_insert q cid) s) \<subseteq> insert cid (referenced s)"
  "referenced (provider_lookups_update (hm_insert q cid) s) \<subseteq> insert cid (referenced s)"
  using ran_hm_insert [of r cid "outbound s"] ran_hm_insert [of q cid "resolutions s"]
    ran_hm_insert [of q cid "provider_lookups s"]
  by (simp_all add: referenced_def del: hm_get_insert) blast+

lemma referenced_shared [simp]: "referenced (shared_update f s) = referenced s"
  by (simp add: referenced_def)

lemma refers_enter:
  assumes "cid \<in> S \<union> referenced (w_state w)" and "refers_within S w w1" and "\<And>sh. sh_next_id (f sh) = sh_next_id sh"
  shows "refers_within S w (w_state_update (outbound_update (hm_insert r cid) \<circ> shared_update f) w1)"
    and "refers_within S w (w_state_update (resolutions_update (hm_insert q cid)) w1)"
    and "refers_within S w (w_state_update (provider_lookups_update (hm_insert q cid)) w1)"
  using assms referenced_insert(1) [of r cid "shared_update f (w_state w1)"]
    referenced_insert(2,3) [of q cid "w_state w1"]
  by (auto simp: refers_within_def)

lemma refers_advance_loop:
  "cid \<in> S \<union> referenced (w_state w) \<Longrightarrow> refers_within S w (snd (advance_loop n cid cs c w))"
proof (induction n cid cs c w rule: advance_loop.induct)
  case (2 n cid p rest c w)
  then show ?case
    by (simp split: prod.split) (intro impI conjI allI refers_put refers_enter refers_net refers_refl, simp_all)
qed (simp add: refers_put)

lemma refers_advance: "refers_within S w (advance n cid w)"
proof (cases "hm_get (calls (w_state w)) cid")
  case (Some c)
  then have "cid \<in> S \<union> referenced (w_state w)" by (auto simp: referenced_def hm_keys_get)
  from refers_advance_loop [OF this, of n "candidates c" c] Some show ?thesis
    by (auto simp: advance_def split: prod.splits bool.splits intro!: refers_emit refers_drop)
qed (simp add: advance_def)

lemma refers_remember: "refers_within S w (remember_failure n p w)"
  by (simp add: remember_failure_def Let_def refers_within_def referenced_def)

lemma refers_response: "refers_within S w (response n p r frame w)"
proof -
  have drop: "refers_within S w (w_state_update (last_success_update f \<circ> failed_update g \<circ>
      calls_update (hm_remove cid) \<circ> outbound_update (hm_remove r)) w)" for f g cid
    using refers_remove(1) [OF refers_refl, of S w r] by (auto simp: refers_within_def referenced_def)
  show ?thesis
    using refers_trans [OF _ refers_advance] refers_trans [OF _ refers_remember]
    by (auto simp: response_def Let_def split: option.splits prod.splits
        intro!: drop refers_emit refers_put refers_remove refers_trans [OF _ refers_advance]
          refers_trans [OF _ refers_remember] simp: referenced_def hm_keys_get)
qed

lemma refers_outbound_failed: "refers_within S w (outbound_failed n p r err w)"
  unfolding outbound_failed_def Let_def
  by (auto split: option.splits intro!: refers_trans [OF _ refers_advance] refers_put refers_remove
      refers_remember simp: referenced_def hm_keys_get)

lemma refers_call_providers: "refers_within S w (call_providers n q result is_last w)"
  unfolding call_providers_def Let_def
  by (auto split: option.splits intro!: refers_trans [OF _ refers_advance] refers_put refers_remove
      simp: referenced_def hm_keys_get)

lemma refers_resolution_done: "refers_within S w (resolution_done n cid w)"
  unfolding resolution_done_def
  by (auto split: option.splits intro!: refers_trans [OF _ refers_advance] refers_put
      simp: referenced_def hm_keys_get)

lemma refers_expire_calls: "refers_within S w (expire_calls n now w)"
proof -
  have one: "refers_within S w (expire_one n cid w)" for w :: "'a world" and cid
    by (auto simp: expire_one_def split: option.splits intro!: refers_emit refers_drop)
  have "refers_within S w (fold (expire_one n) ids w)" for ids
    by (induction ids arbitrary: w) (auto intro: refers_trans one)
  then show ?thesis by (simp add: expire_calls_def)
qed

lemma refers_start_call:
  "start_call n cid grp node protocol payload timeout w = Some w' \<Longrightarrow> refers_within {cid} w w'"
  by (auto simp: start_call_def Let_def split: if_splits option.splits prod.splits
      intro!: refers_trans [OF _ refers_advance] refers_put refers_enter refers_net)

section \<open>Every turn keeps the invariant\<close>

definition steady ::
  "('sw \<Rightarrow> request_id set) \<Rightarrow> ('sw \<Rightarrow> query_id set) \<Rightarrow> 'sw world \<Rightarrow> 'sw world \<Rightarrow> bool" where
  "steady iss isq w w' \<longleftrightarrow> calls_good iss isq {} w' \<and> balance w' = balance w \<and>
     ids_grow iss isq (w_net w) (w_net w') \<and> referenced (w_state w') \<subseteq> referenced (w_state w) \<and>
     (next_call_id w' = next_call_id w \<or> next_call_id w' = next_call_id w + 1)"

lemma steadyI:
  "calls_good iss isq {} w' \<and> balance w' = balance w \<and> ids_grow iss isq (w_net w) (w_net w') \<Longrightarrow>
   refers_within {} w w' \<Longrightarrow> steady iss isq w w'"
  by (simp add: steady_def refers_within_def)

lemma steady_quiet: "quiet iss isq w w' \<Longrightarrow> calls_good iss isq {} w \<Longrightarrow> steady iss isq w w'"
  by (intro steadyI conjI refers_quiet) (auto intro: quiet_good quiet_balance quiet_grow)

lemma quiet_steady: "quiet iss isq w w1 \<Longrightarrow> steady iss isq w1 w2 \<Longrightarrow> steady iss isq w w2"
  using refers_quiet [of iss isq w w1 "{}"]
  by (auto simp: steady_def refers_within_def quiet_balance intro: ids_grow_trans dest: quiet_grow)

lemma calls_good_bump [simp]: "calls_good iss isq S (bump_id w) = calls_good iss isq S w"
  using ids_ok_same [of "bump_id w" w] by (simp add: bump_id_def calls_good_def)

lemma steady_bump:
  assumes "quiet iss isq (bump_id w) w'" and "calls_good iss isq {} w"
  shows "steady iss isq w w'"
proof -
  have same: "referenced (w_state (bump_id w)) = referenced (w_state w)" "w_net (bump_id w) = w_net w"
      "next_call_id (bump_id w) = next_call_id w + 1" "balance (bump_id w) = balance w"
    by (simp_all add: bump_id_def balance_def fun_eq_iff)
  have "calls_good iss isq {} w'" using assms by (intro quiet_good [OF assms(1)]) simp
  with same quiet_balance [OF assms(1)] quiet_grow [OF assms(1)] refers_quiet [OF assms(1), of "{}"]
  show ?thesis by (simp add: steady_def refers_within_def)
qed

lemma steady_providers:
  assumes "net_fresh n iss isq" and "calls_good iss isq {} w"
  shows "steady iss isq w (get_providers_progress n q result is_last w)"
proof -
  have "quiet iss isq w (fold (\<lambda>p w. emit_event n (discovered n cid p (addresses (w_book w) p)) w) ps w)" for cid ps
    by (rule quiet_fold) (intro quiet_emit_ev quiet_refl, simp)
  then have found: "quiet iss isq w (emit_event n (dht_result cid 0) (w_state_update
        (provider_queries_update (hm_remove q)) (fold (\<lambda>p w. emit_event n (discovered n cid p (addresses (w_book w) p)) w) ps w)))"
      "quiet iss isq w (fold (\<lambda>p w. emit_event n (discovered n cid p (addresses (w_book w) p)) w) ps w)" for cid ps
    by (intro quiet_emit_ev quiet_state keeps_remove, simp_all)
  have "quiet iss isq w (dial_topic_members n ps w)" for ps
    unfolding dial_topic_members_def by (rule quiet_dial_loop [OF assms(1)])
  then have "quiet iss isq w (case result of FoundProviders ps \<Rightarrow> dial_topic_members n ps w | NoProviders \<Rightarrow> w)"
    by (simp add: quiet_refl split: get_providers_result.splits)
  note dialed = this quiet_state [OF keeps_remove(1) this]
  have "steady iss isq w (call_providers n q result is_last w)"
    by (rule steadyI [OF call_providers_good [OF assms] refers_call_providers])
  with found dialed assms(2) show ?thesis
    by (auto simp: get_providers_progress_def Let_def split: option.splits intro: steady_quiet)
qed

lemma steady_closest:
  assumes "net_fresh n iss isq" and "calls_good iss isq {} w"
  shows "steady iss isq w (get_closest_peers_progress n q peers w)"
proof -
  define w1 where "w1 = fold (\<lambda>(peer, addrs). book_add_all peer addrs) peers w"
  have known: "quiet iss isq w w1"
    unfolding w1_def case_prod_beta by (rule quiet_fold) (rule quiet_book_add)
  have good: "calls_good iss isq {} w1" by (rule quiet_good [OF known assms(2)])
  have "steady iss isq w1 (get_closest_peers_progress n q peers w)"
  proof (cases "hm_get (resolutions (w_state w1)) q")
    case (Some cid)
    have "refers_within {} w1 (resolution_done n cid (w_state_update (resolutions_update (hm_remove q)) w1))"
      by (rule refers_trans [OF refers_remove(2) refers_resolution_done]) simp
    with Some steadyI [OF resolution_done_good [OF assms(1) good Some]] show ?thesis
      by (simp add: get_closest_peers_progress_def Let_def flip: w1_def)
  next
    case None
    have "quiet iss isq w1 (fold (\<lambda>(peer, addrs). emit_event n (discovered n walk peer addrs)) peers
        (w_state_update (walks_update (hm_remove q)) w1))" for walk
      unfolding case_prod_beta
      by (rule quiet_trans [OF _ quiet_fold])
        (auto intro!: quiet_state keeps_remove quiet_emit_ev quiet_refl)
    then have "quiet iss isq w1 (emit_event n (dht_result walk 0)
        (fold (\<lambda>(peer, addrs). emit_event n (discovered n walk peer addrs)) peers
        (w_state_update (walks_update (hm_remove q)) w1)))" for walk
      by (intro quiet_emit_ev) simp_all
    with None good show ?thesis
      by (auto simp: get_closest_peers_progress_def Let_def simp flip: w1_def split: option.splits
          intro: steady_quiet quiet_refl)
  qed
  then show ?thesis by (rule quiet_steady [OF known])
qed

lemma steady_kad:
  assumes "net_fresh n iss isq" and "calls_good iss isq {} w"
  shows "steady iss isq w (kad_event n ev w)"
proof (cases ev)
  case (RoutingUpdated p as new)
  have "quiet iss isq w (kad_event n ev w)"
    using quiet_book_add [of iss isq w p as] by (auto simp: RoutingUpdated Let_def intro!: quiet_state keeps_fields)
  then show ?thesis using assms(2) by (rule steady_quiet)
next
  case (BootstrapProgress q ok is_last)
  have "quiet iss isq w (kad_event n ev w)"
    by (auto simp: BootstrapProgress Let_def split: option.splits
        intro!: quiet_state keeps_fields keeps_remove quiet_emit_ev quiet_refl)
  then show ?thesis using assms(2) by (rule steady_quiet)
qed (simp_all add: steady_providers [OF assms] steady_closest [OF assms] steady_quiet [OF quiet_refl assms(2)])

lemma steady_rpc:
  assumes "net_fresh n iss isq" and "calls_good iss isq {} w"
  shows "steady iss isq w (rpc_event n ev w)"
proof (cases ev)
  case (InboundRequest p c r frame ch)
  then show ?thesis
    using quiet_inbound_request [of iss isq w n p c r frame ch] assms(2)
    by (auto intro: steady_quiet steady_bump)
next
  case (Response p r frame)
  then show ?thesis using steadyI [OF response_good [OF assms] refers_response] by simp
next
  case (OutboundFailure p r err)
  then show ?thesis using steadyI [OF outbound_failed_good [OF assms] refers_outbound_failed] by simp
qed (simp_all add: steady_quiet [OF quiet_inbound_done assms(2)])

lemma steady_swarm_event:
  assumes "net_fresh n iss isq" and "calls_good iss isq {} w"
  shows "steady iss isq w (swarm_event n ev w)"
proof -
  have "quiet iss isq w (w_state_update (listening_update f) w)" for f by (intro quiet_intros)
  then show ?thesis
    using assms
    by (cases ev) (auto intro: steady_kad steady_rpc steady_quiet quiet_new_listen_addr quiet_relay_lost
        quiet_connection_established quiet_connection_closed quiet_identified quiet_gossipsub_event
        quiet_hole_punch quiet_nat_status quiet_refl)
qed

lemma steady_tick:
  assumes "net_fresh n iss isq" and "calls_good iss isq {} w"
  shows "steady iss isq w (tick n w)"
proof -
  let ?now = "instant_now n (w_net w)"
  let ?w1 = "expire_calls n ?now w"
  have 1: "steady iss isq w ?w1" "calls_good iss isq {} ?w1"
    using expire_calls_good [OF assms(2), of n ?now] by (auto intro!: steadyI refers_expire_calls)
  let ?w2 = "announce n (reserve n ?w1)"
  let ?w3 = "fold (topic_lookup n) (lonely_topics n ?now ?w2) ?w2"
  have "quiet iss isq ?w1 ?w2"
    by (rule quiet_trans [OF quiet_reserve quiet_announce]) (rule assms(1))+
  then have "quiet iss isq ?w1 ?w3"
    by (rule quiet_trans) (rule quiet_fold, rule quiet_topic_lookup [OF assms(1)])
  then have "quiet iss isq ?w1 (sweep_limits ?now ?w3)"
    unfolding sweep_limits_def by (auto intro!: quiet_state keeps_comp keeps_fields)
  then have "quiet iss isq ?w1 (provide_if_due n ?now (sweep_limits ?now ?w3))"
    unfolding provide_if_due_def provide_def Let_def
    by (auto intro!: quiet_state quiet_do_act keeps_comp keeps_fields assms(1))
  then have "quiet iss isq ?w1 (tick n w)"
    unfolding tick_def Let_def store_counts_def by (auto intro!: quiet_state keeps_shared)
  then have 2: "steady iss isq ?w1 (tick n w)" using 1(2) by (rule steady_quiet)
  have "w_net ?w1 = w_net w" "next_call_id ?w1 = next_call_id w"
    using expire_calls_good [OF assms(2), of n ?now] refers_expire_calls [of "{}" w n ?now]
    by (simp_all add: refers_within_def)
  with 1(1) 2 show ?thesis by (auto simp: steady_def)
qed

end
