(* ===== verification/Emissions.thy ===== *)
theory Emissions
  imports Loop
begin

text \<open>
  Which events the handlers of the node report. \<open>says T w w'\<close>: going from \<open>w\<close> to \<open>w'\<close> the node only
  appended events, of the types \<open>T\<close>. From it follow the properties on what stands behind a reported
  request, response, topic message or announcement, over everything the main loop does.
\<close>

section \<open>Reported events\<close>

definition new_events :: "'sw world \<Rightarrow> 'sw world \<Rightarrow> event list" where
  "new_events w w' = drop (length (w_emitted w)) (w_emitted w')"

definition says :: "u16 set \<Rightarrow> 'sw world \<Rightarrow> 'sw world \<Rightarrow> bool" where
  "says T w w' \<longleftrightarrow> (\<exists>evs. w_emitted w' = w_emitted w @ evs \<and> (\<forall>ev \<in> set evs. ev_type (fst ev) \<in> T))"

named_theorems says_intros \<open>steps that report events of the given types only\<close>

lemma says_refl [says_intros]: "says T w w"
  by (simp add: says_def)

lemma says_trans: "says T w w1 \<Longrightarrow> says T w1 w2 \<Longrightarrow> says T w w2"
  unfolding says_def by (metis (no_types, lifting) append_assoc set_append Un_iff)

lemma says_mono: "says T w w' \<Longrightarrow> T \<subseteq> U \<Longrightarrow> says U w w'"
  unfolding says_def by blast

lemma says_emit [says_intros]: "ev_type h \<in> T \<Longrightarrow> says T w w1 \<Longrightarrow> says T w (emit n h d w1)"
  unfolding says_def by fastforce

lemma says_do_act [says_intros]: "says T w w1 \<Longrightarrow> says T w (do_act n a w1)"
  by (simp add: says_def)

lemma says_state [says_intros]: "says T w w1 \<Longrightarrow> says T w (w_state_update f w1)"
  by (simp add: says_def)

lemma says_net [says_intros]: "says T w w1 \<Longrightarrow> says T w (w1\<lparr>w_net := x\<rparr>)"
  by (simp add: says_def)

lemma says_book [says_intros]: "says T w w1 \<Longrightarrow> says T w (w1\<lparr>w_book := b\<rparr>)"
  by (simp add: says_def)

lemma says_put_call [says_intros]: "says T w w1 \<Longrightarrow> says T w (put_call cid c w1)"
  by (simp add: put_call_def says_state)

lemma says_drop_call [says_intros]: "says T w w1 \<Longrightarrow> says T w (drop_call cid w1)"
  by (simp add: drop_call_def says_state)

lemma says_fold: "(\<And>a w. says T w (f a w)) \<Longrightarrow> says T w w1 \<Longrightarrow> says T w (fold f xs w1)"
  by (induction xs arbitrary: w1) (simp, metis fold_simps(2) says_trans)

lemma says_new: "says T w w' \<Longrightarrow> ev \<in> set (new_events w w') \<Longrightarrow> ev_type (fst ev) \<in> T"
  by (auto simp: says_def new_events_def)

lemma says_silent: "says {} w w' \<longleftrightarrow> w_emitted w' = w_emitted w"
  unfolding says_def by (auto simp: prod_eq_iff) (metis append_Nil2 list.set_intros(1) neq_Nil_conv surj_pair)

lemma ev_type_event_new [simp]: "ev_type (event_new k) = k"
  by (simp add: event_new_def)

section \<open>Silent steps\<close>

lemma says_announce [says_intros]: "says T w w1 \<Longrightarrow> says T w (announce n w1)"
  unfolding announce_def by (auto simp: Let_def split: option.splits prod.splits intro!: says_intros)

lemma says_topic_lookup [says_intros]: "says T w w1 \<Longrightarrow> says T w (topic_lookup n key w1)"
  unfolding topic_lookup_def by (auto simp: Let_def split: option.splits prod.splits intro!: says_intros)

lemma says_topic_count [says_intros]: "says T w w1 \<Longrightarrow> says T w (store_topic_count w1)"
  unfolding store_topic_count_def by (rule says_state)

lemma says_topic_subscribe [says_intros]: "says T w w1 \<Longrightarrow> says T w (topic_subscribe n key w1)"
  unfolding topic_subscribe_def by (auto simp: Let_def split: option.splits prod.splits intro!: says_intros)

lemma says_topic_unsubscribe [says_intros]: "says T w w1 \<Longrightarrow> says T w (topic_unsubscribe n key w1)"
  unfolding topic_unsubscribe_def by (auto simp: Let_def split: option.splits intro!: says_intros)

lemma says_dial_loop [says_intros]: "says T w w1 \<Longrightarrow> says T w (dial_loop n k ps w1)"
  by (induction ps arbitrary: k w1) (auto split: prod.splits intro!: says_intros)

lemma says_topic_publish [says_intros]: "says T w w1 \<Longrightarrow> says T w (topic_publish n key d w1)"
  unfolding topic_publish_def by (auto simp: Let_def split: option.splits prod.splits intro!: says_intros)

lemma says_reserve_loop: "says T w w1 \<Longrightarrow> says T w (reserve_loop n now ps w1)"
proof (induction ps arbitrary: w1)
  case (Cons pa ps)
  obtain p a where pa: "pa = (p, a)" by fastforce
  obtain l x where "listen_on n (without_peer a @ [P2p p, P2pCircuit]) (w_net w1) = (l, x)" by fastforce
  with Cons show ?case by (cases l) (simp_all add: pa says_intros)
qed simp

lemma says_reserve [says_intros]: "says T w w1 \<Longrightarrow> says T w (reserve n w1)"
  unfolding reserve_def by (auto simp: Let_def intro!: says_reserve_loop)

lemma says_acts [says_intros]: "says T w w1 \<Longrightarrow> says T w (fold (\<lambda>a. do_act n (f a)) xs w1)"
  by (rule says_fold) (intro says_intros)+

lemma says_go [says_intros]:
  "says T w w1 \<Longrightarrow> says T w (go_private n w1)"
  "says T w w1 \<Longrightarrow> says T w (go_public n w1)"
  unfolding go_private_def go_public_def Let_def case_prod_beta by (intro says_intros; assumption)+

lemma says_relay_lost [says_intros]: "says T w w1 \<Longrightarrow> says T w (relay_lost n l w1)"
  unfolding relay_lost_def by (rule says_fold) (intro says_intros)+

lemma says_learn_address [says_intros]: "says T w w1 \<Longrightarrow> says T w (learn_address n b p a w1)"
  unfolding learn_address_def by (auto simp: Let_def intro!: says_intros)

lemma says_identified [says_intros]: "says T w w1 \<Longrightarrow> says T w (identified n p info w1)"
  unfolding identified_def
  by (auto simp: Let_def split: option.splits intro!: says_intros says_fold)

lemma says_book_add [says_intros]: "says T w w1 \<Longrightarrow> says T w (book_add_all p as w1)"
  unfolding book_add_all_def by (rule says_book)

lemma says_provide [says_intros]: "says T w w1 \<Longrightarrow> says T w (provide n w1)"
  unfolding provide_def Let_def by (intro says_intros)

lemma says_remember [says_intros]: "says T w w1 \<Longrightarrow> says T w (remember_failure n p w1)"
  unfolding remember_failure_def Let_def by (intro says_intros)

lemma says_inbound_done [says_intros]: "says T w w1 \<Longrightarrow> says T w (inbound_done r w1)"
  unfolding inbound_done_def by (auto split: option.splits intro!: says_intros)

section \<open>Steps that report\<close>

lemma says_emit_event [says_intros]: "ev_type (fst ev) \<in> T \<Longrightarrow> says T w w1 \<Longrightarrow> says T w (emit_event n ev w1)"
  unfolding emit_event_def by (rule says_emit)

lemma type_discovered [simp]: "ev_type (fst (discovered n i p as)) = LP2P_EV_PEER_DISCOVERED"
  by (simp add: discovered_def)

lemma type_dht_result [simp]: "ev_type (fst (dht_result i r)) = LP2P_EV_DHT_RESULT"
  by (simp add: dht_result_def)

lemma type_rpc [simp]:
  "ev_type (rpc_failed cid c r) = LP2P_EV_RPC_FAILED" "ev_type (rpc_response cid c node) = LP2P_EV_RPC_RESPONSE"
  "ev_type (limited_event g node p r) = LP2P_EV_LIMITED"
  by (simp_all add: rpc_failed_def rpc_response_def limited_event_def)

lemma says_report_limited [says_intros]:
  "LP2P_EV_LIMITED \<in> T \<Longrightarrow> says T w w1 \<Longrightarrow> says T w (report_limited n g node p r now w1)"
  unfolding report_limited_def by (auto simp: Let_def split: prod.splits intro!: says_intros)

lemma says_nat_status [says_intros]:
  "LP2P_EV_REACHABILITY \<in> T \<Longrightarrow> says T w w1 \<Longrightarrow> says T w (nat_status n v w1)"
  unfolding nat_status_def by (auto simp: Let_def split: option.splits intro!: says_intros)

lemma says_topic_message:
  "says {LP2P_EV_LIMITED, LP2P_EV_TOPIC_MESSAGE} w (snd (topic_message n p m w))"
  unfolding topic_message_def
  by (auto simp: Let_def split: option.splits prod.splits sum.splits intro!: says_intros)

lemma says_announcement: "says {LP2P_EV_ANNOUNCEMENT} w (snd (announcement_message n m w))"
  unfolding announcement_message_def
  by (auto simp: Let_def split: option.splits prod.splits sum.splits intro!: says_intros)

lemma says_advance_loop: "says T w w1 \<Longrightarrow> says T w (snd (advance_loop n cid ps c w1))"
  by (induction n cid ps c w1 rule: advance_loop.induct) (auto split: prod.splits intro!: says_intros)

lemma says_advance [says_intros]:
  assumes "LP2P_EV_RPC_FAILED \<in> T" and "says T w w1"
  shows "says T w (advance n cid w1)"
  unfolding advance_def using assms says_advance_loop [OF assms(2)]
  by (auto simp: prod.case_eq_if split: option.splits bool.splits intro!: says_intros) 

lemma says_outbound_failed [says_intros]:
  "LP2P_EV_RPC_FAILED \<in> T \<Longrightarrow> says T w w1 \<Longrightarrow> says T w (outbound_failed n p r e w1)"
  unfolding outbound_failed_def by (auto simp: Let_def split: option.splits intro!: says_intros)

lemma says_call_providers [says_intros]:
  "LP2P_EV_RPC_FAILED \<in> T \<Longrightarrow> says T w w1 \<Longrightarrow> says T w (call_providers n q r l w1)"
  unfolding call_providers_def by (auto simp: Let_def split: option.splits intro!: says_intros)

lemma says_resolution_done [says_intros]:
  "LP2P_EV_RPC_FAILED \<in> T \<Longrightarrow> says T w w1 \<Longrightarrow> says T w (resolution_done n cid w1)"
  unfolding resolution_done_def by (auto split: option.splits intro!: says_intros)

lemma says_response [says_intros]:
  "{LP2P_EV_RPC_RESPONSE, LP2P_EV_RPC_FAILED} \<subseteq> T \<Longrightarrow> says T w w1 \<Longrightarrow> says T w (response n p r f w1)"
  unfolding response_def by (auto simp: Let_def split: option.splits intro!: says_intros)

lemma says_start_call:
  "LP2P_EV_RPC_FAILED \<in> T \<Longrightarrow> start_call n cid g node p d t w = Some w' \<Longrightarrow> says T w w'"
  unfolding start_call_def
  by (auto simp: Let_def split: option.splits if_splits prod.splits intro!: says_intros)

lemma says_expire [says_intros]: "LP2P_EV_RPC_FAILED \<in> T \<Longrightarrow> says T w w1 \<Longrightarrow> says T w (expire_calls n now w1)"
  unfolding expire_calls_def
  by (rule says_fold) (auto simp: expire_one_def split: option.splits intro!: says_intros)

lemma says_providers [says_intros]:
  "{LP2P_EV_RPC_FAILED, LP2P_EV_PEER_DISCOVERED, LP2P_EV_DHT_RESULT} \<subseteq> T \<Longrightarrow>
   says T w (get_providers_progress n q r l w)"
  unfolding get_providers_progress_def dial_topic_members_def
  by (auto simp: Let_def split: option.splits get_providers_result.splits intro!: says_intros says_fold)

lemma says_closest [says_intros]:
  "{LP2P_EV_RPC_FAILED, LP2P_EV_PEER_DISCOVERED, LP2P_EV_DHT_RESULT} \<subseteq> T \<Longrightarrow>
   says T w (get_closest_peers_progress n q ps w)"
  unfolding get_closest_peers_progress_def
  by (auto simp: Let_def split: option.splits intro!: says_intros says_fold)

lemma says_kad:
  "says {LP2P_EV_RPC_FAILED, LP2P_EV_PEER_DISCOVERED, LP2P_EV_DHT_RESULT} w (kad_event n ev w)"
  by (cases ev) (auto simp: Let_def split: option.splits intro!: says_intros)

lemma says_inbound_request: "says {LP2P_EV_RPC_REQUEST, LP2P_EV_LIMITED} w (inbound_request n p c r f ch w)"
  unfolding inbound_request_def
  by (auto simp: Let_def split: option.splits prod.splits sum.splits intro!: says_intros)

lemma says_rpc_other:
  "{LP2P_EV_RPC_FAILED} \<subseteq> T \<Longrightarrow> (\<forall>p c r f ch. ev \<noteq> InboundRequest p c r f ch) \<Longrightarrow> (\<forall>p r f. ev \<noteq> Response p r f) \<Longrightarrow>
   says T w (rpc_event n ev w)"
  by (cases ev) (auto intro!: says_intros)

definition local_types :: "u16 set" where
  "local_types = {LP2P_EV_LISTENING, LP2P_EV_REACHABILITY, LP2P_EV_PEER_CONNECTED, LP2P_EV_PEER_DISCONNECTED,
     LP2P_EV_RPC_FAILED, LP2P_EV_PEER_DISCOVERED, LP2P_EV_DHT_RESULT, LP2P_EV_HOLE_PUNCH}"

lemma says_swarm_other:
  assumes "\<forall>e. ev \<noteq> RpcEvent e" and "\<forall>e. ev \<noteq> Gossipsub e"
  shows "says local_types w (swarm_event n ev w)"
proof (cases ev)
  case (Kad e)
  have "says local_types w (kad_event n e w)"
    by (rule says_mono [OF says_kad]) (auto simp: local_types_def)
  then show ?thesis by (simp add: Kad)
next
  case (Dcutr p r)
  then show ?thesis by (cases r) (auto simp: hole_punch_def Let_def local_types_def intro!: says_intros)
qed (use assms in \<open>auto simp: new_listen_addr_def connection_established_def connection_closed_def
    Let_def local_types_def split: option.splits intro!: says_intros\<close>)

lemma says_command: "command n c w = Some (r, w') \<Longrightarrow> says local_types w w'"
  by (cases c) (auto simp: routing_sample_def Let_def local_types_def split: option.splits prod.splits if_splits
      intro!: says_intros intro: says_start_call)

lemma says_tick: "says {LP2P_EV_RPC_FAILED} w (tick n w)"
  unfolding tick_def Let_def store_counts_def provide_if_due_def sweep_limits_def
  by (auto intro!: says_intros says_fold)

end
