(* ===== verification/Admission.thy ===== *)
theory Admission
  imports RateLimits
begin

text \<open>
  What the rate limits of \<open>src/limits.rs\<close> promise over whole sequences of requests. The locale
  \<open>bucket_law\<close> states the contract of one bucket: its level is bounded by the burst, grows at
  most at the rate between two instants, and an admitted request takes its charge. The bound on
  what is admitted over time is proved once there and holds for every rule of \<open>Limits\<close> and for every
  source of \<open>SourceRate\<close>.
\<close>

text \<open>The charges of the requests that a sequence of steps admits.\<close>

fun admitted ::
  "('i \<Rightarrow> instant \<Rightarrow> 's \<Rightarrow> bool \<times> 's) \<Rightarrow> ('s \<Rightarrow> 'i \<Rightarrow> rat) \<Rightarrow> ('i \<times> instant) list \<Rightarrow> 's \<Rightarrow> rat" where
  "admitted step charge [] s = 0"
| "admitted step charge ((i, t) # es) s =
     (case step i t s of (ok, s') \<Rightarrow> (if ok then charge s i else 0) + admitted step charge es s')"

section \<open>The contract of a token bucket\<close>

locale bucket_law =
  fixes inv :: "'s \<Rightarrow> bool" and step :: "'i \<Rightarrow> instant \<Rightarrow> 's \<Rightarrow> bool \<times> 's"
    and charge :: "'s \<Rightarrow> 'i \<Rightarrow> rat" and avail :: "'s \<Rightarrow> instant \<Rightarrow> rat"
    and cap :: "'s \<Rightarrow> rat" and rate :: "'s \<Rightarrow> rat" and slack :: "'s \<Rightarrow> rat"
  assumes inv_step: "inv s \<Longrightarrow> step i t s = (ok, s') \<Longrightarrow>
      inv s' \<and> cap s' = cap s \<and> rate s' = rate s \<and> slack s' = slack s \<and> charge s' = charge s"
    and avail_range: "inv s \<Longrightarrow> 0 \<le> avail s t \<and> avail s t \<le> cap s"
    and slack_nonneg: "inv s \<Longrightarrow> 0 \<le> slack s"
    and gain: "inv s \<Longrightarrow> t \<le> t' \<Longrightarrow> avail s t' \<le> avail s t + of_nat (t' - t) * rate s + slack s"
    and taken: "inv s \<Longrightarrow> step i t s = (True, s') \<Longrightarrow> avail s' t \<le> avail s t - charge s i + slack s"
    and kept: "inv s \<Longrightarrow> step i t s = (False, s') \<Longrightarrow> avail s' t \<le> avail s t"
begin

lemma admitted_from:
  assumes "inv s" and "sorted (t0 # map snd es)" and "\<forall>e \<in> set es. snd e \<le> t1" and "t0 \<le> t1"
  shows "admitted step charge es s \<le>
    avail s t0 + of_nat (t1 - t0) * rate s + 2 * of_nat (Suc (length es)) * slack s"
  using assms
proof (induction es arbitrary: s t0)
  case Nil
  then show ?case using gain [of s t0 t1] avail_range [of s t1] slack_nonneg [of s] by simp
next
  case (Cons e es)
  obtain i t where e: "e = (i, t)" by fastforce
  obtain ok s' where st: "step i t s = (ok, s')" by fastforce
  have t: "t0 \<le> t" "t \<le> t1" using Cons.prems by (auto simp: e)
  note s' = inv_step [OF Cons.prems(1) st]
  have "admitted step charge es s' \<le>
      avail s' t + of_nat (t1 - t) * rate s' + 2 * of_nat (Suc (length es)) * slack s'"
    using Cons.prems s' t by (intro Cons.IH) (auto simp: e)
  moreover have "(if ok then charge s i else 0) + avail s' t \<le> avail s t + slack s"
    using taken [OF Cons.prems(1)] kept [OF Cons.prems(1)] slack_nonneg [OF Cons.prems(1)] st
    by (cases ok) force+
  moreover have "avail s t \<le> avail s t0 + of_nat (t - t0) * rate s + slack s"
    by (rule gain [OF Cons.prems(1) t(1)])
  moreover have "of_nat (t1 - t0) * rate s = of_nat (t - t0) * rate s + of_nat (t1 - t) * rate s"
    using t by (simp add: of_nat_diff algebra_simps)
  ultimately show ?case using s' st by (simp add: e algebra_simps)
qed

lemma admitted_bound:
  assumes "inv s" and "sorted (map snd es)" and "\<forall>e \<in> set es. t0 \<le> snd e \<and> snd e \<le> t0 + d"
  shows "admitted step charge es s \<le>
    cap s + of_nat d * rate s + 2 * of_nat (Suc (length es)) * slack s"
proof -
  have "admitted step charge es s \<le>
      avail s t0 + of_nat (t0 + d - t0) * rate s + 2 * of_nat (Suc (length es)) * slack s"
    using assms by (intro admitted_from) auto
  with avail_range [OF assms(1), of t0] show ?thesis by simp
qed

end

section \<open>A rule of the limits\<close>

text \<open>The state is the limits together with the bucket that is watched.\<close>

definition rule_inv :: "rule \<times> bucket_key \<times> limits \<Rightarrow> bool" where
  "rule_inv = (\<lambda>(r, key, L). limits_wf L \<and> r \<in> set (rules L))"

definition rule_step ::
  "limit_request \<times> nat \<Rightarrow> instant \<Rightarrow> rule \<times> bucket_key \<times> limits \<Rightarrow> bool \<times> rule \<times> bucket_key \<times> limits" where
  "rule_step = (\<lambda>(req, n) t (r, key, L). case check req n t L of (res, L') \<Rightarrow> (res = Inr (), r, key, L'))"

definition rule_charge :: "rule \<times> bucket_key \<times> limits \<Rightarrow> limit_request \<times> nat \<Rightarrow> rat" where
  "rule_charge = (\<lambda>(r, key, L) (req, n). if (r, key) \<in> set (matching L req) then cost n r else 0)"

definition rule_cap :: "rule \<times> bucket_key \<times> limits \<Rightarrow> rat" where
  "rule_cap = (\<lambda>(r, key, L). u32_f64 (burst (rule_rate r)))"

definition rule_gain :: "rule \<times> bucket_key \<times> limits \<Rightarrow> rat" where
  "rule_gain = (\<lambda>(r, key, L). per_second (rule_rate r) / 1000000000 * (1 + 1 / 2 ^ 50))"

lemmas rule_defs = rule_inv_def rule_step_def rule_charge_def rule_cap_def rule_gain_def

lemma level_eq:
  "level bs r key now = (case hm_get bs (rule_of r, key) of
       Some b \<Rightarrow> min (filled (tokens b) (per_second (rule_rate r)) (duration_since now (updated b)))
                   (u32_f64 (burst (rule_rate r)))
     | None \<Rightarrow> u32_f64 (burst (rule_rate r)))"
  by (simp add: level_def bucket_now_def tokens_refill duration_since_def filled_0 split: option.splits)

lemma level_gain:
  assumes "buckets_ok bs" and "t \<le> t'"
  shows "level bs r key t' \<le> level bs r key t +
    of_nat (t' - t) * (per_second (rule_rate r) / 1000000000 * (1 + 1 / 2 ^ 50)) +
    u32_f64 (burst (rule_rate r)) / 2 ^ 48"
proof (cases "hm_get bs (rule_of r, key)")
  case None
  have "0 \<le> of_nat (t' - t) * (per_second (rule_rate r) / 1000000000 * (1 + 1 / 2 ^ 50))"
    and "0 \<le> u32_f64 (burst (rule_rate r)) / 2 ^ 48" by simp_all
  with None show ?thesis by (simp only: level_eq option.case)
next
  case (Some b)
  then have "0 \<le> tokens b" using assms(1) by (auto simp: bucket_ok_def dest: buckets_ok_get)
  with Some assms(2) show ?thesis
    by (simp only: level_eq option.case) (intro filled_gain, simp_all add: duration_since_def)
qed

lemma rnd_upper_slack:
  assumes "0 \<le> x" and "x \<le> B"
  shows "rnd x \<le> x + B / 2 ^ 48"
proof -
  have "rnd x \<le> x + x * (1 / 2 ^ 53)" using rnd_upper [OF assms(1)] by (simp only: ring_distribs mult_1_right)
  moreover have "x * (1 / 2 ^ 53) \<le> B * (1 / 2 ^ 48)" using assms by (intro mult_mono) auto
  ultimately show ?thesis by simp
qed

lemma check_taken:
  assumes "limits_wf L" and "r \<in> set (rules L)" and "check req n t L = (Inr (), L')"
  shows "level (buckets L') r key t \<le> level (buckets L) r key t -
    (if (r, key) \<in> set (matching L req) then cost n r else 0) + u32_f64 (burst (rule_rate r)) / 2 ^ 48"
proof (cases "(r, key) \<in> set (matching L req)")
  case True
  let ?l = "level (buckets L) r key t"
  have "class_of L (lr_group req) \<noteq> LP2P_CLASS_BLOCKED" "refused_by L req n t = None"
    using check_decides [OF assms(1,3)] by (auto split: if_splits option.splits)
  with True have "cost n r \<le> ?l" by (auto simp: refused_by_def find_None_iff not_less)
  moreover have "?l - cost n r \<le> u32_f64 (burst (rule_rate r))"
    using level_bounds(2) [of "buckets L" r key t] cost_nonneg [of n r] by linarith
  ultimately have "rnd (?l - cost n r) \<le> ?l - cost n r + u32_f64 (burst (rule_rate r)) / 2 ^ 48"
    by (intro rnd_upper_slack) auto
  with True check_level [OF assms(1,3,2), of key] show ?thesis by (simp add: f64_sub_def)
next
  case False
  with check_level [OF assms(1,3,2), of key] show ?thesis by simp
qed

lemma matching_cong: "classes L' = classes L \<Longrightarrow> rules L' = rules L \<Longrightarrow> matching L' req = matching L req"
  by (simp add: matching_def class_of_def)

lemma rule_step_iff:
  "rule_step (req, n) t (r, key, L) = (ok, s') \<longleftrightarrow>
     (\<exists>res L'. check req n t L = (res, L') \<and> ok = (res = Inr ()) \<and> s' = (r, key, L'))"
  by (auto simp: rule_step_def split: prod.splits)

interpretation rule_bucket: bucket_law rule_inv rule_step rule_charge
    "\<lambda>(r, key, L). level (buckets L) r key" rule_cap rule_gain "\<lambda>s. rule_cap s / 2 ^ 48"
proof (unfold_locales, goal_cases)
  case (1 s i t ok s')
  then obtain r key L req n res L' where s: "s = (r, key, L)" "i = (req, n)" "s' = (r, key, L')"
    and c: "check req n t L = (res, L')"
    by (cases s; cases i) (auto simp: rule_step_iff)
  with 1 check_preserves [OF _ c] matching_cong [of L' L] show ?case
    by (auto simp: rule_inv_def rule_cap_def rule_gain_def rule_charge_def)
next
  case (2 s t)
  then show ?case
    by (cases s) (simp add: rule_inv_def rule_cap_def limits_wf_def level_bounds)
next
  case (3 s)
  then show ?case by (cases s) (simp add: rule_cap_def)
next
  case (4 s t t')
  then show ?case
    by (cases s) (simp only: rule_inv_def rule_cap_def rule_gain_def case_prod_conv limits_wf_def level_gain)
next
  case (5 s i t s')
  then obtain r key L req n L' where s: "s = (r, key, L)" "i = (req, n)" "s' = (r, key, L')"
    and c: "check req n t L = (Inr (), L')"
    by (cases s; cases i) (auto simp: rule_step_iff)
  with 5 check_taken [OF _ _ c] show ?case
    by (simp only: rule_inv_def rule_cap_def rule_charge_def case_prod_conv)
next
  case (6 s i t s')
  then obtain r key L req n res L' where s: "s = (r, key, L)" "i = (req, n)" "s' = (r, key, L')"
    and c: "check req n t L = (res, L')" "res \<noteq> Inr ()"
    by (cases s; cases i) (auto simp: rule_step_iff)
  with 6 check_level [OF _ c(1)] show ?case by (simp add: rule_inv_def)
qed

section \<open>A source of announcements\<close>

definition source_wf :: "source_rate \<Rightarrow> bool" where
  "source_wf s \<longleftrightarrow> 0 \<le> sr_per_second s \<and> 0 \<le> sr_burst s \<and> rnd (sr_burst s) = sr_burst s \<and>
     buckets_ok (sr_buckets s)"

definition source_level :: "source_rate \<Rightarrow> peer_id \<Rightarrow> instant \<Rightarrow> f64" where
  "source_level s peer now = (case hm_get (sr_buckets s) peer of
     Some b \<Rightarrow> min (source_refilled s b now) (sr_burst s) | None \<Rightarrow> sr_burst s)"

lemma source_refilled_eq:
  "source_refilled s b now = filled (tokens b) (sr_per_second s) (duration_since now (updated b))"
  by (simp add: source_refilled_def filled_def)

lemma source_wf_new: "source_wf (source_rate_new interval brst)"
  by (simp add: source_wf_def source_rate_new_def buckets_ok_def f64_div_def rnd_nonneg)

text \<open>The sweep inside \<open>allow\<close> forgets only full buckets.\<close>

definition source_sweep :: "instant \<Rightarrow> source_rate \<Rightarrow> source_rate" where
  "source_sweep now s = (if hm_len (sr_buckets s) > MAX_BUCKETS
     then s\<lparr>sr_buckets := hm_retain (\<lambda>_ b. source_refilled s b now < sr_burst s) (sr_buckets s)\<rparr> else s)"

lemma source_sweep_level:
  "source_wf s \<Longrightarrow> source_level (source_sweep now s) peer now = source_level s peer now"
  by (auto simp: source_sweep_def source_level_def source_wf_def buckets_ok_def hm_get_retain
      source_refilled_def split: option.splits)

lemma source_sweep_fields [simp]:
  "sr_per_second (source_sweep now s) = sr_per_second s" "sr_burst (source_sweep now s) = sr_burst s"
  by (simp_all add: source_sweep_def)

lemma source_wf_sweep: "source_wf s \<Longrightarrow> source_wf (source_sweep now s)"
  by (simp add: source_wf_def source_sweep_def)

text \<open>\<open>allow\<close> in terms of the level: admit when it is at least one, and store what is left.\<close>

lemma allow_eq:
  assumes "source_wf s"
  shows "allow peer now s =
    (let l = source_level s peer now; s1 = source_sweep now s in
     (1 \<le> l, s1\<lparr>sr_buckets := hm_insert peer
        \<lparr>tokens = (if l < 1 then l else f64_sub l 1), updated = now\<rparr> (sr_buckets s1)\<rparr>))"
proof -
  let ?s = "source_sweep now s"
  have l: "source_level ?s peer now = source_level s peer now" by (rule source_sweep_level [OF assms])
  define b where "b = (case hm_get (sr_buckets ?s) peer of
      Some b \<Rightarrow> b | None \<Rightarrow> \<lparr>tokens = sr_burst ?s, updated = now\<rparr>)"
  have "min (source_refilled ?s b now) (sr_burst ?s) = source_level s peer now"
    using assms unfolding l [symmetric]
    by (auto simp: b_def source_level_def source_refilled_eq duration_since_def filled_0 source_wf_def
        split: option.splits)
  then show ?thesis
    unfolding allow_def Let_def source_sweep_def [symmetric] b_def [symmetric] by (cases b) simp
qed

lemma source_level_range: "source_wf s \<Longrightarrow> 0 \<le> source_level s peer now \<and> source_level s peer now \<le> sr_burst s"
  by (auto simp: source_level_def source_wf_def source_refilled_eq bucket_ok_def dest: buckets_ok_get
      intro!: filled_nonneg split: option.splits)

lemma source_level_rnd: "source_wf s \<Longrightarrow> rnd (source_level s peer now) = source_level s peer now"
  by (auto simp: source_level_def source_wf_def source_refilled_def f64_add_def min_def split: option.splits)

lemma source_wf_allow:
  assumes "source_wf s"
  shows "source_wf (snd (allow peer now s))"
  using source_wf_sweep [OF assms, of now] source_level_range [OF assms, of peer now]
    source_level_rnd [OF assms, of peer now]
  by (auto simp: allow_eq [OF assms] Let_def source_wf_def bucket_ok_def f64_sub_def rnd_nonneg
      intro!: buckets_ok_insert)

lemma source_level_after:
  assumes "source_wf s"
  shows "source_level (snd (allow peer now s)) p now =
    (if p = peer \<and> 1 \<le> source_level s peer now then f64_sub (source_level s peer now) 1
     else source_level s p now)"
proof (cases "p = peer")
  case False
  then have "source_level (snd (allow peer now s)) p now = source_level (source_sweep now s) p now"
    by (auto simp: allow_eq [OF assms] Let_def source_level_def [of _ p] source_refilled_def
        split: option.split)
  with False show ?thesis by (simp add: source_sweep_level [OF assms])
next
  case True
  let ?l = "source_level s peer now"
  define x where "x = (if ?l < 1 then ?l else f64_sub ?l 1)"
  have burst: "rnd (sr_burst s) = sr_burst s" using assms by (simp add: source_wf_def)
  have x: "rnd x = x" "x \<le> sr_burst s"
    using source_level_rnd [OF assms, of peer now] source_level_range [OF assms, of peer now]
      rnd_mono [of "?l - 1" "sr_burst s"] burst
    by (auto simp: x_def f64_sub_def)
  have "source_level (snd (allow peer now s)) peer now = min (filled x (sr_per_second s) 0) (sr_burst s)"
    by (simp add: allow_eq [OF assms] Let_def source_level_def source_refilled_eq duration_since_def x_def)
  with x True show ?thesis by (auto simp: filled_0 x_def)
qed

definition source_inv :: "peer_id \<times> source_rate \<Rightarrow> bool" where
  "source_inv = (\<lambda>(p, s). source_wf s)"

definition source_step :: "peer_id \<Rightarrow> instant \<Rightarrow> peer_id \<times> source_rate \<Rightarrow> bool \<times> peer_id \<times> source_rate" where
  "source_step = (\<lambda>peer t (p, s). case allow peer t s of (ok, s') \<Rightarrow> (ok, p, s'))"

definition source_charge :: "peer_id \<times> source_rate \<Rightarrow> peer_id \<Rightarrow> rat" where
  "source_charge = (\<lambda>(p, s) peer. if peer = p then 1 else 0)"

definition source_gain :: "peer_id \<times> source_rate \<Rightarrow> rat" where
  "source_gain = (\<lambda>(p, s). sr_per_second s / 1000000000 * (1 + 1 / 2 ^ 50))"

lemma source_level_gain:
  assumes "source_wf s" and "t \<le> t'"
  shows "source_level s p t' \<le> source_level s p t +
    of_nat (t' - t) * (sr_per_second s / 1000000000 * (1 + 1 / 2 ^ 50)) + sr_burst s / 2 ^ 48"
proof (cases "hm_get (sr_buckets s) p")
  case None
  have "0 \<le> of_nat (t' - t) * (sr_per_second s / 1000000000 * (1 + 1 / 2 ^ 50))"
    and "0 \<le> sr_burst s / 2 ^ 48" using assms(1) by (simp_all add: source_wf_def)
  with None show ?thesis by (simp only: source_level_def option.case)
next
  case (Some b)
  then have "0 \<le> tokens b" using assms(1) by (auto simp: source_wf_def bucket_ok_def dest: buckets_ok_get)
  with Some assms show ?thesis
    by (simp only: source_level_def source_refilled_eq option.case)
      (intro filled_gain, simp_all add: duration_since_def source_wf_def)
qed

lemma allow_fields:
  "source_wf s \<Longrightarrow> sr_per_second (snd (allow peer t s)) = sr_per_second s \<and>
     sr_burst (snd (allow peer t s)) = sr_burst s \<and> fst (allow peer t s) = (1 \<le> source_level s peer t)"
  by (simp add: allow_eq Let_def)

lemma allow_level_after:
  assumes "source_wf s"
  shows "source_level (snd (allow peer t s)) p t \<le>
    source_level s p t - (if fst (allow peer t s) \<and> peer = p then 1 else 0) +
    (if fst (allow peer t s) then sr_burst s / 2 ^ 48 else 0)"
proof (cases "p = peer \<and> 1 \<le> source_level s peer t")
  case True
  then have "rnd (source_level s p t - 1) \<le> source_level s p t - 1 + sr_burst s / 2 ^ 48"
    using source_level_range [OF assms, of p t] by (intro rnd_upper_slack) auto
  with True show ?thesis by (simp add: source_level_after [OF assms] allow_fields [OF assms] f64_sub_def)
next
  case False
  have "0 \<le> sr_burst s" using assms by (simp add: source_wf_def)
  with False show ?thesis by (auto simp: source_level_after [OF assms] allow_fields [OF assms])
qed

lemma source_step_iff:
  "source_step peer t (p, s) = (ok, s') \<longleftrightarrow> ok = fst (allow peer t s) \<and> s' = (p, snd (allow peer t s))"
  by (auto simp: source_step_def split: prod.splits)

interpretation source_bucket: bucket_law source_inv source_step source_charge
    "\<lambda>(p, s). source_level s p" "\<lambda>(p, s). sr_burst s" source_gain "\<lambda>(p, s). sr_burst s / 2 ^ 48"
proof (unfold_locales, goal_cases)
  case (1 s i t ok s')
  then show ?case
    by (cases s) (auto simp: source_step_iff source_inv_def source_gain_def source_charge_def
        source_wf_allow allow_fields)
next
  case (2 s t)
  then show ?case by (cases s) (simp add: source_inv_def source_level_range)
next
  case (3 s)
  then show ?case by (cases s) (simp add: source_inv_def source_wf_def)
next
  case (4 s t t')
  then show ?case
    by (cases s) (simp only: source_inv_def source_gain_def case_prod_conv source_level_gain)
next
  case (5 s i t s')
  then obtain p s0 where s: "s = (p, s0)" by (cases s) auto
  with 5 allow_level_after [of s0 i t p] show ?case
    by (simp add: source_inv_def source_charge_def source_step_iff)
next
  case (6 s i t s')
  then obtain p s0 where s: "s = (p, s0)" by (cases s) auto
  with 6 allow_level_after [of s0 i t p] show ?case
    by (simp add: source_inv_def source_charge_def source_step_iff)
qed

section \<open>The window of reports\<close>

text \<open>How many of a sequence of refusals are reported.\<close>

fun reports :: "instant list \<Rightarrow> limits \<Rightarrow> nat" where
  "reports [] L = 0"
| "reports (now # ts) L = (case may_report now L of (yes, L') \<Rightarrow> (if yes then 1 else 0) + reports ts L')"

lemma unat_Suc_u32: "unat (w :: u32) < 2 ^ 32 - 1 \<Longrightarrow> unat (w + 1) = Suc (unat w)"
  by (simp add: unat_word_ariths)

lemma reports_one_window:
  assumes "events_window L = Some w" and "\<forall>t \<in> set ts. t < w + from_secs 1"
    and "unat (events_in_window L) + length ts < 2 ^ 32"
  shows "reports ts L \<le> 10 - unat (events_in_window L)"
  using assms
proof (induction ts arbitrary: L)
  case (Cons now ts)
  let ?n = "events_in_window L"
  let ?L = "L\<lparr>events_in_window := ?n + 1\<rparr>"
  have in_window: "duration_since now w < from_secs 1"
    using Cons.prems(2) by (auto simp: duration_since_def from_secs_def)
  have n: "unat (?n + 1) = Suc (unat ?n)" using Cons.prems(3) by (intro unat_Suc_u32) simp
  have "reports ts ?L \<le> 10 - Suc (unat ?n)" using Cons.IH [of ?L] Cons.prems n by simp
  moreover have "?n + 1 \<le> EVENTS_PER_SECOND \<longleftrightarrow> Suc (unat ?n) \<le> 10"
    by (simp add: EVENTS_PER_SECOND_def word_le_nat_alt n)
  moreover have "reports (now # ts) L = (if ?n + 1 \<le> EVENTS_PER_SECOND then 1 else 0) + reports ts ?L"
    using Cons.prems(1) in_window by (simp add: may_report_def Let_def)
  ultimately show ?case by (simp split: if_splits)
qed simp

lemma reports_new_window:
  assumes "\<forall>w. events_window L = Some w \<longrightarrow> w + from_secs 1 \<le> t" and "length ts < 2 ^ 32 - 2"
    and "\<forall>x \<in> set ts. x < t + from_secs 1"
  shows "reports (t # ts) L \<le> 10"
proof -
  let ?L = "L\<lparr>events_window := Some t, events_in_window := 1\<rparr>"
  have "may_report t L = (True, ?L)"
    using assms(1) by (auto simp: may_report_def duration_since_def from_secs_def split: option.splits)
  moreover have "reports ts ?L \<le> 9" using reports_one_window [of ?L t ts] assms(2,3) by simp
  ultimately show ?thesis by simp
qed

lemma reports_bound:
  assumes "\<forall>w. events_window L = Some w \<longrightarrow> 1 \<le> unat (events_in_window L)"
    and "\<forall>t \<in> set ts. t0 \<le> t \<and> t < t0 + from_secs 1"
    and "unat (events_in_window L) + length ts < 2 ^ 32 - 2"
  shows "reports ts L \<le> (if events_window L = None then 0 else 10 - unat (events_in_window L)) + 10"
  using assms
proof (induction ts arbitrary: L)
  case (Cons t ts)
  show ?case
  proof (cases "\<exists>w. events_window L = Some w \<and> t < w + from_secs 1")
    case False
    have rest: "\<forall>x \<in> set ts. x < t + from_secs 1" using Cons.prems(2) by fastforce
    from False Cons.prems(3) rest have "reports (t # ts) L \<le> 10"
      by (intro reports_new_window) (auto simp: not_less)
    then show ?thesis by linarith
  next
    case True
    let ?n = "events_in_window L"
    let ?L = "L\<lparr>events_in_window := ?n + 1\<rparr>"
    have n: "unat (?n + 1) = Suc (unat ?n)" using Cons.prems(3) by (intro unat_Suc_u32) simp
    have "reports ts ?L \<le> 10 - Suc (unat ?n) + 10"
      using Cons.IH [of ?L] Cons.prems n True by auto
    moreover have "?n + 1 \<le> EVENTS_PER_SECOND \<longleftrightarrow> Suc (unat ?n) \<le> 10"
      by (simp add: EVENTS_PER_SECOND_def word_le_nat_alt n)
    moreover have "reports (t # ts) L = (if ?n + 1 \<le> EVENTS_PER_SECOND then 1 else 0) + reports ts ?L"
      using True by (auto simp: may_report_def Let_def duration_since_def from_secs_def)
    ultimately show ?thesis using True by (auto split: if_splits)
  qed
qed simp

section \<open>Operations and reachable limits\<close>

datatype limit_op =
    OpSetClass lp2p_key u8
  | OpSetLimit u8 u8 u16 limit_unit lp2p_rate
  | OpCheck limit_request nat instant
  | OpSweep instant
  | OpMayReport instant

fun limit_run :: "limit_op \<Rightarrow> limits \<Rightarrow> limits" where
  "limit_run (OpSetClass grp class) L = set_class grp class L"
| "limit_run (OpSetLimit class scope protocol un rate) L = set_limit class scope protocol un rate L"
| "limit_run (OpCheck req n now) L = snd (check req n now L)"
| "limit_run (OpSweep now) L = sweep now L"
| "limit_run (OpMayReport now) L = snd (may_report now L)"

inductive reachable_limits :: "limits \<Rightarrow> bool" where
  start: "reachable_limits limits_default"
| step: "reachable_limits L \<Longrightarrow> reachable_limits (limit_run op L)"

lemma limits_wf_default: "limits_wf limits_default"
  by (simp add: limits_wf_def limits_default_def buckets_ok_def)

lemma limits_wf_set_class: "limits_wf L \<Longrightarrow> limits_wf (set_class grp class L)"
  by (auto simp: limits_wf_def set_class_def)

lemma limits_wf_set_limit: "limits_wf L \<Longrightarrow> limits_wf (set_limit class scope protocol un rate L)"
  by (auto simp: limits_wf_def set_limit_def Let_def rate_ok_def distinct_map_filter)

lemma limits_wf_may_report: "limits_wf L \<Longrightarrow> limits_wf (snd (may_report now L))"
  by (simp add: limits_wf_def may_report_def Let_def split: option.splits)

lemma limits_wf_run: "limits_wf L \<Longrightarrow> limits_wf (limit_run op L)"
  using check_preserves [of L]
  by (cases op) (auto simp: limits_wf_set_class limits_wf_set_limit limits_wf_sweep limits_wf_may_report
      split: prod.splits, metis prod.collapse)

lemma reachable_limits_wf: "reachable_limits L \<Longrightarrow> limits_wf L"
  by (induction rule: reachable_limits.induct) (simp_all add: limits_wf_default limits_wf_run)

lemma per_second_upper:
  "per_second rate \<le> of_nat (unat (amount rate)) * 1000 / of_nat (unat (interval_ms rate)) * (1 + 1 / 2 ^ 53)"
proof -
  let ?a = "unat (amount rate)"
  have "?a * 1000 \<le> 2 ^ 53" using unsigned_less [of "amount rate", where ?'a = nat] by simp
  then have "rnd (of_nat (?a * 1000)) = of_nat (?a * 1000)" by (rule rnd_of_nat)
  then have "per_second rate = rnd (of_nat ?a * 1000 / of_nat (unat (interval_ms rate)))"
    by (simp add: per_second_def f64_mul_def f64_div_def u32_f64_eq)
  also have "\<dots> \<le> of_nat ?a * 1000 / of_nat (unat (interval_ms rate)) * (1 + 1 / 2 ^ 53)"
    by (intro rnd_upper divide_nonneg_nonneg mult_nonneg_nonneg of_nat_0_le_iff) simp
  finally show ?thesis .
qed

lemma rule_gain_upper:
  "rule_gain (r, key, L) \<le> of_nat (unat (amount (rule_rate r))) /
     (of_nat (unat (interval_ms (rule_rate r))) * 1000000) * (1 + 1 / 2 ^ 49)"
proof -
  let ?x = "of_nat (unat (amount (rule_rate r))) * 1000 / of_nat (unat (interval_ms (rule_rate r))) :: rat"
  have "rule_gain (r, key, L) \<le> ?x * (1 + 1 / 2 ^ 53) / 1000000000 * (1 + 1 / 2 ^ 50)"
    unfolding rule_gain_def case_prod_conv
    by (intro mult_right_mono divide_right_mono per_second_upper) simp_all
  also have "\<dots> = ?x / 1000000000 * ((1 + 1 / 2 ^ 53) * (1 + 1 / 2 ^ 50))" by simp
  also have "\<dots> \<le> ?x / 1000000000 * (1 + 1 / 2 ^ 49)"
    by (intro mult_left_mono divide_nonneg_nonneg mult_nonneg_nonneg of_nat_0_le_iff) simp_all
  finally show ?thesis by simp
qed

section \<open>Properties\<close>

definition demo_rate :: lp2p_rate where
  "demo_rate = \<lparr>amount = 1, interval_ms = 1000, burst = 2\<rparr>"

definition demo_rule :: rule where
  "demo_rule = \<lparr>rule_of = \<lparr>ri_class = 0, ri_scope = LP2P_SCOPE_PEER, ri_protocol = LP2P_PROTOCOL_ANY,
     ri_unit = Messages\<rparr>, rule_rate = demo_rate\<rparr>"

definition demo_limits :: limits where
  "demo_limits = set_limit 0 LP2P_SCOPE_PEER LP2P_PROTOCOL_ANY Messages demo_rate limits_default"

definition demo_request :: limit_request where
  "demo_request = \<lparr>lr_group = replicate 32 1, lr_peer = PeerId 0 [7], lr_ip = None, lr_protocol = 3\<rparr>"

lemma demo_limits_eq: "demo_limits = limits_default\<lparr>rules := [demo_rule]\<rparr>"
  by (simp add: demo_limits_def set_limit_def demo_rule_def demo_rate_def limits_default_def)

lemma demo_limits_wf: "limits_wf demo_limits"
  unfolding demo_limits_def by (intro limits_wf_set_limit limits_wf_default)

lemma demo_matching: "matching demo_limits demo_request = [(demo_rule, KPeer (PeerId 0 [7]))]"
  by (simp add: demo_limits_eq matching_def demo_rule_def demo_request_def class_of_def limits_default_def
      key_for_def map_filter_simps class_defs)

lemma demo_level: "level (buckets demo_limits) demo_rule key now = 2"
  by (simp add: level_eq demo_limits_eq limits_default_def demo_rule_def demo_rate_def u32_f64_eq)

text \<open>
  Whatever is set, checked, swept and reported, the limits stay well formed: no group is stored
  as unknown, no two rules share a class, scope, protocol and unit, no rule has a zero in its rate,
  and no bucket holds a negative number of tokens.
\<close>

theorem limits_invariant: "reachable_limits L \<Longrightarrow> limits_wf L"
  by (rule reachable_limits_wf)

theorem limits_invariant_witness: "limits_wf (limit_run (OpCheck demo_request 1 5) demo_limits)"
proof -
  have "reachable_limits (limit_run (OpCheck demo_request 1 5)
      (limit_run (OpSetLimit 0 LP2P_SCOPE_PEER LP2P_PROTOCOL_ANY Messages demo_rate) limits_default))"
    by (intro reachable_limits.intros)
  then show ?thesis using limits_invariant by (simp add: demo_limits_def)
qed

text \<open>
  C15: An admission decision. A blocked group is refused as such; otherwise the answer is the scope
  of the first matching limit whose refilled bucket holds less than the cost, and the request is
  admitted when there is none. An admitted request takes its cost from the bucket of each matching
  limit and from no other; a refused one takes nothing from any bucket. Classes and rules do not change.
\<close>

theorem check_admission:
  assumes "limits_wf L" and "check req n now L = (res, L')"
  shows "res = (if class_of L (lr_group req) = LP2P_CLASS_BLOCKED then Inl LP2P_LIMITED_BLOCKED
      else case List.find (\<lambda>(r, key). level (buckets L) r key now < cost n r) (matching L req) of
          Some (r, key) \<Rightarrow> Inl (ucast (ri_scope (rule_of r))) | None \<Rightarrow> Inr ()) \<and>
    classes L' = classes L \<and> rules L' = rules L \<and>
    (\<forall>r \<in> set (rules L). \<forall>key. level (buckets L') r key now =
       (if res = Inr () \<and> (r, key) \<in> set (matching L req)
        then f64_sub (level (buckets L) r key now) (cost n r) else level (buckets L) r key now))"
  using check_decides [OF assms] check_preserves [OF assms] check_level [OF assms]
  unfolding refused_by_def by blast

theorem check_admission_witness:
  "fst (check demo_request 9 5 demo_limits) = Inr () \<and>
   level (buckets (snd (check demo_request 9 5 demo_limits))) demo_rule (KPeer (PeerId 0 [7])) 5 = 1"
proof -
  obtain res L' where c: "check demo_request 9 5 demo_limits = (res, L')" by fastforce
  have "class_of demo_limits (lr_group demo_request) \<noteq> LP2P_CLASS_BLOCKED"
    by (simp add: class_of_def demo_limits_eq limits_default_def class_defs)
  moreover have "demo_rule \<in> set (rules demo_limits)" by (simp add: demo_limits_eq)
  moreover have "cost 9 demo_rule = 1" by (simp add: cost_def demo_rule_def)
  ultimately show ?thesis
    using check_admission [OF demo_limits_wf c] rnd_of_nat [of 1]
    by (simp add: c demo_matching demo_level f64_sub_def)
qed

text \<open>
  C24: The rate of a limit holds over time. Take any bucket of any rule and any sequence of checks, of
  any requests, at instants that do not go back within a period of \<open>d\<close> nanoseconds: the messages or
  bytes admitted on that bucket are at most the burst plus the rate times the period, up to the rounding of
  the doubles (one part in \<open>2^49\<close> of the rate and one in \<open>2^47\<close> of the burst per check).
\<close>

theorem admission_rate:
  assumes "limits_wf L" and "r \<in> set (rules L)" and "sorted (map snd es)"
    and "\<forall>e \<in> set es. t0 \<le> snd e \<and> snd e \<le> t0 + d"
  shows "admitted rule_step rule_charge es (r, key, L) \<le>
    of_nat (unat (burst (rule_rate r))) * (1 + of_nat (Suc (length es)) / 2 ^ 47) +
    of_nat d * (of_nat (unat (amount (rule_rate r))) /
      (of_nat (unat (interval_ms (rule_rate r))) * 1000000) * (1 + 1 / 2 ^ 49))"
proof -
  have "admitted rule_step rule_charge es (r, key, L) \<le>
      rule_cap (r, key, L) + of_nat d * rule_gain (r, key, L) +
      2 * of_nat (Suc (length es)) * (rule_cap (r, key, L) / 2 ^ 48)"
    using assms by (intro rule_bucket.admitted_bound) (auto simp: rule_inv_def)
  moreover have "of_nat d * rule_gain (r, key, L) \<le> of_nat d * (of_nat (unat (amount (rule_rate r))) /
      (of_nat (unat (interval_ms (rule_rate r))) * 1000000) * (1 + 1 / 2 ^ 49))"
    by (intro mult_left_mono rule_gain_upper) simp
  moreover have "2 * of_nat (Suc (length es)) * (rule_cap (r, key, L) / 2 ^ 48) =
      of_nat (unat (burst (rule_rate r))) * (of_nat (Suc (length es)) / 2 ^ 47)"
    by (simp add: rule_cap_def u32_f64_eq)
  ultimately show ?thesis by (simp only: rule_cap_def case_prod_conv u32_f64_eq ring_distribs mult_1_right)
qed

theorem admission_rate_witness:
  "admitted rule_step rule_charge [((demo_request, 1), 5), ((demo_request, 1), 6), ((demo_request, 1), 7)]
     (demo_rule, KPeer (PeerId 0 [7]), demo_limits) \<le> 2 + 1 / 2 ^ 20"
proof -
  have rates: "rule_rate demo_rule = \<lparr>amount = 1, interval_ms = 1000, burst = 2\<rparr>"
    by (simp add: demo_rule_def demo_rate_def)
  have "demo_rule \<in> set (rules demo_limits)" by (simp add: demo_limits_eq)
  from admission_rate [OF demo_limits_wf this,
      of "[((demo_request, 1), 5), ((demo_request, 1), 6), ((demo_request, 1), 7)]" 5 2 "KPeer (PeerId 0 [7])"]
  show ?thesis by (simp add: rates del: admitted.simps)
qed

text \<open>
  The same for announcements: from one source, at most the burst plus one per interval are let
  through, up to rounding, whatever the other sources do and although full buckets are forgotten.
\<close>

theorem announcement_rate:
  assumes "source_wf s" and "sorted (map snd es)" and "\<forall>e \<in> set es. t0 \<le> snd e \<and> snd e \<le> t0 + d"
  shows "admitted source_step source_charge es (p, s) \<le>
    sr_burst s * (1 + of_nat (Suc (length es)) / 2 ^ 47) +
    of_nat d * (sr_per_second s / 1000000000 * (1 + 1 / 2 ^ 50))"
proof -
  have "admitted source_step source_charge es (p, s) \<le>
      sr_burst s + of_nat d * source_gain (p, s) + 2 * of_nat (Suc (length es)) * (sr_burst s / 2 ^ 48)"
    using source_bucket.admitted_bound [of "(p, s)" es t0 d] assms by (simp add: source_inv_def)
  moreover have "2 * of_nat (Suc (length es)) * (sr_burst s / 2 ^ 48) =
      sr_burst s * (of_nat (Suc (length es)) / 2 ^ 47)" by simp
  ultimately show ?thesis by (simp only: source_gain_def case_prod_conv ring_distribs mult_1_right)
qed

definition demo_source :: source_rate where
  "demo_source = source_rate_new (from_secs 1) 2"

theorem announcement_rate_witness:
  "admitted source_step source_charge [(PeerId 0 [7], 5), (PeerId 0 [8], 5), (PeerId 0 [7], 5), (PeerId 0 [7], 5)]
     (PeerId 0 [7], demo_source) \<le> 2 + 1 / 2 ^ 40"
proof -
  have s: "sr_burst demo_source = 2" "source_wf demo_source"
    by (simp add: demo_source_def source_rate_new_def u32_f64_eq) (simp only: demo_source_def source_wf_new)
  from announcement_rate [OF s(2),
      of "[(PeerId 0 [7], 5), (PeerId 0 [8], 5), (PeerId 0 [7], 5), (PeerId 0 [7], 5)]" 5 0 "PeerId 0 [7]"]
  show ?thesis by (simp add: s del: admitted.simps)
qed



text \<open>
  Refusals are reported sparsely. Within any period shorter than a second at most 19 calls of
  \<open>may_report\<close> answer yes: what is left of the window that is open plus ten of the next one. The witness
  reaches 19 within 20 ms, so the window does not give ten in every second.
\<close>

theorem reports_per_second:
  assumes "\<forall>w. events_window L = Some w \<longrightarrow> 1 \<le> unat (events_in_window L)"
    and "\<forall>t \<in> set ts. t0 \<le> t \<and> t < t0 + from_secs 1"
    and "unat (events_in_window L) + length ts < 2 ^ 32 - 2"
  shows "reports ts L \<le> 19 \<and>
    (\<forall>w. events_window L = Some w \<longrightarrow> (\<forall>t \<in> set ts. t < w + from_secs 1) \<longrightarrow>
       reports ts L \<le> 10 - unat (events_in_window L))"
proof -
  note b = reports_bound [OF assms]
  have "unat (events_in_window L) \<ge> 1" if "events_window L \<noteq> None" using assms(1) that by auto
  with b have "reports ts L \<le> 19" by (auto split: if_splits)
  with reports_one_window [of L _ ts] assms(3) show ?thesis by auto
qed

definition demo_opened :: limits where
  "demo_opened = snd (may_report 0 limits_default)"

definition demo_instants :: "instant list" where
  "demo_instants =
     [990000000, 990000000, 990000000, 990000000, 990000000, 990000000, 990000000, 990000000, 990000000,
      1000000000, 1000000000, 1000000000, 1000000000, 1000000000, 1000000000, 1000000000, 1000000000,
      1000000000, 1000000000]"

theorem reports_per_second_witness:
  "reports demo_instants demo_opened = 19 \<and> reports demo_instants demo_opened \<le> 19"
proof -
  have L: "demo_opened = limits_default\<lparr>events_window := Some 0, events_in_window := 1\<rparr>"
    by (simp add: demo_opened_def may_report_def limits_default_def)
  have "reports demo_instants demo_opened = 19"
    by (simp add: demo_instants_def L may_report_def Let_def duration_since_def from_secs_def
        EVENTS_PER_SECOND_def)
  moreover have "reports demo_instants demo_opened \<le> 19"
    using reports_per_second [of demo_opened demo_instants 990000000]
    by (simp add: L from_secs_def demo_instants_def del: reports.simps)
  ultimately show ?thesis by blast
qed

end
