(* ===== verification/DemoNet.thy ===== *)
theory DemoNet
  imports CallInvariant Loop
begin

text \<open>
  A small libp2p to compute with: its state is a counter that also serves as clock and as the source
  of identifiers, nobody is connected, every dial and subscription succeeds and every publication is
  sent. The witnesses of the node's properties run the model on it.
\<close>

definition demo_net :: "nat net" where
  "demo_net = \<lparr>
     n_crypto = demo_crypto,
     n_endian = Little,
     multiaddr_to_string = (\<lambda>a. ascii ''/'' @ [word_of_nat (length a)]),
     hop_protocol = ascii ''/libp2p/circuit/relay/0.2.0/hop'',
     instant_now = (\<lambda>x. x),
     now_ms = (\<lambda>x. 0),
     is_connected = (\<lambda>p x. False),
     connected_peers = (\<lambda>x. []),
     num_peers = (\<lambda>x. 0),
     external_addresses = (\<lambda>x. []),
     kbuckets = (\<lambda>x. []),
     mesh_peers = (\<lambda>t x. []),
     random_peer = (\<lambda>x. PeerId 0 []),
     get_providers = (\<lambda>k x. (x, Suc x)),
     get_closest_peers = (\<lambda>p x. (x, Suc x)),
     kad_bootstrap = (\<lambda>x. (Some x, Suc x)),
     send_request = (\<lambda>p f x. (x, Suc x)),
     listen_on = (\<lambda>a x. (Some x, Suc x)),
     subscribe = (\<lambda>t x. (True, x)),
     publish = (\<lambda>t f x. (Published, x)),
     dial = (\<lambda>p x. (True, x)),
     act = (\<lambda>a x. x)\<rparr>"

definition demo_issued :: "nat \<Rightarrow> nat set" where
  "demo_issued x = {..<x}"

lemma demo_net_fresh: "net_fresh demo_net demo_issued demo_issued"
  unfolding net_fresh_def by (intro conjI allI) (auto simp: demo_net_def demo_issued_def ids_grow_def)

definition demo_seed :: bytes where
  "demo_seed = replicate 32 2"

definition demo_grant :: delegation where
  "demo_grant = \<lparr>d_node = demo_seed, d_group = replicate 32 1, d_expires_ms = 0,
     d_signature = replicate 32 1 @ demo_pad 32 (drop 24 (message demo_seed (replicate 32 1) 0))\<rparr>"

definition demo_config :: config where
  "demo_config = \<lparr>c_node_seed = demo_seed, c_delegation = demo_grant, c_listen = [],
     c_dht_protocol = ascii ''/kad'', c_rpc_protocols = [ascii ''/echo''], c_rpc_max_request_bytes = 1000,
     c_rpc_max_response_bytes = 1000, c_rpc_timeout = from_secs 1, c_quic = False, c_dcutr = False,
     c_autonat = False, c_reachability = Unknown,
     c_relay = \<lparr>rc_server = False, rc_client = True, rc_max_reservations = 1, rc_max_reservations_per_peer = 1,
       rc_reservation_duration = from_secs 60, rc_max_circuits = 1, rc_max_circuits_per_peer = 1,
       rc_max_circuit_duration = from_secs 60, rc_max_circuit_bytes = 1000, rc_circuits_per_peer = None,
       rc_circuits_per_ip = None\<rparr>,
     c_max_connections = None, c_max_connections_per_peer = None, c_max_pending_incoming = None,
     c_announce = None, c_event_queue_bytes = 100000, c_topic_max_message_bytes = 1000,
     c_topic_max_subscriptions = 2\<rparr>"

lemma demo_grant_ok: "verify_for demo_crypto demo_grant demo_seed 0 = Inr ()"
  by (simp add: verify_for_def verify_def demo_grant_def demo_crypto_def)

definition demo_peer :: peer_id where
  "demo_peer = PeerId 0 demo_seed"

definition demo_world :: "nat world" where
  "demo_world = provide demo_net (emit demo_net ((event_new LP2P_EV_REACHABILITY)\<lparr>ev_reason :=
     ucast (reach_code Unknown)\<rparr>) [] (world_new demo_config demo_peer 0 0))"

lemma demo_net_simps [simp]:
  "n_crypto demo_net = demo_crypto" "instant_now demo_net x = x" "now_ms demo_net x = 0"
  "is_connected demo_net p x = False" "get_providers demo_net k x = (x, Suc x)"
  "get_closest_peers demo_net p x = (x, Suc x)" "send_request demo_net p f x = (x, Suc x)"
  "subscribe demo_net t x = (True, x)" "listen_on demo_net a x = (Some x, Suc x)" "act demo_net ac x = x"
  "connected_peers demo_net x = []" "external_addresses demo_net x = []"
  by (simp_all add: demo_net_def)

lemma demo_start: "start demo_net demo_config 0 (Inr 0) [] = Inr demo_world"
proof -
  have "keypair_from_seed demo_crypto (c_node_seed demo_config) = Some demo_seed"
    "public_key demo_crypto demo_seed = Some demo_seed"
    "to_peer_id demo_crypto (keypair_public demo_crypto demo_seed) = demo_peer"
    by (simp_all add: keypair_from_seed_def public_key_def demo_config_def demo_crypto_def demo_seed_def demo_peer_def)
  moreover have "c_delegation demo_config = demo_grant" "c_listen demo_config = []" "c_reachability demo_config = Unknown"
    by (simp_all add: demo_config_def)
  ultimately show ?thesis
    by (simp add: start_def demo_grant_ok run_thread_start_def Let_def demo_world_def)
qed

lemma demo_state:
  "s_rpc_protocols (w_state demo_world) = [ascii ''/echo'']" "s_limits (w_state demo_world) = limits_default"
  "w_net demo_world = 0" "calls (w_state demo_world) = []" "outbound (w_state demo_world) = []"
  "sh_next_id (shared (w_state demo_world)) = 1" "topics (w_state demo_world) = []"
  "topic_keys (w_state demo_world) = []" "topic_max_subscriptions (w_state demo_world) = 2"
  "topic_max_message_bytes (w_state demo_world) = 1000" "peer_ips (w_state demo_world) = []"
  "announce_rate (w_state demo_world) = source_rate_new ANNOUNCE_INTERVAL ANNOUNCE_BURST"
  "s_delegation (w_state demo_world) = to_bytes demo_grant" "w_book demo_world = address_book_default"
  by (simp_all add: demo_world_def provide_def Let_def world_new_def state_new_def shared_new_def demo_config_def)

lemma demo_grant_wf: "delegation_wf demo_grant"
  by (simp add: delegation_wf_def demo_grant_def demo_seed_def)

lemmas demo_grant_length = length_to_bytes [OF demo_grant_wf]

lemma demo_sender: "checked_sender demo_net demo_peer (to_bytes demo_grant) 0 = Some (demo_seed, replicate 32 1)"
proof -
  have "parse (to_bytes demo_grant) = Inr demo_grant"
    by (rule parse_to_bytes [OF demo_grant_wf])
  moreover have "d_group demo_grant = replicate 32 1" by (simp add: demo_grant_def)
  moreover have "key_of demo_crypto demo_peer = Some demo_seed"
    by (simp add: key_of_def demo_peer_def demo_crypto_def demo_seed_def)
  ultimately show ?thesis by (simp add: checked_sender_iff demo_grant_ok)
qed

lemma demo_check: "check req k t limits_default = (Inr (), limits_default)"
  by (simp add: check_def limits_default_def class_of_def class_defs matching_def Let_def MAX_BUCKETS_def)

definition demo_request_frame :: bytes where
  "demo_request_frame = encode_request (to_bytes demo_grant) (ascii ''/echo'') [7]"

lemma demo_request_decodes: "decode_request demo_request_frame =
    Some \<lparr>rq_delegation = to_bytes demo_grant, rq_protocol = ascii ''/echo'', rq_payload = [7]\<rparr>"
  using decode_encode_request [of "\<lparr>rq_delegation = to_bytes demo_grant, rq_protocol = ascii ''/echo'', rq_payload = [7]\<rparr>"]
  by (simp add: demo_request_frame_def request_frame_def request_wf_def demo_grant_length LP2P_DELEGATION_BYTES_def ascii_def)

definition demo_response_frame :: bytes where
  "demo_response_frame = encode_response (to_bytes demo_grant) [8]"

lemma demo_response_decodes: "decode_response demo_response_frame =
    Some \<lparr>rs_delegation = to_bytes demo_grant, rs_payload = [8]\<rparr>"
  using decode_encode_response [of "\<lparr>rs_delegation = to_bytes demo_grant, rs_payload = [8]\<rparr>"]
  by (simp add: demo_response_frame_def response_frame_def response_wf_def demo_grant_length LP2P_DELEGATION_BYTES_def)

end
