(* ===== verification/NodeBounds.thy ===== *)
theory NodeBounds
  imports Emissions Admission DemoNet
begin

text \<open>
  What the node's own memory may grow to, whatever arrives: the invariant \<open>world_ok\<close> holds from start-up on
  and every turn of the main loop keeps it. \<open>safe\<close> is the relation its steps are in: the settings of the
  node stay and the invariant is kept.
\<close>

section \<open>The invariant\<close>

text \<open>Reservations exist only while the node is private and a configured reachability is final.\<close>

definition relay_ok :: "state \<Rightarrow> bool" where
  "relay_ok s \<longleftrightarrow> hm_len (reservations s) \<le> MAX_RESERVATIONS \<and> (reservations s = [] \<or> is_private s) \<and>
     hm_len (relay_candidates s) \<le> MAX_RELAY_CANDIDATES \<and>
     (configured s = Unknown \<or> s_reachability s = configured s)"

text \<open>Topics and their gossipsub names determine each other.\<close>

definition topics_ok :: "state \<Rightarrow> bool" where
  "topics_ok s \<longleftrightarrow> hm_wf (topics s) \<and> hm_len (topics s) \<le> topic_max_subscriptions s \<and>
     sh_topics_subscribed (shared s) = word_of_nat (hm_len (topics s)) \<and>
     (\<forall>k ts. hm_get (topics s) k = Some ts \<longrightarrow> ts_topic ts = topic_name k) \<and>
     (\<forall>t k. hm_get (topic_keys s) t = Some k \<longleftrightarrow> k \<in> hm_keys (topics s) \<and> t = topic_name k)"

definition memory_ok :: "state \<Rightarrow> bool" where
  "memory_ok s \<longleftrightarrow> hm_len (failed s) \<le> MAX_REMEMBERED \<and> hm_len (last_success s) \<le> MAX_REMEMBERED"

definition rates_ok :: "state \<Rightarrow> bool" where
  "rates_ok s \<longleftrightarrow> limits_wf (s_limits s) \<and> source_wf (announce_rate s)"

definition state_ok :: "state \<Rightarrow> bool" where
  "state_ok s \<longleftrightarrow> relay_ok s \<and> topics_ok s \<and> memory_ok s \<and> rates_ok s \<and> queue_wf (sh_events (shared s))"

definition world_ok :: "'sw world \<Rightarrow> bool" where
  "world_ok w \<longleftrightarrow> state_ok (w_state w) \<and> book_wf (w_book w)"

text \<open>What start-up fixed.\<close>

definition settings where
  "settings s = (local_peer s, s_group s, s_delegation s, s_dht_protocol s, s_rpc_protocols s, configured s,
     listens_on_wildcard s, relay_client s, announce_topic s, topic_max_message_bytes s, topic_max_subscriptions s,
     q_max_bytes (sh_events (shared s)), q_closed (sh_events (shared s)), sh_poisoned (shared s))"

definition safe :: "'sw world \<Rightarrow> 'sw world \<Rightarrow> bool" where
  "safe w w' \<longleftrightarrow> settings (w_state w') = settings (w_state w) \<and> (world_ok w \<longrightarrow> world_ok w')"

definition preserves :: "(state \<Rightarrow> state) \<Rightarrow> bool" where
  "preserves f \<longleftrightarrow> (\<forall>s. settings (f s) = settings s \<and> (state_ok s \<longrightarrow> state_ok (f s)))"

named_theorems safe_intros \<open>steps that keep the settings and the bounds\<close>

lemma safe_refl [safe_intros]: "safe w w"
  by (simp add: safe_def)

lemma safe_trans: "safe w w1 \<Longrightarrow> safe w1 w2 \<Longrightarrow> safe w w2"
  by (simp add: safe_def)

lemma safe_state [safe_intros]: "preserves f \<Longrightarrow> safe w w1 \<Longrightarrow> safe w (w_state_update f w1)"
  by (simp add: safe_def preserves_def world_ok_def)

lemma safe_net [safe_intros]: "safe w w1 \<Longrightarrow> safe w (w1\<lparr>w_net := x\<rparr>)"
  by (simp add: safe_def world_ok_def)

lemma safe_do_act [safe_intros]: "safe w w1 \<Longrightarrow> safe w (do_act n a w1)"
  by (simp add: safe_def world_ok_def)

lemma safe_fold: "(\<And>a w. safe w (f a w)) \<Longrightarrow> safe w w1 \<Longrightarrow> safe w (fold f xs w1)"
  by (induction xs arbitrary: w1) (simp, metis fold_simps(2) safe_trans)

lemma preserves_comp [safe_intros]: "preserves f \<Longrightarrow> preserves g \<Longrightarrow> preserves (f \<circ> g)"
  by (simp add: preserves_def)

lemmas ok_defs = state_ok_def relay_ok_def topics_ok_def memory_ok_def rates_ok_def settings_def is_private_def

lemma preserves_fields [safe_intros]:
  "preserves (calls_update f1)" "preserves (outbound_update f2)" "preserves (inbound_update f3)"
  "preserves (inbound_ids_update f4)" "preserves (provider_lookups_update f5)" "preserves (resolutions_update f6)"
  "preserves (bootstraps_update f7)" "preserves (walks_update f8)" "preserves (provide_due_update f9)"
  "preserves (last_provide_update f10)" "preserves (sample_offset_update f11)" "preserves (listening_update f12)"
  "preserves (relay_failed_update f13)" "preserves (dialed_update f14)" "preserves (s_connections_update f15)"
  "preserves (last_sweep_update f16)" "preserves (announce_payload_update f17)"
  "preserves (announce_published_update f18)" "preserves (topic_lookups_update f19)"
  "preserves (provider_queries_update f20)" "preserves (peer_ips_update f21)"
  by (simp_all add: preserves_def ok_defs)

lemma preserves_shared [safe_intros]:
  "(\<And>sh. sh_events (f sh) = sh_events sh \<and> sh_topics_subscribed (f sh) = sh_topics_subscribed sh \<and>
     sh_poisoned (f sh) = sh_poisoned sh) \<Longrightarrow>
   preserves (shared_update f)"
  by (simp add: preserves_def ok_defs)

lemma preserves_limits [safe_intros]: "(\<And>L. limits_wf L \<Longrightarrow> limits_wf (f L)) \<Longrightarrow> preserves (s_limits_update f)"
  by (simp add: preserves_def ok_defs)

lemma preserves_announce_rate:
  "(\<And>r. source_wf r \<Longrightarrow> source_wf (f r)) \<Longrightarrow> preserves (announce_rate_update f)"
  by (simp add: preserves_def ok_defs)

lemma preserves_memory [safe_intros]:
  "(\<And>m. hm_len m \<le> MAX_REMEMBERED \<Longrightarrow> hm_len (f m) \<le> MAX_REMEMBERED) \<Longrightarrow> preserves (failed_update f)"
  "(\<And>m. hm_len m \<le> MAX_REMEMBERED \<Longrightarrow> hm_len (g m) \<le> MAX_REMEMBERED) \<Longrightarrow> preserves (last_success_update g)"
  by (simp_all add: preserves_def ok_defs)

lemma safe_book [safe_intros]:
  "safe w w1 \<Longrightarrow> (book_wf (w_book w1) \<Longrightarrow> book_wf b) \<Longrightarrow> safe w (w1\<lparr>w_book := b\<rparr>)"
  by (auto simp: safe_def world_ok_def)

lemma push_max [simp]: "q_max_bytes (push r q) = q_max_bytes q" "q_closed (push r q) = q_closed q"
  by (simp_all add: push_def)

lemma length_record_any: "length (event_data e h d) = padded_size (length d)"
  by (simp add: event_data_def resize_def min_def)

lemma state_ok_push: "state_ok s \<Longrightarrow> state_ok (shared_update (sh_events_update (push (event_data e h d))) s)"
  using padded_size_bounds(1) [of "length d"]
  by (simp add: ok_defs length_record_any queue_wf_push)

lemma safe_emit [safe_intros]: "safe w w1 \<Longrightarrow> safe w (emit n h d w1)"
  using state_ok_push by (simp add: emit_def safe_def world_ok_def settings_def)

section \<open>Topics\<close>

lemma safe_announce [safe_intros]: "safe w w1 \<Longrightarrow> safe w (announce n w1)"
  unfolding announce_def by (auto simp: Let_def split: option.splits prod.splits intro!: safe_intros)

lemma preserves_lookup_time:
  assumes "hm_get (topics s) key = Some ts" and "state_ok s"
  shows "state_ok (topics_update (hm_insert key (ts\<lparr>ts_last_lookup := t\<rparr>)) s)"
proof -
  have "key \<in> hm_keys (topics s)" using assms(1) by (metis map_of_eq_None_iff option.distinct(1))
  with assms show ?thesis by (simp add: ok_defs hm_len_insert hm_contains_def insert_absorb)
qed

lemma safe_topic_lookup [safe_intros]: "safe w w1 \<Longrightarrow> safe w (topic_lookup n key w1)"
proof (rule safe_trans)
  obtain q x where g: "get_providers n (provider_key (n_crypto n) key) (w_net w1) = (q, x)" by fastforce
  define w2 where "w2 = w_state_update (topic_lookups_update (hm_insert q key)) (w1\<lparr>w_net := x\<rparr>)"
  have "safe w1 w2" "topics (w_state w1) = topics (w_state w2)" unfolding w2_def by (intro safe_intros) simp
  moreover from this(2) have "safe w2 (topic_lookup n key w1)"
    using preserves_lookup_time [of "w_state w2" key]
    by (auto simp: topic_lookup_def g simp flip: w2_def split: option.split)
       (auto simp: safe_def world_ok_def settings_def)
  ultimately show "safe w1 (topic_lookup n key w1)" by (blast intro: safe_trans)
qed

lemma state_ok_subscribed:
  assumes "state_ok s" and "key \<notin> hm_keys (topics s)" and "hm_len (topics s) < topic_max_subscriptions s"
  shows "state_ok ((\<lambda>s. shared_update (sh_topics_subscribed_update (\<lambda>_. word_of_nat (hm_len (topics s)))) s)
    (topics_update (hm_insert key \<lparr>ts_topic = topic_name key, ts_last_lookup = t\<rparr>)
      (topic_keys_update (hm_insert (topic_name key) key) s)))"
  using assms by (auto simp: ok_defs hm_len_insert hm_contains_keys dest: topic_name_inj)

lemma safe_topic_subscribe [safe_intros]: "safe w w1 \<Longrightarrow> safe w (topic_subscribe n key w1)"
proof (rule safe_trans)
  obtain ok x where g: "subscribe n (topic_name key) (w_net w1) = (ok, x)" by fastforce
  let ?f = "topics_update (hm_insert key \<lparr>ts_topic = topic_name key, ts_last_lookup = None\<rparr>) \<circ>
    topic_keys_update (hm_insert (topic_name key) key)"
  have "safe w1 (store_topic_count (w_state_update ?f (w1\<lparr>w_net := x\<rparr>)))"
    if "key \<notin> hm_keys (topics (w_state w1))" "hm_len (topics (w_state w1)) < topic_max_subscriptions (w_state w1)"
    using that state_ok_subscribed [of "w_state w1" key None]
    by (simp add: store_topic_count_def safe_def world_ok_def settings_def)
  then show "safe w1 (topic_subscribe n key w1)"
    by (auto simp: topic_subscribe_def g Let_def hm_contains_keys not_le intro!: safe_intros)
qed

lemma state_ok_unsubscribed:
  assumes "state_ok s" and "hm_get (topics s) key = Some ts"
  shows "state_ok ((\<lambda>s. shared_update (sh_topics_subscribed_update (\<lambda>_. word_of_nat (hm_len (topics s)))) s)
    (topic_keys_update (hm_remove (ts_topic ts)) (topics_update (hm_remove key) s)))"
proof -
  have "ts_topic ts = topic_name key" using assms by (simp add: ok_defs)
  then show ?thesis
    using assms(1) hm_len_remove_le [of key "topics s"]
    by (auto simp: ok_defs dest: topic_name_inj)
qed

lemma safe_topic_unsubscribe [safe_intros]: "safe w w1 \<Longrightarrow> safe w (topic_unsubscribe n key w1)"
proof (rule safe_trans)
  show "safe w1 (topic_unsubscribe n key w1)"
    using state_ok_unsubscribed [of "w_state w1" key]
    by (auto simp: topic_unsubscribe_def Let_def store_topic_count_def safe_def world_ok_def settings_def
        split: option.splits)
qed

lemma safe_dial_loop [safe_intros]: "safe w w1 \<Longrightarrow> safe w (dial_loop n k ps w1)"
  by (induction ps arbitrary: k w1) (auto split: prod.splits intro!: safe_intros)

lemma safe_topic_publish [safe_intros]: "safe w w1 \<Longrightarrow> safe w (topic_publish n key d w1)"
  unfolding topic_publish_def by (auto simp: Let_def split: option.splits prod.splits intro!: safe_intros)

section \<open>Messages\<close>

lemma safe_upd:
  "safe w w1 \<Longrightarrow> settings (f (w_state w1)) = settings (w_state w1) \<Longrightarrow>
   (state_ok (w_state w1) \<Longrightarrow> state_ok (f (w_state w1))) \<Longrightarrow> safe w (w_state_update f w1)"
  by (auto simp: safe_def world_ok_def)

lemma safe_limits:
  assumes "limits_wf (s_limits (w_state w)) \<Longrightarrow> limits_wf L"
    and "\<And>sh. sh_events (f sh) = sh_events sh \<and> sh_topics_subscribed (f sh) = sh_topics_subscribed sh \<and>
      sh_poisoned (f sh) = sh_poisoned sh"
  shows "safe w (w_state_update (s_limits_update (\<lambda>_. L)) w)"
    and "safe w (w_state_update (s_limits_update (\<lambda>_. L) \<circ> shared_update f) w)"
  using assms by (auto simp: ok_defs intro!: safe_upd [OF safe_refl])

lemma safe_announce_rate:
  "(source_wf (announce_rate (w_state w)) \<Longrightarrow> source_wf r) \<Longrightarrow> safe w (w_state_update (announce_rate_update (\<lambda>_. r)) w)"
  by (auto simp: ok_defs intro!: safe_upd [OF safe_refl])

lemma check_limits_wf: "check req k now L = (res, L') \<Longrightarrow> limits_wf L \<Longrightarrow> limits_wf L'"
  using limits_wf_run [of L "OpCheck req k now"] by simp

lemma safe_report_limited [safe_intros]: "safe w w1 \<Longrightarrow> safe w (report_limited n g node p r now w1)"
proof (rule safe_trans)
  obtain yes L where m: "may_report now (s_limits (w_state w1)) = (yes, L)" by fastforce
  then have "safe w1 (w_state_update (s_limits_update (\<lambda>_. L)) w1)"
    using limits_wf_may_report [of "s_limits (w_state w1)" now] by (intro safe_limits(1)) auto
  then show "safe w1 (report_limited n g node p r now w1)"
    by (auto simp: report_limited_def m Let_def intro: safe_intros)
qed

lemma safe_topic_message: "safe w (snd (topic_message n p m w))"
  unfolding topic_message_def Let_def
  by (auto split: option.splits prod.splits sum.splits
      intro!: safe_report_limited safe_emit safe_limits safe_refl dest: check_limits_wf)

lemma safe_announcement: "safe w (snd (announcement_message n m w))"
proof -
  have "safe w (w_state_update (announce_rate_update (\<lambda>_. r)) w)"
    if "allow source now (announce_rate (w_state w)) = (ok, r)" for source now ok r
    using that source_wf_allow [of "announce_rate (w_state w)" source now] by (intro safe_announce_rate) auto
  then show ?thesis
    unfolding announcement_message_def Let_def
    by (auto split: option.splits prod.splits intro!: safe_emit safe_refl)
qed

lemma safe_gossipsub [safe_intros]: "safe w (gossipsub_event n e w)"
  by (cases e) (auto simp: case_prod_beta intro!: safe_intros safe_topic_message safe_announcement)

section \<open>Reachability\<close>

lemma reserve_loop_ok:
  "is_private (w_state w) \<Longrightarrow> safe w (reserve_loop n now ps w) \<and> is_private (w_state (reserve_loop n now ps w))"
proof (induction ps arbitrary: w)
  case (Cons pa ps)
  obtain p a where pa: "pa = (p, a)" by fastforce
  obtain l x where l: "listen_on n (without_peer a @ [P2p p, P2pCircuit]) (w_net w) = (l, x)" by fastforce
  show ?case
  proof (cases "hm_len (reservations (w_state w)) \<ge> MAX_RESERVATIONS")
    case True
    then show ?thesis using Cons.prems by (simp add: pa safe_refl)
  next
    case False
    define w1 where "w1 = (case l of
        Some li \<Rightarrow> w_state_update (reservations_update (hm_insert p li)) (w\<lparr>w_net := x\<rparr>)
      | None \<Rightarrow> w_state_update (relay_failed_update (hm_insert p now)) (w\<lparr>w_net := x\<rparr>))"
    have "hm_len (hm_insert p li (reservations (w_state w))) \<le> MAX_RESERVATIONS" for li
      using False hm_len_insert_le [of p li "reservations (w_state w)"] by linarith
    then have "safe w w1" "is_private (w_state w1)"
      using Cons.prems
      by (auto simp: w1_def is_private_def ok_defs split: option.split
          intro!: safe_upd [OF safe_net [OF safe_refl]])
    moreover have "reserve_loop n now (pa # ps) w = reserve_loop n now ps w1"
      using False by (simp add: pa l w1_def split: option.split)
    ultimately show ?thesis using Cons.IH [of w1] by (auto intro: safe_trans)
  qed
qed (simp add: safe_refl)

lemma safe_reserve [safe_intros]: "safe w w1 \<Longrightarrow> safe w (reserve n w1)"
  using reserve_loop_ok [of w1 n] by (auto simp: reserve_def Let_def intro: safe_trans)

lemma acts_state [simp]:
  "w_state (fold (\<lambda>a. do_act n (f a)) xs w) = w_state w" "w_book (fold (\<lambda>a. do_act n (f a)) xs w) = w_book w"
  by (induction xs arbitrary: w) simp_all

lemma safe_acts [safe_intros]: "safe w w1 \<Longrightarrow> safe w (fold (\<lambda>a. do_act n (f a)) xs w1)"
  by (simp add: safe_def world_ok_def)

lemma go_public_state:
  "w_state (go_public n w) = reservations_update (\<lambda>_. []) (w_state w)" "w_book (go_public n w) = w_book w"
  unfolding go_public_def Let_def case_prod_beta by simp_all

lemma safe_go_private [safe_intros]: "safe w w1 \<Longrightarrow> safe w (go_private n w1)"
  unfolding go_private_def by (intro safe_intros)

lemma safe_nat_status [safe_intros]: "safe w w1 \<Longrightarrow> safe w (nat_status n v w1)"
proof (rule safe_trans)
  let ?w = "\<lambda>r. w_state_update (s_reachability_update (\<lambda>_. r)) w1"
  show "safe w1 (nat_status n v w1)"
  proof (cases "configured (w_state w1) = Unknown")
    case True
    then have 1: "safe w1 (?w Private)" "safe w1 (go_public n (?w Public))"
      "\<not> is_private (w_state w1) \<Longrightarrow> safe w1 (?w Public)"
      by (auto simp: safe_def world_ok_def go_public_state ok_defs)
    show ?thesis
      by (cases v) (auto simp: nat_status_def nat_next_def Let_def intro!: safe_intros 1)
  qed (simp add: nat_status_def safe_refl)
qed

lemma safe_relay_lost [safe_intros]: "safe w w1 \<Longrightarrow> safe w (relay_lost n l w1)"
proof -
  have "preserves (reservations_update (hm_remove p))" for p
    unfolding preserves_def
    by (auto simp: ok_defs hm_remove_def intro: le_trans [OF length_delete_le])
  then show "safe w w1 \<Longrightarrow> safe w (relay_lost n l w1)"
    unfolding relay_lost_def by (intro safe_fold safe_intros)
qed

lemma safe_learn_address [safe_intros]: "safe w w1 \<Longrightarrow> safe w (learn_address n b p a w1)"
  unfolding learn_address_def Let_def by (auto intro!: safe_intros book_wf_add)

lemma safe_identified [safe_intros]: "safe w w1 \<Longrightarrow> safe w (identified n p info w1)"
proof -
  have "safe w1 (w_state_update (relay_candidates_update (hm_insert p a)) w1)"
    if "hm_len (relay_candidates (w_state w1)) < MAX_RELAY_CANDIDATES" for a
    using that hm_len_insert_le [of p a "relay_candidates (w_state w1)"]
    by (auto simp: ok_defs intro!: safe_upd [OF safe_refl])
  then show "safe w w1 \<Longrightarrow> safe w (identified n p info w1)"
    unfolding identified_def Let_def
    by (auto split: option.splits intro!: safe_reserve safe_fold safe_learn_address safe_refl intro: safe_trans)
qed

section \<open>Calls, lookups and connections\<close>

lemma safe_put_call [safe_intros]: "safe w w1 \<Longrightarrow> safe w (put_call cid c w1)"
  unfolding put_call_def by (intro safe_intros)

lemma safe_drop_call [safe_intros]: "safe w w1 \<Longrightarrow> safe w (drop_call cid w1)"
  unfolding drop_call_def by (intro safe_intros)

lemma safe_advance_loop: "safe w w1 \<Longrightarrow> safe w (snd (advance_loop n cid ps c w1))"
  by (induction n cid ps c w1 rule: advance_loop.induct) (auto split: prod.splits intro!: safe_intros)

lemma safe_advance [safe_intros]: "safe w w1 \<Longrightarrow> safe w (advance n cid w1)"
  unfolding advance_def using safe_advance_loop [of w w1]
  by (auto simp: prod.case_eq_if split: option.splits bool.splits intro!: safe_intros)

lemma remembered_bound:
  "hm_len m \<le> MAX_REMEMBERED \<Longrightarrow> hm_len (hm_insert k v (if MAX_REMEMBERED \<le> hm_len m then [] else m)) \<le> MAX_REMEMBERED"
  using hm_len_insert_le [of k v m] by (auto simp: hm_insert_def MAX_REMEMBERED_def)

lemma safe_remember [safe_intros]: "safe w w1 \<Longrightarrow> safe w (remember_failure n p w1)"
proof (rule safe_trans)
  let ?m = "failed (w_state w1)"
  let ?r = "hm_retain (\<lambda>_ t. duration_since (instant_now n (w_net w1)) t < FAILURE_PENALTY) ?m"
  have "hm_len (hm_insert p (instant_now n (w_net w1)) (if MAX_REMEMBERED \<le> hm_len ?m
      then if MAX_REMEMBERED \<le> hm_len ?r then [] else ?r else ?m)) \<le> MAX_REMEMBERED"
    if "hm_len ?m \<le> MAX_REMEMBERED"
    using remembered_bound [OF that] remembered_bound [OF le_trans [OF hm_len_retain_le that]] by auto
  then show "safe w1 (remember_failure n p w1)"
    unfolding remember_failure_def Let_def
    by (intro safe_upd [OF safe_refl]) (auto simp: ok_defs)
qed

lemma safe_outbound_failed [safe_intros]: "safe w w1 \<Longrightarrow> safe w (outbound_failed n p r e w1)"
  unfolding outbound_failed_def Let_def by (auto split: option.splits intro!: safe_intros)

lemma safe_response [safe_intros]: "safe w w1 \<Longrightarrow> safe w (response n p r f w1)"
  unfolding response_def Let_def
  by (auto split: option.splits intro!: safe_intros remembered_bound intro: le_trans [OF hm_len_remove_le])

lemma safe_call_providers [safe_intros]: "safe w w1 \<Longrightarrow> safe w (call_providers n q r l w1)"
  unfolding call_providers_def Let_def by (auto split: option.splits intro!: safe_intros)

lemma safe_resolution_done [safe_intros]: "safe w w1 \<Longrightarrow> safe w (resolution_done n cid w1)"
  unfolding resolution_done_def by (auto split: option.splits intro!: safe_intros)

lemma safe_start_call: "start_call n cid g node p d t w = Some w' \<Longrightarrow> safe w w'"
  unfolding start_call_def Let_def
  by (auto split: option.splits if_splits prod.splits intro!: safe_intros)

lemma safe_expire [safe_intros]: "safe w w1 \<Longrightarrow> safe w (expire_calls n now w1)"
  unfolding expire_calls_def
  by (rule safe_fold) (auto simp: expire_one_def split: option.splits intro!: safe_intros)

lemma safe_emit_event [safe_intros]: "safe w w1 \<Longrightarrow> safe w (emit_event n ev w1)"
  unfolding emit_event_def by (rule safe_emit)

lemma book_wf_fold: "book_wf b \<Longrightarrow> book_wf (fold (add p) as b)"
  by (induction as arbitrary: b) (auto intro: book_wf_add)

lemma safe_book_add [safe_intros]: "safe w w1 \<Longrightarrow> safe w (book_add_all p as w1)"
  unfolding book_add_all_def by (intro safe_book book_wf_fold)

lemma safe_provide [safe_intros]: "safe w w1 \<Longrightarrow> safe w (provide n w1)"
  unfolding provide_def Let_def by (intro safe_intros)

lemma safe_kad [safe_intros]: "safe w (kad_event n ev w)"
proof (cases ev)
  case (GetProvidersProgress q r l)
  then show ?thesis
    by (auto simp: get_providers_progress_def dial_topic_members_def Let_def
        split: option.splits get_providers_result.splits intro!: safe_intros safe_fold)
next
  case (GetClosestPeersProgress q ps)
  then show ?thesis
    by (auto simp: get_closest_peers_progress_def Let_def split: option.splits intro!: safe_intros safe_fold)
qed (auto simp: Let_def split: option.splits intro!: safe_intros)

lemma safe_inbound_request [safe_intros]: "safe w (inbound_request n p c r f ch w)"
  unfolding inbound_request_def Let_def
  by (auto split: option.splits prod.splits sum.splits
      intro!: safe_state preserves_comp preserves_fields safe_report_limited safe_emit safe_limits safe_refl
      dest: check_limits_wf)

lemma safe_inbound_done [safe_intros]: "safe w w1 \<Longrightarrow> safe w (inbound_done r w1)"
  unfolding inbound_done_def by (auto split: option.splits intro!: safe_intros)

lemma safe_rpc [safe_intros]: "safe w (rpc_event n ev w)"
  by (cases ev) (auto intro!: safe_intros)

lemma safe_swarm: "safe w (swarm_event n ev w)"
proof (cases ev)
  case (Dcutr p r)
  then show ?thesis by (cases r) (auto simp: hole_punch_def Let_def intro!: safe_intros)
qed (auto simp: new_listen_addr_def connection_established_def connection_closed_def
    Let_def split: option.splits intro!: safe_intros)

section \<open>Turns\<close>

lemma safe_tick: "safe w (tick n w)"
  unfolding tick_def Let_def store_counts_def provide_if_due_def sweep_limits_def
  by (auto intro!: safe_intros safe_fold limits_wf_sweep)

lemma safe_command: "command n c w = Some (r, w') \<Longrightarrow> safe w w'"
  by (cases c) (auto simp: routing_sample_def Let_def split: option.splits prod.splits if_splits
      intro!: safe_intros book_wf_add limits_wf_set_class limits_wf_set_limit intro: safe_start_call)

lemma safe_arrive: "safe w (arrive m w)"
proof -
  have "book_wf (fold on_swarm_event es b)" if "book_wf b" for es b
    using that
  proof (induction es arbitrary: b)
    case (Cons e es)
    have "book_wf (on_swarm_event e b)" using Cons.prems by (cases e) (auto intro: book_wf_add)
    then show ?case using Cons.IH by simp
  qed simp
  then show ?thesis by (simp add: arrive_def safe_def world_ok_def)
qed

definition result_world :: "'sw run_result \<Rightarrow> 'sw world" where
  "result_world r = (case r of Running w \<Rightarrow> w | Stopped w \<Rightarrow> w | Panicked w \<Rightarrow> w)"

lemma safe_turn: "safe w (result_world (run_turn n inp w))"
  by (cases "(n, inp, w)" rule: run_turn.cases)
    (auto simp: result_world_def split: option.splits intro: safe_refl safe_swarm safe_tick safe_command)

lemma safe_run: "safe w (result_world (run n turns w))"
proof (induction turns arbitrary: w)
  case Nil
  show ?case by (simp add: result_world_def safe_refl)
next
  case (Cons t turns)
  obtain m inp where t: "t = (m, inp)" by fastforce
  have "safe w (result_world (run_turn n inp (arrive m w)))" by (rule safe_trans [OF safe_arrive safe_turn])
  with Cons.IH show ?case
    by (cases "run_turn n inp (arrive m w)") (auto simp: t result_world_def intro: safe_trans)
qed

section \<open>From start-up on\<close>

lemma world_ok_new: "world_ok (world_new config p now x)"
  using limits_wf_default source_wf_new [of ANNOUNCE_INTERVAL ANNOUNCE_BURST] book_wf_default
  by (simp add: world_ok_def ok_defs world_new_def state_new_def shared_new_def)

definition first_state :: "config \<Rightarrow> peer_id \<Rightarrow> state" where
  "first_state config p = state_new config p 0 (shared_new (c_event_queue_bytes config))"

lemma settings_new: "settings (w_state (world_new config p now x)) = settings (first_state config p)"
  by (simp add: settings_def first_state_def world_new_def state_new_def)

lemma safe_await: "safe w (await_listeners n pending evs w)"
proof (induction evs arbitrary: pending w)
  case (Cons e evs)
  obtain m ev where e: "e = (m, ev)" by fastforce
  have "safe w (swarm_event n ev (arrive m w))" by (rule safe_trans [OF safe_arrive safe_swarm])
  with Cons.IH show ?case by (auto simp: e safe_refl intro: safe_trans)
qed (simp add: safe_refl)

lemma start_safe:
  assumes "start n config ms built evs = Inr w"
  shows "\<exists>p now x. safe (world_new config p now x) w"
proof -
  obtain p where "run_thread_start n config p built evs = Inr w"
    using assms by (auto simp: start_def split: option.splits sum.splits)
  then obtain listeners x where "w = provide n (emit n ((event_new LP2P_EV_REACHABILITY)\<lparr>ev_reason :=
      ucast (reach_code (c_reachability config))\<rparr>) []
      (await_listeners n listeners evs (world_new config p (instant_now n x) x)))"
    by (auto simp: run_thread_start_def Let_def split: sum.splits option.splits prod.splits)
  then have "safe (world_new config p (instant_now n x) x) w"
    by (auto intro!: safe_intros safe_await)
  then show ?thesis by blast
qed

lemma run_ok:
  assumes "start n config ms built evs = Inr w0" and "result_world (run n turns w0) = w"
  shows "world_ok w \<and> (\<exists>p. settings (w_state w) = settings (first_state config p))"
proof -
  obtain p now x where s: "safe (world_new config p now x) w0" using start_safe [OF assms(1)] by blast
  have "safe (world_new config p now x) w"
    using safe_trans [OF s safe_run [of w0 n turns]] assms(2) by simp
  then have "world_ok w \<and> settings (w_state w) = settings (first_state config p)"
    using world_ok_new [of config p now x] settings_new [of config p now x] by (simp add: safe_def)
  then show ?thesis by blast
qed

text \<open>
  C29: However long the node runs and whatever the network sends, its own memory is bounded: at most 2
  reservations, 64 relay candidates, as many topics as configured, 4096 remembered failures, 4096 remembered
  answering nodes, 4096 peers with 8 addresses each, and an event queue that
  counts its bytes exactly and stays within the configured size.
\<close>

theorem memory_is_bounded:
  assumes "start n config ms built evs = Inr w0" and "result_world (run n turns w0) = w"
  shows "hm_len (reservations (w_state w)) \<le> 2 \<and> hm_len (relay_candidates (w_state w)) \<le> 64 \<and>
    hm_len (topics (w_state w)) \<le> c_topic_max_subscriptions config \<and>
    hm_len (failed (w_state w)) \<le> 4096 \<and> hm_len (last_success (w_state w)) \<le> 4096 \<and>
    hm_len (book_addresses (w_book w)) \<le> 4096 \<and> length (addresses (w_book w) peer) \<le> 8 \<and>
    q_bytes (sh_events (shared (w_state w))) = total (q_records (sh_events (shared (w_state w)))) \<and>
    q_bytes (sh_events (shared (w_state w))) \<le> c_event_queue_bytes config"
proof -
  obtain p where ok: "world_ok w" and set: "settings (w_state w) = settings (first_state config p)"
    using run_ok [OF assms] by blast
  have m: "topic_max_subscriptions (w_state w) = c_topic_max_subscriptions config"
    "q_max_bytes (sh_events (shared (w_state w))) = c_event_queue_bytes config"
    using set by (simp_all add: settings_def first_state_def state_new_def shared_new_def queue_new_def)
  have b: "book_wf (w_book w)" using ok by (simp add: world_ok_def)
  then have "hm_len (book_addresses (w_book w)) \<le> 4096" "length (addresses (w_book w) peer) \<le> 8"
    using book_len [OF b] by (auto simp: book_wf_def MAX_PEERS_def MAX_ADDRESSES_PER_PEER_def addresses_def
        split: option.split)
  with ok m show ?thesis
    by (simp add: world_ok_def ok_defs queue_wf_def MAX_RESERVATIONS_def MAX_RELAY_CANDIDATES_def MAX_REMEMBERED_def)
qed

theorem memory_is_bounded_witness:
  "hm_len (topics (w_state (result_world (run demo_net [((\<lambda>x. x, []), Receive (Some (TopicSubscribe (replicate 32 1))))] demo_world)))) \<le>
     c_topic_max_subscriptions demo_config"
  using memory_is_bounded [OF demo_start refl] by blast

text \<open>
  C35: The two tables of followed topics never disagree: a gossipsub name is known exactly when its topic is
  followed, it leads back to that topic, each topic is followed under its own name, and the statistics count
  the topics.
\<close>

theorem topic_tables_agree:
  assumes "start n config ms built evs = Inr w0" and "result_world (run n turns w0) = w"
  shows "(hm_get (topic_keys (w_state w)) t = Some k \<longleftrightarrow> t = topic_name k \<and>
      map_option ts_topic (hm_get (topics (w_state w)) k) = Some t) \<and>
    sh_topics_subscribed (shared (w_state w)) = word_of_nat (hm_len (topics (w_state w)))"
proof -
  have ok: "topics_ok (w_state w)" using run_ok [OF assms] unfolding world_ok_def state_ok_def by blast
  have "k \<in> hm_keys (topics (w_state w)) \<longleftrightarrow> (\<exists>ts. hm_get (topics (w_state w)) k = Some ts)"
    by (metis map_of_eq_None_iff not_Some_eq)
  with ok show ?thesis by (auto simp: topics_ok_def)
qed

theorem topic_tables_agree_witness:
  "hm_get (topic_keys (w_state (result_world (run demo_net
     [((\<lambda>x. x, []), Receive (Some (TopicSubscribe (replicate 32 1))))] demo_world)))) (topic_name (replicate 32 1)) =
     Some (replicate 32 1)"
  using topic_tables_agree [OF demo_start refl,
      of "[((\<lambda>x. x, []), Receive (Some (TopicSubscribe (replicate 32 1))))]" "topic_name (replicate 32 1)" "replicate 32 1"]
  by (simp add: arrive_def demo_state topic_subscribe_def topic_lookup_def store_topic_count_def hm_contains_def
      Let_def result_world_def)

text \<open>
  C36: A reachability the caller configured is never overridden by AutoNAT, and reservations on relays are held
  only while the node takes itself for private.
\<close>

theorem configured_reachability_stays:
  assumes "start n config ms built evs = Inr w0" and "result_world (run n turns w0) = w"
  shows "(c_reachability config \<noteq> Unknown \<longrightarrow> s_reachability (w_state w) = c_reachability config) \<and>
    (reservations (w_state w) \<noteq> [] \<longrightarrow> s_reachability (w_state w) = Private)"
proof -
  obtain p where ok: "world_ok w" and set: "settings (w_state w) = settings (first_state config p)"
    using run_ok [OF assms] by blast
  have "configured (w_state w) = c_reachability config"
    using set by (simp add: settings_def first_state_def state_new_def)
  with ok show ?thesis by (auto simp: world_ok_def ok_defs)
qed

definition demo_private :: config where
  "demo_private = demo_config\<lparr>c_reachability := Private\<rparr>"

lemma demo_private_start: "\<exists>w. start demo_net demo_private 0 (Inr 0) [] = Inr w"
proof -
  have "keypair_from_seed demo_crypto (c_node_seed demo_private) = Some demo_seed"
    "public_key demo_crypto demo_seed = Some demo_seed" "c_delegation demo_private = demo_grant" "c_listen demo_private = []"
    by (simp_all add: demo_private_def keypair_from_seed_def public_key_def demo_config_def demo_crypto_def demo_seed_def)
  then show ?thesis by (simp add: start_def demo_grant_ok run_thread_start_def Let_def)
qed

theorem configured_reachability_stays_witness:
  "\<exists>w. start demo_net demo_private 0 (Inr 0) [] = Inr w \<and>
     s_reachability (w_state (result_world (run demo_net [((\<lambda>x. x, []), Swarm (Autonat (NatPublic [])))] w))) = Private"
proof -
  obtain w where w: "start demo_net demo_private 0 (Inr 0) [] = Inr w" using demo_private_start by blast
  from configured_reachability_stays [OF w refl, of "[((\<lambda>x. x, []), Swarm (Autonat (NatPublic [])))]"] w show ?thesis
    by (auto simp: demo_private_def)
qed

end
