(* ===== verification/Api.thy ===== *)
theory Api
  imports NodeInvariant NodeBounds
begin

text \<open>
  The node as its callers see it: \<open>Node::next_id\<close> and \<open>Node::send\<close> on one side of the command channel,
  the main loop on the other, in any interleaving. The properties of this theory are about every
  state the two sides can reach.
\<close>

section \<open>The handle\<close>

record 'sw node =
  n_world :: "'sw world"
  n_commands :: "command list"
  n_receiver_gone :: bool

definition next_id :: "'sw node \<Rightarrow> u64 \<times> 'sw node" where
  "next_id a = (next_call_id (n_world a), a\<lparr>n_world := bump_id (n_world a)\<rparr>)"

definition send :: "command \<Rightarrow> 'sw node \<Rightarrow> int \<times> 'sw node" where
  "send c a =
     (if sh_poisoned (shared (w_state (n_world a))) then (LP2P_ERR_PANIC, a)
      else if n_receiver_gone a then (LP2P_ERR_SHUT_DOWN, a)
      else (LP2P_OK, a\<lparr>n_commands := n_commands a @ [c]\<rparr>))"

definition node_queue :: "'sw node \<Rightarrow> event_queue" where
  "node_queue a = sh_events (shared (w_state (n_world a)))"

definition set_queue :: "event_queue \<Rightarrow> 'sw node \<Rightarrow> 'sw node" where
  "set_queue q a = a\<lparr>n_world := w_state_update (shared_update (sh_events_update (\<lambda>_. q))) (n_world a)\<rparr>"

text \<open>One turn of the loop: a receive takes the oldest command.\<close>

inductive loop_turn :: "'sw net \<Rightarrow> 'sw meantime \<Rightarrow> 'sw node \<Rightarrow> 'sw node \<Rightarrow> bool" for n m where
  receive: "n_commands a = c # rest \<Longrightarrow> run_turn n (Receive (Some c)) (arrive m (n_world a)) = Running w \<Longrightarrow>
    \<not> n_receiver_gone a \<Longrightarrow> loop_turn n m a (a\<lparr>n_world := w, n_commands := rest\<rparr>)"
| event: "run_turn n inp (arrive m (n_world a)) = Running w \<Longrightarrow> (\<forall>c. inp \<noteq> Receive c) \<Longrightarrow>
    \<not> n_receiver_gone a \<Longrightarrow> loop_turn n m a (a\<lparr>n_world := w\<rparr>)"
| stop: "n_commands a = Shutdown # rest \<Longrightarrow> \<not> n_receiver_gone a \<Longrightarrow>
    loop_turn n m a (a\<lparr>n_world := shut_events LP2P_ERR_SHUT_DOWN (arrive m (n_world a)),
      n_commands := rest, n_receiver_gone := True\<rparr>)"

section \<open>Runs\<close>

text \<open>
  The state of a run with the identifiers of the calls that were accepted. Commands carry
  identifiers that \<open>next_id\<close> gave out; fewer than \<open>2^64\<close> are ever given out.
\<close>

definition grows :: "('sw \<Rightarrow> request_id set) \<Rightarrow> ('sw \<Rightarrow> query_id set) \<Rightarrow> 'sw meantime \<Rightarrow> bool" where
  "grows iss isq m \<longleftrightarrow> (\<forall>x. ids_grow iss isq x (fst m x))"

definition is_rpc :: "command \<Rightarrow> bool" where
  "is_rpc c \<longleftrightarrow> (case c of Rpc _ _ _ _ _ _ \<Rightarrow> True | _ \<Rightarrow> False)"

definition rpc_ids :: "command list \<Rightarrow> u64 list" where
  "rpc_ids cs = List.map_filter (\<lambda>c. case c of Rpc cid _ _ _ _ _ \<Rightarrow> Some cid | _ \<Rightarrow> None) cs"

definition ids_left :: "'sw node \<Rightarrow> bool" where
  "ids_left a \<longleftrightarrow> unat (next_call_id (n_world a)) + 1 < 2 ^ 64"

inductive reachable ::
  "'sw net \<Rightarrow> ('sw \<Rightarrow> request_id set) \<Rightarrow> ('sw \<Rightarrow> query_id set) \<Rightarrow> 'sw node \<Rightarrow> u64 list \<Rightarrow> bool"
  for n iss isq where
  started: "start n config ms built evs = Inr w \<Longrightarrow> \<forall>(m, _) \<in> set evs. grows iss isq m \<Longrightarrow>
    reachable n iss isq \<lparr>n_world = w, n_commands = [], n_receiver_gone = False\<rparr> []"
| rpc: "reachable n iss isq a ids \<Longrightarrow> ids_left a \<Longrightarrow> next_id a = (cid, a1) \<Longrightarrow>
    unat protocol < length (s_rpc_protocols (w_state (n_world a))) \<Longrightarrow>
    send (Rpc cid grp node protocol payload timeout) a1 = (LP2P_OK, a2) \<Longrightarrow>
    reachable n iss isq a2 (ids @ [cid])"
| other: "reachable n iss isq a ids \<Longrightarrow> \<not> is_rpc c \<Longrightarrow> send c a = (LP2P_OK, a1) \<Longrightarrow>
    reachable n iss isq a1 ids"
| take_id: "reachable n iss isq a ids \<Longrightarrow> ids_left a \<Longrightarrow> next_id a = (cid, a1) \<Longrightarrow> reachable n iss isq a1 ids"
| turn: "reachable n iss isq a ids \<Longrightarrow> ids_left a \<Longrightarrow> grows iss isq m \<Longrightarrow> loop_turn n m a a1 \<Longrightarrow>
    reachable n iss isq a1 ids"
| polled: "reachable n iss isq a ids \<Longrightarrow> poll_locked e buf (node_queue a) = (st, buf', q) \<Longrightarrow>
    reachable n iss isq (set_queue q a) ids"

section \<open>Commands keep the invariant\<close>

lemma steady_command:
  assumes "net_fresh n iss isq" and "calls_good iss isq {} w" and "\<not> is_rpc c" and "command n c w = Some (r, w')"
  shows "steady iss isq w w'"
proof -
  note qi = quiet_state quiet_do_act quiet_book keeps_comp keeps_fields keeps_shared quiet_refl assms(1)
  have "quiet iss isq w w'"
  proof (cases c)
    case (Bootstrap cid)
    obtain q x where b: "kad_bootstrap n (w_net w) = (q, x)" by fastforce
    have "quiet iss isq w (w\<lparr>w_net := x\<rparr>)" by (rule quiet_net) (rule net_fresh_grow(1) [OF assms(1) b])
    with assms(4) Bootstrap b quiet_bootstrap [OF assms(1), of w _ x cid] show ?thesis
      by (cases q) (auto intro!: quiet_emit_ev)
  next
    case (RandomWalk cid)
    with assms(4) quiet_walk [OF assms(1)] show ?thesis by (auto split: prod.splits)
  next
    case (FindProviders cid key)
    with assms(4) quiet_query(2) [OF assms(1)] show ?thesis by (auto split: prod.splits)
  next
    case (AnnounceSetPayload payload)
    with assms(4) quiet_trans [OF _ quiet_announce [OF assms(1)]] show ?thesis by (auto intro!: qi)
  next
    case (RoutingSample k)
    with assms(4) show ?thesis by (auto simp: routing_sample_def Let_def split: if_splits intro!: qi)
  qed (use assms in \<open>auto simp: is_rpc_def split: option.splits intro!: qi quiet_topic_subscribe
      quiet_topic_unsubscribe quiet_topic_publish\<close>)
  then show ?thesis using assms(2) by (rule steady_quiet)
qed

lemma quiet_arrive: "grows iss isq m \<Longrightarrow> quiet iss isq w (arrive m w)"
  unfolding arrive_def grows_def
  using quiet_book [OF quiet_net [of iss isq w "fst m (w_net w)"]] by simp

section \<open>Start-up\<close>

lemma calls_good_new: "calls_good iss isq {} (world_new config p now x)"
  by (simp add: world_new_def state_new_def calls_good_def calls_inv_def all_wait_but_def ids_ok_def
      owners_def one_to_one_def)

lemma steady_await:
  assumes "net_fresh n iss isq" and "\<forall>(m, _) \<in> set evs. grows iss isq m" and "calls_good iss isq {} w"
  shows "calls_good iss isq {} (await_listeners n pending evs w) \<and>
    balance (await_listeners n pending evs w) = balance w \<and>
    referenced (w_state (await_listeners n pending evs w)) \<subseteq> referenced (w_state w)"
  using assms(2,3)
proof (induction evs arbitrary: pending w)
  case (Cons e evs)
  obtain m ev where e: "e = (m, ev)" by fastforce
  have q: "quiet iss isq w (arrive m w)" using Cons.prems(1) by (auto simp: e intro: quiet_arrive)
  have "steady iss isq w (swarm_event n ev (arrive m w))"
    by (rule quiet_steady [OF q steady_swarm_event [OF assms(1) quiet_good [OF q Cons.prems(2)]]])
  with Cons.IH [of "swarm_event n ev (arrive m w)" "filter (still_pending ev) pending"] Cons.prems
  show ?case by (auto simp: e steady_def)
qed simp

lemma run_thread_start_good:
  assumes "net_fresh n iss isq" and "\<forall>(m, _) \<in> set evs. grows iss isq m"
    and "run_thread_start n config p built evs = Inr w"
  shows "calls_good iss isq {} w \<and> balance w = (\<lambda>_. 0) \<and> referenced (w_state w) = {}"
proof -
  obtain listeners x where w: "w = provide n (emit n ((event_new LP2P_EV_REACHABILITY)\<lparr>ev_reason :=
      ucast (reach_code (c_reachability config))\<rparr>) []
      (await_listeners n listeners evs (world_new config p (instant_now n x) x)))"
    using assms(3) by (auto simp: run_thread_start_def Let_def split: sum.splits option.splits prod.splits)
  let ?w0 = "world_new config p (instant_now n x) x"
  let ?w1 = "await_listeners n listeners evs ?w0"
  have new: "balance ?w0 = (\<lambda>_. 0)" "referenced (w_state ?w0) = {}"
    by (simp_all add: world_new_def state_new_def balance_def referenced_def fun_eq_iff)
  have 1: "calls_good iss isq {} ?w1 \<and> balance ?w1 = balance ?w0 \<and> referenced (w_state ?w1) \<subseteq> {}"
    using steady_await [OF assms(1,2) calls_good_new [of iss isq config p "instant_now n x" x]] new(2) by simp
  have "quiet iss isq ?w1 w"
    unfolding w provide_def Let_def
    by (intro quiet_state quiet_do_act quiet_emit keeps_comp keeps_fields quiet_refl assms(1))
      (simp add: event_type_defs)
  with 1 new show ?thesis
    using quiet_good [of iss isq ?w1 w "{}"] quiet_balance [of iss isq ?w1 w] refers_quiet [of iss isq ?w1 w "{}"]
    by (auto simp: refers_within_def)
qed

lemma start_good:
  assumes "net_fresh n iss isq" and "\<forall>(m, _) \<in> set evs. grows iss isq m" and "start n config ms built evs = Inr w"
  shows "calls_good iss isq {} w \<and> balance w = (\<lambda>_. 0) \<and> referenced (w_state w) = {}"
proof -
  obtain p where "run_thread_start n config p built evs = Inr w"
    using assms(3) by (auto simp: start_def split: option.splits sum.splits)
  then show ?thesis by (rule run_thread_start_good [OF assms(1,2)])
qed

section \<open>The invariant of a run\<close>

definition run_inv ::
  "('sw \<Rightarrow> request_id set) \<Rightarrow> ('sw \<Rightarrow> query_id set) \<Rightarrow> 'sw node \<Rightarrow> u64 list \<Rightarrow> bool" where
  "run_inv iss isq a ids \<longleftrightarrow>
     calls_good iss isq {} (n_world a) \<and>
     (\<forall>cid. balance (n_world a) cid + count_list (rpc_ids (n_commands a)) cid = of_bool (cid \<in> set ids)) \<and>
     (\<forall>cid \<in> referenced (w_state (n_world a)). balance (n_world a) cid = 1) \<and>
     (\<forall>cid \<in> set ids. unat cid < unat (next_call_id (n_world a)))"

lemma rpc_ids_append [simp]: "rpc_ids (xs @ ys) = rpc_ids xs @ rpc_ids ys"
  by (simp add: rpc_ids_def List.map_filter_def)

lemma rpc_ids_other [simp]: "\<not> is_rpc c \<Longrightarrow> rpc_ids (c # cs) = rpc_ids cs"
  by (simp add: rpc_ids_def is_rpc_def map_filter_simps split: command.splits)

lemma rpc_ids_Nil [simp]: "rpc_ids [] = []"
  by (simp add: rpc_ids_def map_filter_simps)

lemma rpc_ids_rpc [simp]: "rpc_ids (Rpc cid grp node protocol payload timeout # cs) = cid # rpc_ids cs"
  by (simp add: rpc_ids_def map_filter_simps)

lemma bump_id_simps [simp]:
  "balance (bump_id w) = balance w" "referenced (w_state (bump_id w)) = referenced (w_state w)"
  "next_call_id (bump_id w) = next_call_id w + 1" "w_net (bump_id w) = w_net w"
  by (simp_all add: bump_id_def balance_def fun_eq_iff)

lemma next_id_grows:
  assumes "ids_left a"
  shows "unat (next_call_id (n_world a) + 1) = Suc (unat (next_call_id (n_world a)))"
  using assms by (intro unat_Suc_u64) (simp add: ids_left_def)

lemma run_inv_steady:
  assumes "run_inv iss isq a ids" and "ids_left a" and "steady iss isq (n_world a) w"
    and "rpc_ids cs = rpc_ids (n_commands a)"
  shows "run_inv iss isq (a\<lparr>n_world := w, n_commands := cs\<rparr>) ids"
proof -
  have "unat (next_call_id (n_world a)) \<le> unat (next_call_id w)"
    using assms(3) next_id_grows [OF assms(2)] by (auto simp: steady_def)
  then show ?thesis
    using assms(1,3,4) unfolding run_inv_def steady_def by (auto intro: less_le_trans)
qed

lemma run_inv_rpc_received:
  assumes "net_fresh n iss isq" and "run_inv iss isq a ids" and "n_commands a = c # rest" and "is_rpc c"
    and "quiet iss isq (n_world a) w1" and "command n c w1 = Some (r, w)"
  shows "run_inv iss isq (a\<lparr>n_world := w, n_commands := rest\<rparr>) ids"
proof -
  obtain cid grp node protocol payload timeout where c: "c = Rpc cid grp node protocol payload timeout"
    using assms(4) by (auto simp: is_rpc_def split: command.splits)
  have st: "start_call n cid grp node protocol payload timeout w1 = Some w"
    using assms(6) by (simp add: c)
  have good: "calls_good iss isq {} w1"
    using assms(2,5) by (auto simp: run_inv_def intro: quiet_good)
  have same: "balance w1 = balance (n_world a)" "referenced (w_state w1) \<subseteq> referenced (w_state (n_world a))"
      "next_call_id w1 = next_call_id (n_world a)"
    using quiet_balance [OF assms(5)] refers_quiet [OF assms(5), of "{}"] by (simp_all add: refers_within_def)
  have counts: "balance (n_world a) u + count_list (cid # rpc_ids rest) u = of_bool (u \<in> set ids)" for u
    using assms(2,3) by (simp add: run_inv_def c)
  have zero: "balance (n_world a) cid = 0" and accepted: "cid \<in> set ids"
    using counts [of cid] by (cases "cid \<in> set ids"; simp)+
  have unused: "call_id_unused (w_state w1) cid"
    using same(1,2) zero assms(2) by (intro unreferenced) (auto simp: run_inv_def)
  note fin = start_call_good [OF assms(1) good unused st] refers_start_call [OF st]
  have "balance w u + count_list (rpc_ids rest) u = of_bool (u \<in> set ids)" for u
    using counts [of u] fin(1) same(1) accepted zero by (cases "u = cid") auto
  moreover have "balance w u = 1" if "u \<in> referenced (w_state w)" for u
    using that fin same zero assms(2) by (auto simp: refers_within_def run_inv_def)
  ultimately show ?thesis
    using fin same(3) assms(2) by (auto simp: run_inv_def refers_within_def)
qed

lemma run_inv_turn:
  assumes "net_fresh n iss isq" and "run_inv iss isq a ids" and "ids_left a" and "grows iss isq m"
    and "loop_turn n m a a1"
  shows "run_inv iss isq a1 ids"
proof -
  have good: "calls_good iss isq {} (n_world a)" using assms(2) by (simp add: run_inv_def)
  have q: "quiet iss isq (n_world a) (arrive m (n_world a))" by (rule quiet_arrive [OF assms(4)])
  note good1 = quiet_good [OF q good]
  show ?thesis
    using assms(5)
  proof cases
    case (receive c rest w)
    then obtain r where cmd: "command n c (arrive m (n_world a)) = Some (r, w)"
      by (auto split: if_splits option.splits)
    show ?thesis
    proof (cases "is_rpc c")
      case True
      with run_inv_rpc_received [OF assms(1,2) receive(2) True q cmd] receive(1) show ?thesis by simp
    next
      case False
      have "steady iss isq (n_world a) w"
        by (rule quiet_steady [OF q steady_command [OF assms(1) good1 False cmd]])
      with run_inv_steady [OF assms(2,3), of w rest] receive(1,2) False show ?thesis by simp
    qed
  next
    case (event inp w)
    have "steady iss isq (arrive m (n_world a)) w"
      using event(2,3) steady_swarm_event [OF assms(1) good1] steady_tick [OF assms(1) good1]
      by (cases inp) auto
    with run_inv_steady [OF assms(2,3) quiet_steady [OF q], of w "n_commands a"] event(1) show ?thesis by simp
  next
    case (stop rest)
    have "quiet iss isq (n_world a) (shut_events LP2P_ERR_SHUT_DOWN (arrive m (n_world a)))"
      unfolding shut_events_def by (intro quiet_state keeps_shared q) simp
    from run_inv_steady [OF assms(2,3) steady_quiet [OF this good], of rest] stop
    show ?thesis by (simp add: run_inv_def is_rpc_def)
  qed
qed

lemma run_inv_set_queue:
  assumes "run_inv iss isq a ids"
  shows "run_inv iss isq (set_queue q a) ids"
proof -
  have q: "quiet iss isq (n_world a) (n_world (set_queue q a))"
    unfolding set_queue_def by (simp, intro quiet_state keeps_shared quiet_refl) simp
  have "n_commands (set_queue q a) = n_commands a" "next_call_id (n_world (set_queue q a)) = next_call_id (n_world a)"
    by (simp_all add: set_queue_def)
  with assms quiet_good [OF q] quiet_balance [OF q] refers_quiet [OF q, of "{}"] show ?thesis
    by (auto simp: run_inv_def refers_within_def)
qed

lemma run_inv_reachable:
  assumes "net_fresh n iss isq" and "reachable n iss isq a ids"
  shows "run_inv iss isq a ids"
  using assms(2)
proof induction
  case (started config ms built evs w)
  with start_good [OF assms(1) started(2,1)] show ?case by (simp add: run_inv_def)
next
  case (rpc a ids cid a1 protocol grp node payload timeout a2)
  have a2: "a2 = a\<lparr>n_world := bump_id (n_world a), n_commands := n_commands a @ [Rpc cid grp node protocol payload timeout]\<rparr>"
    and cid: "cid = next_call_id (n_world a)"
    using rpc.hyps(3,5) by (auto simp: next_id_def send_def status_defs split: if_splits)
  have new: "cid \<notin> set ids" using rpc.IH cid by (auto simp: run_inv_def)
  have "balance (n_world a) cid + count_list (rpc_ids (n_commands a)) cid = of_bool (cid \<in> set ids)"
    using rpc.IH by (simp add: run_inv_def)
  with new have zero: "balance (n_world a) cid = 0" "count_list (rpc_ids (n_commands a)) cid = 0"
    by simp_all
  have "unat cid < unat (cid + 1)" and "\<forall>u \<in> set ids. unat u < unat (cid + 1)"
    using next_id_grows [OF rpc.hyps(2)] rpc.IH cid by (auto simp: run_inv_def less_SucI)
  with rpc.IH new zero show ?case by (auto simp: run_inv_def a2 simp flip: cid)
next
  case (other a ids c a1)
  then have "a1 = a\<lparr>n_commands := n_commands a @ [c]\<rparr>" by (auto simp: send_def status_defs split: if_splits)
  with other show ?case by (simp add: run_inv_def)
next
  case (take_id a ids cid a1)
  then have "a1 = a\<lparr>n_world := bump_id (n_world a)\<rparr>" by (simp add: next_id_def)
  with take_id next_id_grows [OF take_id.hyps(2)] show ?case by (auto simp: run_inv_def less_SucI)
next
  case (turn a ids m a1)
  then show ?case using run_inv_turn [OF assms(1)] by blast
next
  case (polled a ids e buf st buf' q)
  show ?case by (rule run_inv_set_queue [OF polled.IH])
qed

section \<open>Calls end once\<close>

lemma reachable_distinct:
  assumes "net_fresh n iss isq" and "reachable n iss isq a ids"
  shows "distinct ids"
  using assms(2)
proof induction
  case (rpc a ids cid a1 protocol grp node payload timeout a2)
  have "run_inv iss isq a ids" by (rule run_inv_reachable [OF assms(1) rpc.hyps(1)])
  then have "cid \<notin> set ids" using rpc.hyps(3) by (auto simp: run_inv_def next_id_def)
  with rpc.IH show ?case by simp
qed simp_all

text \<open>
  C1: Every call that was accepted is in exactly one place: still in the command channel, live in the
  node, or ended, and then with exactly one event, \<open>LP2P_EV_RPC_RESPONSE\<close> or \<open>LP2P_EV_RPC_FAILED\<close>. No event ends a
  call that was not accepted, and no two calls share an identifier. This holds in every state that callers, the
  network and the clock can lead to, under the assumption that libp2p does not repeat identifiers.
\<close>

theorem every_call_ends_once:
  assumes "net_fresh n iss isq" and "reachable n iss isq a ids"
  shows "distinct ids \<and>
    count_list (rpc_ids (n_commands a)) cid + of_bool (cid \<in> hm_keys (calls (w_state (n_world a)))) +
      count_list (ends (w_emitted (n_world a))) cid = of_bool (cid \<in> set ids)"
proof -
  have "balance (n_world a) cid + count_list (rpc_ids (n_commands a)) cid = of_bool (cid \<in> set ids)"
    using run_inv_reachable [OF assms] by (simp add: run_inv_def)
  with reachable_distinct [OF assms] show ?thesis by (simp add: balance_def)
qed

definition demo_node :: "nat node" where
  "demo_node = \<lparr>n_world = demo_world, n_commands = [], n_receiver_gone = False\<rparr>"

definition demo_calling :: "nat node" where
  "demo_calling = \<lparr>n_world = bump_id demo_world,
     n_commands = [Rpc 1 (replicate 32 1) (Some demo_seed) 0 [7] (from_secs 1)], n_receiver_gone = False\<rparr>"

lemma demo_calling_reachable: "reachable demo_net demo_issued demo_issued demo_calling [1]"
proof -
  have "reachable demo_net demo_issued demo_issued demo_node []"
    unfolding demo_node_def by (rule started [OF demo_start]) simp
  moreover have "ids_left demo_node" by (simp add: ids_left_def demo_node_def demo_state)
  moreover have "next_id demo_node = (1, demo_node\<lparr>n_world := bump_id demo_world\<rparr>)"
    by (simp add: next_id_def demo_node_def demo_state)
  moreover have "send (Rpc 1 (replicate 32 1) (Some demo_seed) 0 [7] (from_secs 1))
      (demo_node\<lparr>n_world := bump_id demo_world\<rparr>) = (LP2P_OK, demo_calling)"
    by (simp add: send_def demo_node_def demo_calling_def bump_id_def demo_world_def provide_def world_new_def
        state_new_def shared_new_def Let_def)
  moreover have "unat (0 :: u16) < length (s_rpc_protocols (w_state (n_world demo_node)))"
    by (simp add: demo_node_def demo_state)
  ultimately have "reachable demo_net demo_issued demo_issued demo_calling ([] @ [1])"
    by (blast intro: rpc)
  then show ?thesis by simp
qed

definition demo_called :: "nat world" where
  "demo_called = the (start_call demo_net 1 (replicate 32 1) (Some demo_seed) 0 [7] (from_secs 1) (bump_id demo_world))"

lemma demo_called_eq:
  "start_call demo_net 1 (replicate 32 1) (Some demo_seed) 0 [7] (from_secs 1) (bump_id demo_world) = Some demo_called"
  by (simp add: demo_called_def start_call_def Let_def demo_state bump_id_def)

lemma arrive_idle [simp]: "arrive (\<lambda>x. x, []) w = w"
  by (simp add: arrive_def)

lemma demo_called_reachable: "reachable demo_net demo_issued demo_issued
    \<lparr>n_world = demo_called, n_commands = [], n_receiver_gone = False\<rparr> [1]"
proof -
  have "ids_left demo_calling" by (simp add: ids_left_def demo_calling_def demo_state)
  moreover have "grows demo_issued demo_issued (\<lambda>x. x, [])" by (simp add: grows_def)
  moreover have "loop_turn demo_net (\<lambda>x. x, []) demo_calling
      (demo_calling\<lparr>n_world := demo_called, n_commands := []\<rparr>)"
    by (rule receive [where c = "Rpc 1 (replicate 32 1) (Some demo_seed) 0 [7] (from_secs 1)"])
      (simp_all add: demo_calling_def demo_called_eq del: One_nat_def)
  ultimately have "reachable demo_net demo_issued demo_issued
      (demo_calling\<lparr>n_world := demo_called, n_commands := []\<rparr>) [1]"
    by (rule turn [OF demo_calling_reachable])
  then show ?thesis by (simp add: demo_calling_def)
qed

theorem every_call_ends_once_witness:
  "of_bool (1 \<in> hm_keys (calls (w_state demo_called))) + count_list (ends (w_emitted demo_called)) 1 = (1 :: nat)"
  using every_call_ends_once [OF demo_net_fresh demo_called_reachable, of 1] by simp

text \<open>
  C13: No live call is forgotten: in every reachable state each live call waits for a request, an address lookup or a
  provider lookup that libp2p is working on, entered under an identifier that leads back to this call and to
  nothing else, so that the answer or the failure will move it on. No query belongs to two of the tables.
\<close>

theorem live_call_waits:
  assumes "net_fresh n iss isq" and "reachable n iss isq a ids"
    and "hm_get (calls (w_state (n_world a))) cid = Some c"
  shows "((\<exists>!r. hm_get (outbound (w_state (n_world a))) r = Some cid) \<or>
     (\<exists>!q. hm_get (resolutions (w_state (n_world a))) q = Some cid) \<or>
     (\<exists>!q. hm_get (provider_lookups (w_state (n_world a))) q = Some cid)) \<and>
    hm_keys (outbound (w_state (n_world a))) \<subseteq> iss (w_net (n_world a)) \<and>
    owners (w_state (n_world a)) q \<le> 1"
proof -
  have good: "calls_good iss isq {} (n_world a)" using run_inv_reachable [OF assms(1,2)] by (simp add: run_inv_def)
  have one: "\<exists>!k. hm_get m k = Some cid" if "one_to_one m" "names m cid" for m :: "(nat, u64) hashmap"
    using that unfolding one_to_one_def names_def by blast
  have inv: "calls_inv (w_state (n_world a))" and w: "waits c" and ids: "ids_ok iss isq (n_world a)"
    using good assms(3) by (auto simp: calls_good_def all_wait_but_def)
  have "call_ok (w_state (n_world a)) cid c" using inv assms(3) by (simp add: calls_inv_def)
  then have "names (outbound (w_state (n_world a))) cid \<or> names (resolutions (w_state (n_world a))) cid \<or>
      names (provider_lookups (w_state (n_world a))) cid"
    using w by (auto simp: waits_def call_ok_def)
  then have "(\<exists>!r. hm_get (outbound (w_state (n_world a))) r = Some cid) \<or>
      (\<exists>!q. hm_get (resolutions (w_state (n_world a))) q = Some cid) \<or>
      (\<exists>!q. hm_get (provider_lookups (w_state (n_world a))) q = Some cid)"
    using inv by (elim disjE) (simp_all add: calls_inv_def one)
  with ids show ?thesis by (simp add: ids_ok_def)
qed

theorem live_call_waits_witness:
  "(\<exists>!r. hm_get (outbound (w_state demo_called)) r = Some 1) \<or>
   (\<exists>!q. hm_get (resolutions (w_state demo_called)) q = Some 1) \<or>
   (\<exists>!q. hm_get (provider_lookups (w_state demo_called)) q = Some 1)"
proof -
  have "hm_get (calls (w_state demo_called)) 1 \<noteq> None"
    by (simp add: demo_called_def start_call_def Let_def demo_state bump_id_def peer_id_def demo_crypto_def
        demo_seed_def advance_def call_new_def knows_def hm_contains_def put_call_def address_book_default_def)
  then obtain c where "hm_get (calls (w_state demo_called)) 1 = Some c" by blast
  with live_call_waits [OF demo_net_fresh demo_called_reachable, of 1] show ?thesis by simp
qed

section \<open>Panics and the end\<close>

definition serves :: "nat \<Rightarrow> command \<Rightarrow> bool" where
  "serves k c \<longleftrightarrow> (case c of Rpc _ _ _ protocol _ _ \<Rightarrow> unat protocol < k | _ \<Rightarrow> True)"

definition in_range :: "'sw node \<Rightarrow> bool" where
  "in_range a \<longleftrightarrow> (\<forall>c \<in> set (n_commands a). serves (length (s_rpc_protocols (w_state (n_world a)))) c)"

definition life_ok :: "'sw node \<Rightarrow> bool" where
  "life_ok a \<longleftrightarrow> in_range a \<and> \<not> sh_poisoned (shared (w_state (n_world a))) \<and>
     q_closed (sh_events (shared (w_state (n_world a)))) = (if n_receiver_gone a then Some LP2P_ERR_SHUT_DOWN else None)"

lemma life_ok_settings:
  assumes "life_ok a" and "settings (w_state (n_world a1)) = settings (w_state (n_world a))"
    and "set (n_commands a1) \<subseteq> set (n_commands a)" and "n_receiver_gone a1 = n_receiver_gone a"
  shows "life_ok a1"
  using assms by (auto simp: life_ok_def in_range_def settings_def)

lemma run_turn_settings:
  "run_turn n inp (arrive m w) = Running w' \<Longrightarrow> settings (w_state w') = settings (w_state w)"
  using safe_trans [OF safe_arrive safe_turn, of w n inp m] by (simp add: safe_def result_world_def)

lemma life_ok_turn:
  assumes "life_ok a" and "loop_turn n m a a1"
  shows "life_ok a1"
  using assms(2)
proof cases
  case (receive c rest w)
  with assms(1) run_turn_settings [OF receive(3)] show ?thesis
    by (intro life_ok_settings [OF assms(1)]) auto
next
  case (event inp w)
  with assms(1) run_turn_settings [OF event(2)] show ?thesis
    by (intro life_ok_settings [OF assms(1)]) auto
next
  case (stop rest)
  have "settings (w_state (arrive m (n_world a))) = settings (w_state (n_world a))"
    using safe_arrive [of "n_world a" m] by (simp add: safe_def)
  then show ?thesis
    using assms(1) stop by (auto simp: life_ok_def in_range_def settings_def shut_events_def close_def)
qed

lemma life_ok_reachable: "reachable n iss isq a ids \<Longrightarrow> life_ok a"
proof (induction rule: reachable.induct)
  case (started config ms built evs w)
  obtain p now x where "safe (world_new config p now x) w" using start_safe [OF started(1)] by blast
  then have "settings (w_state w) = settings (first_state config p)" by (simp add: safe_def settings_new)
  then show ?case
    by (simp add: life_ok_def in_range_def settings_def first_state_def state_new_def shared_new_def queue_new_def)
next
  case (rpc a ids cid a1 protocol grp node payload timeout a2)
  then show ?case
    by (auto simp: life_ok_def in_range_def next_id_def send_def bump_id_def status_defs serves_def [of _ "Rpc _ _ _ _ _ _"]
        split: if_splits)
next
  case (other a ids c a1)
  then have "serves k c" for k by (simp add: serves_def is_rpc_def split: command.splits)
  with other show ?case
    by (auto simp: life_ok_def in_range_def send_def status_defs split: if_splits)
next
  case (take_id a ids cid a1)
  then show ?case by (auto simp: life_ok_def in_range_def next_id_def bump_id_def)
next
  case (turn a ids m a1)
  then show ?case using life_ok_turn by blast
next
  case (polled a ids e buf st buf' q)
  then show ?case
    using poll_locked_closed [OF polled.hyps(2)] by (auto simp: life_ok_def in_range_def set_queue_def node_queue_def)
qed

lemma no_panic:
  assumes "life_ok a"
    and "inp = Tick \<or> (\<exists>ev. inp = Swarm ev) \<or> (\<exists>c rest. n_commands a = c # rest \<and> inp = Receive (Some c))"
  shows "run_turn n inp (arrive m (n_world a)) \<noteq> Panicked w"
proof -
  have same: "s_rpc_protocols (w_state (arrive m (n_world a))) = s_rpc_protocols (w_state (n_world a))"
    using safe_arrive [of "n_world a" m] by (simp add: safe_def settings_def)
  have "command n c (arrive m (n_world a)) \<noteq> None" if "n_commands a = c # rest" for c rest
    using assms(1) that same
    by (cases c) (auto simp: life_ok_def in_range_def serves_def start_call_def Let_def not_le routing_sample_def)
  then show ?thesis
    using assms(2) by (auto split: option.splits if_splits)
qed



text \<open>
  C28: The end of a node as its callers see it. While the loop runs, every command is accepted and queued last. After
  \<open>Shutdown\<close> was taken, every command is refused with \<open>LP2P_ERR_SHUT_DOWN\<close>, no poll waits any more, and a poll that
  finds nothing left reports \<open>LP2P_ERR_SHUT_DOWN\<close>.
\<close>

theorem shutdown_is_final:
  assumes "reachable n iss isq a ids"
  shows "send c a = (if n_receiver_gone a then (LP2P_ERR_SHUT_DOWN, a)
      else (LP2P_OK, a\<lparr>n_commands := n_commands a @ [c]\<rparr>)) \<and>
    (n_receiver_gone a \<longrightarrow>
      (\<exists>status buf' q'. poll e buf timeout now sched (sh_events (shared (w_state (n_world a)))) = Returned status buf' q' \<and>
        (q_records (sh_events (shared (w_state (n_world a)))) = [] \<and>
         q_dropped (sh_events (shared (w_state (n_world a)))) = 0 \<longrightarrow> status = LP2P_ERR_SHUT_DOWN)))"
proof -
  have ok: "life_ok a" by (rule life_ok_reachable [OF assms])
  let ?q = "sh_events (shared (w_state (n_world a)))"
  have "\<exists>status buf' q'. poll e buf timeout now sched ?q = Returned status buf' q' \<and>
      (q_records ?q = [] \<and> q_dropped ?q = 0 \<longrightarrow> status = LP2P_ERR_SHUT_DOWN)" if "n_receiver_gone a"
  proof -
    obtain st b q' where p: "poll_locked e buf ?q = (st, b, q')" by (cases "poll_locked e buf ?q") auto
    have cl: "q_closed ?q = Some LP2P_ERR_SHUT_DOWN" using ok that by (simp add: life_ok_def)
    then have "poll_ready ?q" by (simp add: poll_ready_def)
    with p have "poll e buf timeout now sched ?q = Returned st b q'" by (simp add: poll_def poll_loop.simps)
    moreover have "st = LP2P_ERR_SHUT_DOWN" if "q_records ?q = []" "q_dropped ?q = 0"
      using p cl that by (simp add: poll_locked_def)
    ultimately show ?thesis by blast
  qed
  then show ?thesis using ok by (simp add: send_def life_ok_def)
qed

lemma demo_stopped_reachable:
  "reachable demo_net demo_issued demo_issued \<lparr>n_world = shut_events LP2P_ERR_SHUT_DOWN demo_world, n_commands = [],
     n_receiver_gone = True\<rparr> []"
proof -
  have r: "reachable demo_net demo_issued demo_issued demo_node []"
    unfolding demo_node_def by (rule started [OF demo_start]) simp
  have "\<not> sh_poisoned (shared (w_state demo_world))"
    by (simp add: demo_world_def provide_def world_new_def state_new_def shared_new_def Let_def)
  then have "send Shutdown demo_node = (LP2P_OK, demo_node\<lparr>n_commands := [Shutdown]\<rparr>)"
    by (simp add: send_def demo_node_def)
  note r1 = other [OF r _ this]
  have "loop_turn demo_net (\<lambda>x. x, []) (demo_node\<lparr>n_commands := [Shutdown]\<rparr>)
      (demo_node\<lparr>n_commands := [Shutdown], n_world := shut_events LP2P_ERR_SHUT_DOWN (arrive (\<lambda>x. x, []) demo_world),
        n_commands := [], n_receiver_gone := True\<rparr>)"
    using stop [of "demo_node\<lparr>n_commands := [Shutdown]\<rparr>" "[]" demo_net "(\<lambda>x. x, [])"]
    by (simp add: demo_node_def del: arrive_idle)
  from turn [OF r1 _ _ this] show ?thesis
    by (simp add: ids_left_def demo_node_def demo_state is_rpc_def grows_def)
qed

theorem shutdown_is_final_witness:
  "send (Reject 1) \<lparr>n_world = shut_events LP2P_ERR_SHUT_DOWN demo_world, n_commands = [], n_receiver_gone = True\<rparr> =
     (LP2P_ERR_SHUT_DOWN, \<lparr>n_world = shut_events LP2P_ERR_SHUT_DOWN demo_world, n_commands = [], n_receiver_gone = True\<rparr>)"
  using shutdown_is_final [OF demo_stopped_reachable, of "Reject 1"] by simp

end
