(* ===== verification/Lifecycle.thy ===== *)
theory Lifecycle
  imports Api
begin

text \<open>
  The life of a call as callers may think of it: an abstract machine with four phases per identifier, and the proof that
  every step of the node, its callers and its thread is a step of that machine.
\<close>

section \<open>The abstract machine\<close>

datatype phase = Fresh | Queued | Live | Ended

datatype label = Accept u64 | Work

fun moves :: "phase \<Rightarrow> phase \<Rightarrow> bool" where
  "moves Queued Live = True"
| "moves Queued Ended = True"
| "moves Live Ended = True"
| "moves p p' = (p = p')"

lemma moves_refl [simp]: "moves p p"
  by (cases p) simp_all

text \<open>Accepting is the caller's move and concerns one fresh identifier; all other moves are the node's and only go forward.\<close>

inductive life :: "label \<Rightarrow> (u64 \<Rightarrow> phase) \<Rightarrow> (u64 \<Rightarrow> phase) \<Rightarrow> bool" where
  accept: "f cid = Fresh \<Longrightarrow> life (Accept cid) f (f(cid := Queued))"
| work: "(\<And>cid. moves (f cid) (g cid)) \<Longrightarrow> life Work f g"

inductive_simps life_simps: "life (Accept cid) f g" "life Work f g"

section \<open>Steps of the node\<close>

text \<open>The steps \<open>reachable\<close> is made of.\<close>

inductive node_step ::
  "'sw net \<Rightarrow> ('sw \<Rightarrow> request_id set) \<Rightarrow> ('sw \<Rightarrow> query_id set) \<Rightarrow> label \<Rightarrow> 'sw node \<Rightarrow> 'sw node \<Rightarrow> bool"
  for n iss isq where
  accepts: "ids_left a \<Longrightarrow> next_id a = (cid, a1) \<Longrightarrow> unat protocol < length (s_rpc_protocols (w_state (n_world a))) \<Longrightarrow>
    send (Rpc cid grp node protocol payload timeout) a1 = (LP2P_OK, a2) \<Longrightarrow> node_step n iss isq (Accept cid) a a2"
| commands: "\<not> is_rpc c \<Longrightarrow> send c a = (LP2P_OK, a1) \<Longrightarrow> node_step n iss isq Work a a1"
| counts: "ids_left a \<Longrightarrow> next_id a = (cid, a1) \<Longrightarrow> node_step n iss isq Work a a1"
| turns: "ids_left a \<Longrightarrow> grows iss isq m \<Longrightarrow> loop_turn n m a a1 \<Longrightarrow> node_step n iss isq Work a a1"
| polls: "poll_locked e buf (node_queue a) = (st, buf', q) \<Longrightarrow> node_step n iss isq Work a (set_queue q a)"

definition phase :: "'sw node \<Rightarrow> u64 \<Rightarrow> phase" where
  "phase a cid =
     (if cid \<in> set (rpc_ids (n_commands a)) then Queued
      else if cid \<in> hm_keys (calls (w_state (n_world a))) then Live
      else if cid \<in> set (ends (w_emitted (n_world a))) then Ended
      else Fresh)"

definition accepted :: "label \<Rightarrow> u64 list" where
  "accepted l = (case l of Accept cid \<Rightarrow> [cid] | Work \<Rightarrow> [])"

lemma node_step_reachable:
  assumes "reachable n iss isq a ids" and "node_step n iss isq l a b"
  shows "reachable n iss isq b (ids @ accepted l)"
  using assms(2)
  by cases (auto simp: accepted_def intro: reachable.intros(2-6) [OF assms(1)])

section \<open>Events only accumulate\<close>

lemma says_any: "says T w w' \<Longrightarrow> says UNIV w w'"
  by (erule says_mono) simp

lemma says_swarm: "says UNIV w (swarm_event n ev w)"
proof (cases "(\<exists>e. ev = RpcEvent e) \<or> (\<exists>e. ev = Gossipsub e)")
  case False
  then show ?thesis using says_any [OF says_swarm_other] by blast
next
  case True
  then show ?thesis
  proof (elim disjE exE)
    fix e assume ev: "ev = RpcEvent e"
    have "says UNIV w (rpc_event n e w)"
    proof (cases e)
      case (InboundRequest p c r f ch)
      then show ?thesis by (simp add: says_any [OF says_inbound_request])
    next
      case (Response p r f)
      then show ?thesis by (auto intro!: says_intros)
    qed (auto intro!: says_intros)
    with ev show ?thesis by simp
  next
    fix e assume ev: "ev = Gossipsub e"
    have "says UNIV w (gossipsub_event n e w)"
    proof (cases e)
      case (Message p i m)
      with says_any [OF says_topic_message, of w n p m] says_any [OF says_announcement, of w n m] show ?thesis
        by (cases "topic_message n p m w"; cases "announcement_message n m w") (auto simp: Let_def intro!: says_intros)
    qed (auto intro!: says_intros)
    with ev show ?thesis by simp
  qed
qed

lemma says_turn:
  assumes "run_turn n inp w = Running w'"
  shows "says UNIV w w'"
  using assms says_swarm says_any [OF says_command] says_any [OF says_tick]
  by (cases "(n, inp, w)" rule: run_turn.cases) (auto split: option.splits if_splits)

lemma says_loop_turn:
  assumes "loop_turn n m a b"
  shows "\<exists>evs. w_emitted (n_world b) = w_emitted (n_world a) @ evs"
proof -
  have arr: "w_emitted (arrive m (n_world a)) = w_emitted (n_world a)" by (simp add: arrive_def)
  show ?thesis
    using assms
  proof cases
    case (receive c rest w)
    with says_turn [OF receive(3)] arr show ?thesis by (auto simp: says_def)
  next
    case (event inp w)
    with says_turn [OF event(2)] arr show ?thesis by (auto simp: says_def)
  next
    case (stop rest)
    with arr show ?thesis by (simp add: shut_events_def)
  qed
qed

lemma loop_turn_queue:
  assumes "loop_turn n m a b"
  shows "count_list (rpc_ids (n_commands b)) cid \<le> count_list (rpc_ids (n_commands a)) cid"
proof -
  have "count_list (rpc_ids rest) cid \<le> count_list (rpc_ids (c # rest)) cid" for c rest
    using rpc_ids_append [of "[c]" rest] by simp
  with assms show ?thesis by cases auto
qed

section \<open>Refinement\<close>

text \<open>The bookkeeping of \<open>run_inv\<close> for one identifier: queued, live or ended, and never two of them.\<close>

lemma phase_counts:
  assumes "run_inv iss isq a ids"
  shows "count_list (rpc_ids (n_commands a)) cid + of_bool (cid \<in> hm_keys (calls (w_state (n_world a)))) +
    count_list (ends (w_emitted (n_world a))) cid = of_bool (cid \<in> set ids)"
  using assms by (simp add: run_inv_def balance_def add.commute add.left_commute)

lemma phase_count:
  "phase a cid =
     (if 0 < count_list (rpc_ids (n_commands a)) cid then Queued
      else if cid \<in> hm_keys (calls (w_state (n_world a))) then Live
      else if 0 < count_list (ends (w_emitted (n_world a))) cid then Ended
      else Fresh)"
  by (simp add: phase_def count_list_0_iff flip: neq0_conv)

lemma moves_counts:
  assumes "qa + of_bool la + ea = (of_bool i :: nat)" and "qb + of_bool lb + eb = (of_bool i :: nat)" and "qb \<le> qa" and "ea \<le> eb"
  shows "moves (if 0 < qa then Queued else if la then Live else if 0 < ea then Ended else Fresh)
    (if 0 < qb then Queued else if lb then Live else if 0 < eb then Ended else Fresh)"
  using assms by (cases i; cases la; cases lb) auto

lemma turn_moves:
  assumes "run_inv iss isq a ids" and "run_inv iss isq b ids" and "loop_turn n m a b"
  shows "moves (phase a cid) (phase b cid)"
proof -
  obtain evs where e: "w_emitted (n_world b) = w_emitted (n_world a) @ evs" using says_loop_turn [OF assms(3)] by blast
  then have "count_list (ends (w_emitted (n_world a))) cid \<le> count_list (ends (w_emitted (n_world b))) cid" by simp
  with phase_counts [OF assms(1), of cid] phase_counts [OF assms(2), of cid] loop_turn_queue [OF assms(3), of cid]
  show ?thesis unfolding phase_count by (intro moves_counts)
qed

text \<open>
  C3: Calls refine an abstract life cycle. Seen through the phases of its identifiers (fresh, queued, live, ended), every step a node
  can make from a reachable state, by its callers, its thread or a poll, is a step of the abstract machine: accepting moves one fresh
  identifier to queued and touches no other; everything else only moves identifiers forward, from queued to live or ended and
  from live to ended. No call is ever revived, and none is dropped back.
\<close>

theorem calls_refine_life:
  assumes "net_fresh n iss isq" and "reachable n iss isq a ids" and "node_step n iss isq l a b"
  shows "life l (phase a) (phase b) \<and> reachable n iss isq b (ids @ accepted l)"
proof -
  have r: "reachable n iss isq b (ids @ accepted l)" by (rule node_step_reachable [OF assms(2,3)])
  note inv = run_inv_reachable [OF assms(1,2)] run_inv_reachable [OF assms(1) r]
  have "life l (phase a) (phase b)"
    using assms(3)
  proof cases
    case (accepts cid a1 protocol grp node payload timeout)
    have b: "n_commands b = n_commands a @ [Rpc cid grp node protocol payload timeout]"
      "w_emitted (n_world b) = w_emitted (n_world a)" "calls (w_state (n_world b)) = calls (w_state (n_world a))"
      using accepts(3,5) by (auto simp: next_id_def send_def status_defs bump_id_def split: if_splits)
    have "cid \<notin> set ids" using reachable_distinct [OF assms(1) r] by (simp add: accepted_def accepts(1))
    with phase_counts [OF inv(1), of cid] have "phase a cid = Fresh" by (simp add: phase_count)
    moreover have "phase b = (phase a)(cid := Queued)" by (simp add: phase_def b fun_eq_iff)
    ultimately show ?thesis by (simp add: accepts(1) life_simps)
  next
    case (commands c)
    then have "phase b = phase a" by (auto simp: phase_def fun_eq_iff send_def status_defs split: if_splits)
    then show ?thesis by (simp add: commands(1) life_simps)
  next
    case (counts cid)
    then have "phase b = phase a" by (auto simp: phase_def fun_eq_iff next_id_def bump_id_def)
    then show ?thesis by (simp add: counts(1) life_simps)
  next
    case (turns m)
    with turn_moves [OF inv(1) _ turns(4)] inv(2) show ?thesis by (simp add: life_simps accepted_def)
  next
    case (polls e buf st buf' q)
    then have "phase b = phase a" by (auto simp: phase_def fun_eq_iff set_queue_def)
    then show ?thesis by (simp add: polls(1) life_simps)
  qed
  with r show ?thesis by blast
qed

theorem calls_refine_life_witness: "life Work (phase demo_calling) (phase \<lparr>n_world = demo_called, n_commands = [], n_receiver_gone = False\<rparr>)"
proof -
  have "ids_left demo_calling" by (simp add: ids_left_def demo_calling_def demo_state)
  moreover have "grows demo_issued demo_issued (\<lambda>x. x, [])" by (simp add: grows_def)
  moreover have "loop_turn demo_net (\<lambda>x. x, []) demo_calling (demo_calling\<lparr>n_world := demo_called, n_commands := []\<rparr>)"
    by (rule receive [where c = "Rpc 1 (replicate 32 1) (Some demo_seed) 0 [7] (from_secs 1)"])
      (simp_all add: demo_calling_def demo_called_eq del: One_nat_def)
  ultimately have "node_step demo_net demo_issued demo_issued Work demo_calling (demo_calling\<lparr>n_world := demo_called, n_commands := []\<rparr>)"
    by (rule turns)
  from calls_refine_life [OF demo_net_fresh demo_calling_reachable this] show ?thesis by (simp add: demo_calling_def)
qed

end
