(* ===== verification/Behaviours.thy ===== *)
theory Behaviours
  imports DemoNet
begin

text \<open>
  How \<open>src/node.rs\<close> puts the swarm together: \<open>make_behaviour\<close> and what it calls set libp2p's behaviours up from the configuration,
  \<open>build_swarm\<close> assembles them. libp2p's own constructors, defaults and failures are the fields of a record the definitions take.
\<close>

section \<open>What libp2p is given\<close>

record connection_limits =
  cl_established :: "u32 option"
  cl_established_per_peer :: "u32 option"
  cl_pending_incoming :: "u32 option"

record gossipsub_settings =
  gs_strict :: bool
  gs_validate_messages :: bool
  gs_max_transmit_size :: nat

datatype circuit_limiter = SrcPerPeer u32 duration | SrcPerIp u32 duration

record relay_settings =
  rv_max_reservations :: nat
  rv_max_reservations_per_peer :: nat
  rv_reservation_duration :: duration
  rv_max_circuits :: nat
  rv_max_circuits_per_peer :: nat
  rv_max_circuit_duration :: duration
  rv_max_circuit_bytes :: u64
  rv_circuit_limiters :: "circuit_limiter list"

record autonat_settings =
  an_only_global_ips :: bool
  an_boot_delay :: duration
  an_retry_interval :: duration
  an_refresh_interval :: duration
  an_throttle_server_period :: duration

datatype kad_mode = Server | Client

text \<open>\<open>struct Behaviour\<close>: each behaviour as the settings it is made with; a \<open>Toggle\<close> is an option.\<close>

record behaviour =
  b_limits :: connection_limits
  b_kad_protocol :: bytes
  b_kad_mode :: kad_mode
  b_identify_protocol :: bytes
  b_identify_hide_listen_addrs :: bool
  b_rpc :: raw_codec
  b_rpc_protocols :: "bytes list"
  b_rpc_timeout :: duration
  b_relay_server :: "relay_settings option"
  b_dcutr :: bool
  b_gossipsub :: gossipsub_settings
  b_gossipsub_topics :: "bytes list"
  b_autonat :: "autonat_settings option"

record 'sw builders =
  sb_test_loopback :: bool
  sb_autonat_default :: autonat_settings
  sb_relay_default :: relay_settings
  sb_gossipsub_build :: "gossipsub_settings \<Rightarrow> bool"
  sb_gossipsub_new :: "gossipsub_settings \<Rightarrow> bool"
  sb_gossipsub_subscribe :: "bytes \<Rightarrow> bool"
  sb_tcp :: bool
  sb_relay_client :: bool
  sb_build :: "bool \<Rightarrow> duration \<Rightarrow> behaviour \<Rightarrow> 'sw"

section \<open>Settings from the configuration\<close>

definition autonat_config :: "'sw builders \<Rightarrow> autonat_settings" where
  "autonat_config sb =
     (if sb_test_loopback sb
      then (sb_autonat_default sb)\<lparr>an_only_global_ips := False, an_boot_delay := from_millis 500,
        an_retry_interval := from_secs 1, an_refresh_interval := from_secs 5, an_throttle_server_period := 0\<rparr>
      else sb_autonat_default sb)"

definition gossipsub_largest :: "config \<Rightarrow> nat" where
  "gossipsub_largest config =
     max (case c_announce config of None \<Rightarrow> 0 | Some a \<Rightarrow> ac_max_payload_bytes a) (c_topic_max_message_bytes config)"

definition make_gossipsub :: "'sw builders \<Rightarrow> config \<Rightarrow> (gossipsub_settings \<times> bytes list) option" where
  "make_gossipsub sb config =
     (let gs = \<lparr>gs_strict = True, gs_validate_messages = True,
            gs_max_transmit_size = 1 + LP2P_DELEGATION_BYTES + gossipsub_largest config + GOSSIPSUB_OVERHEAD\<rparr>
      in if \<not> sb_gossipsub_build sb gs \<or> \<not> sb_gossipsub_new sb gs then None
         else case c_announce config of
             None \<Rightarrow> Some (gs, [])
           | Some a \<Rightarrow> if sb_gossipsub_subscribe sb (ac_topic a) then Some (gs, [ac_topic a]) else None)"

definition add_limiter :: "circuit_limiter \<Rightarrow> relay_settings \<Rightarrow> relay_settings" where
  "add_limiter l = rv_circuit_limiters_update (\<lambda>ls. ls @ [l])"

definition relay_server_config :: "'sw builders \<Rightarrow> relay_config \<Rightarrow> relay_settings" where
  "relay_server_config sb r =
     (let config = (sb_relay_default sb)\<lparr>
            rv_max_reservations := rc_max_reservations r,
            rv_max_reservations_per_peer := rc_max_reservations_per_peer r,
            rv_reservation_duration := rc_reservation_duration r,
            rv_max_circuits := rc_max_circuits r,
            rv_max_circuits_per_peer := rc_max_circuits_per_peer r,
            rv_max_circuit_duration := rc_max_circuit_duration r,
            rv_max_circuit_bytes := rc_max_circuit_bytes r\<rparr>;
          config = config\<lparr>rv_circuit_limiters := []\<rparr>;
          config = (case rc_circuits_per_peer r of
              None \<Rightarrow> config
            | Some bucket \<Rightarrow> add_limiter (SrcPerPeer (tb_burst bucket) (tb_interval bucket)) config)
      in case rc_circuits_per_ip r of
           None \<Rightarrow> config
         | Some bucket \<Rightarrow> add_limiter (SrcPerIp (tb_burst bucket) (tb_interval bucket)) config)"

text \<open>The frame around a payload: the version, the delegation and a protocol name.\<close>

definition rpc_overhead :: nat where
  "rpc_overhead = 2 + LP2P_DELEGATION_BYTES + 255"

definition make_behaviour :: "'sw builders \<Rightarrow> config \<Rightarrow> behaviour option" where
  "make_behaviour sb config =
     (let limits = \<lparr>cl_established = c_max_connections config, cl_established_per_peer = c_max_connections_per_peer config,
            cl_pending_incoming = c_max_pending_incoming config\<rparr>;
          rpc = \<lparr>max_request = unat (c_rpc_max_request_bytes config) + rpc_overhead,
            max_response = unat (c_rpc_max_response_bytes config) + rpc_overhead\<rparr>;
          relay_server = (if rc_server (c_relay config) \<and> c_reachability config \<noteq> Private
            then Some (relay_server_config sb (c_relay config)) else None)
      in case make_gossipsub sb config of
           None \<Rightarrow> None
         | Some (gs, ts) \<Rightarrow> Some \<lparr>
             b_limits = limits,
             b_kad_protocol = c_dht_protocol config,
             b_kad_mode = Server,
             b_identify_protocol = ascii ''/lp2p/1'',
             b_identify_hide_listen_addrs = True,
             b_rpc = rpc,
             b_rpc_protocols = [RPC_PROTOCOL],
             b_rpc_timeout = c_rpc_timeout config,
             b_relay_server = relay_server,
             b_dcutr = c_dcutr config,
             b_gossipsub = gs,
             b_gossipsub_topics = ts,
             b_autonat = (if c_autonat config then Some (autonat_config sb) else None)\<rparr>)"

definition build_swarm :: "'sw builders \<Rightarrow> config \<Rightarrow> int + 'sw" where
  "build_swarm sb config =
     (if \<not> sb_tcp sb then Inl LP2P_ERR_NETWORK
      else if \<not> sb_relay_client sb then Inl LP2P_ERR_NETWORK
      else case make_behaviour sb config of
          None \<Rightarrow> Inl LP2P_ERR_NETWORK
        | Some b \<Rightarrow> Inr (sb_build sb (c_quic config) (from_secs 60) b))"

section \<open>Limits of the wire\<close>

lemma make_behaviour_sizes:
  assumes "make_behaviour sb config = Some b"
  shows "b_rpc b = \<lparr>max_request = unat (c_rpc_max_request_bytes config) + rpc_overhead,
      max_response = unat (c_rpc_max_response_bytes config) + rpc_overhead\<rparr>"
    and "gs_max_transmit_size (b_gossipsub b) = 1 + LP2P_DELEGATION_BYTES + gossipsub_largest config + GOSSIPSUB_OVERHEAD"
  using assms by (auto simp: make_behaviour_def make_gossipsub_def Let_def split: option.splits if_splits)

lemma length_frames:
  "length (encode_request d p x) = 2 + length d + length p + length x"
  "length (encode_response d x) = 1 + length d + length x"
  by (simp_all add: encode_request_def encode_response_def)

lemma read_bounded_fits: "length f \<le> k \<Longrightarrow> read_bounded (Inr f) k = Inr f"
  by (simp add: read_bounded_def)

lemma read_bounded_length: "read_bounded io k = Inr f \<Longrightarrow> length f \<le> k"
  by (auto simp: read_bounded_def Let_def split: sum.splits if_splits)

text \<open>
  C30: The limits on the wire are set so that nothing legal is lost. A node that was set up with a configuration reads every request
  frame with a protocol name of at most 255 bytes and a payload within the request limit, and every response frame with a
  payload within the response limit; announcements and topic messages within their limits leave gossipsub's overhead free below its
  largest message. Conversely no response it reads carries more than 256 bytes above the limit.
\<close>

theorem legal_frames_fit:
  assumes "make_behaviour sb config = Some b" and "length deleg = LP2P_DELEGATION_BYTES"
  shows "(length protocol \<le> 255 \<and> length payload \<le> unat (c_rpc_max_request_bytes config) \<longrightarrow>
      read_request (b_rpc b) (Inr (encode_request deleg protocol payload)) = Inr (encode_request deleg protocol payload)) \<and>
    (length payload \<le> unat (c_rpc_max_response_bytes config) \<longrightarrow>
      read_response (b_rpc b) (Inr (encode_response deleg payload)) = Inr (encode_response deleg payload)) \<and>
    (length payload \<le> c_topic_max_message_bytes config \<or>
     (\<exists>a. c_announce config = Some a \<and> length payload \<le> ac_max_payload_bytes a) \<longrightarrow>
      length (encode_announcement deleg payload) + GOSSIPSUB_OVERHEAD \<le> gs_max_transmit_size (b_gossipsub b)) \<and>
    (read_response (b_rpc b) io = Inr frame \<and> decode_response frame = Some r \<longrightarrow>
      length (rs_payload r) \<le> unat (c_rpc_max_response_bytes config) + 256)"
proof -
  note sizes = make_behaviour_sizes [OF assms(1)]
  have "length (rs_payload r) \<le> unat (c_rpc_max_response_bytes config) + 256"
    if "read_response (b_rpc b) io = Inr frame" "decode_response frame = Some r"
  proof -
    have "length frame \<le> unat (c_rpc_max_response_bytes config) + rpc_overhead"
      using that(1) by (auto simp: read_response_def sizes dest: read_bounded_length)
    moreover have "length frame = 1 + LP2P_DELEGATION_BYTES + length (rs_payload r)"
      using decode_response_sound [OF that(2)] by (auto simp: response_wf_def response_frame_def length_frames)
    ultimately show ?thesis by (simp add: rpc_overhead_def)
  qed
  then show ?thesis
    using assms(2)
    by (auto simp: read_request_def read_response_def sizes read_bounded_fits length_frames rpc_overhead_def
        encode_announcement_def gossipsub_largest_def)
qed

definition demo_builders :: "nat builders" where
  "demo_builders = \<lparr>sb_test_loopback = False,
     sb_autonat_default = \<lparr>an_only_global_ips = True, an_boot_delay = from_secs 15, an_retry_interval = from_secs 90,
       an_refresh_interval = from_secs 900, an_throttle_server_period = from_secs 90\<rparr>,
     sb_relay_default = \<lparr>rv_max_reservations = 128, rv_max_reservations_per_peer = 4, rv_reservation_duration = from_secs 3600,
       rv_max_circuits = 16, rv_max_circuits_per_peer = 4, rv_max_circuit_duration = from_secs 120, rv_max_circuit_bytes = 131072,
       rv_circuit_limiters = [SrcPerPeer 30 (from_secs 120)]\<rparr>,
     sb_gossipsub_build = (\<lambda>gs. gs_max_transmit_size gs \<ge> 100), sb_gossipsub_new = (\<lambda>_. True), sb_gossipsub_subscribe = (\<lambda>_. True),
     sb_tcp = True, sb_relay_client = True, sb_build = (\<lambda>_ _ _. 0)\<rparr>"

theorem legal_frames_fit_witness:
  "\<exists>b. make_behaviour demo_builders demo_config = Some b \<and>
     read_request (b_rpc b) (Inr demo_request_frame) = Inr demo_request_frame"
proof -
  obtain b where b: "make_behaviour demo_builders demo_config = Some b"
    by (simp add: make_behaviour_def make_gossipsub_def demo_builders_def demo_config_def Let_def gossipsub_largest_def
        LP2P_DELEGATION_BYTES_def)
  have "length (to_bytes demo_grant) = LP2P_DELEGATION_BYTES" by (simp add: demo_grant_length LP2P_DELEGATION_BYTES_def)
  from legal_frames_fit [OF b this, of "ascii ''/echo''" "[7]"] b show ?thesis
    by (auto simp: demo_request_frame_def demo_config_def ascii_def)
qed

end
