(* ===== verification/Authenticity.thy ===== *)
theory Authenticity
  imports Emissions DemoNet
begin

text \<open>
  What stands behind the messages the node passes on. Whatever the main loop does in one turn, a request, a
  response, a topic message or an announcement is reported only for a frame from the network whose
  delegation vouches for the sender, and it carries that sender, its group and its payload.
\<close>

section \<open>Vouched senders\<close>

text \<open>The peer's key is \<open>node\<close>, and \<open>deleg\<close> is a signature of \<open>grp\<close> over that key that is not expired.\<close>

definition vouched :: "'sw net \<Rightarrow> peer_id \<Rightarrow> bytes \<Rightarrow> u64 \<Rightarrow> lp2p_key \<Rightarrow> lp2p_key \<Rightarrow> bool" where
  "vouched n peer deleg ms node grp \<longleftrightarrow>
     key_of (n_crypto n) peer = Some node \<and> ed_public_ok (n_crypto n) grp \<and>
     (\<exists>expires sig. deleg = node @ grp @ be_bytes 8 (unat expires) @ sig \<and>
        length node = 32 \<and> length grp = 32 \<and> length sig = 64 \<and>
        ed_verify (n_crypto n) grp (message node grp expires) sig \<and> (expires = 0 \<or> ms < expires))"

lemma checked_sender_vouched:
  assumes "checked_sender n peer deleg ms = Some (node, grp)"
  shows "vouched n peer deleg ms node grp"
proof -
  obtain d where d: "parse deleg = Inr d" "verify_for (n_crypto n) d node ms = Inr ()" "d_group d = grp"
    and k: "key_of (n_crypto n) peer = Some node"
    using assms by (auto simp: checked_sender_iff)
  from d(2) have v: "verify (n_crypto n) d ms = Inr ()" "d_node d = node" by (simp_all add: verify_for_ok_iff)
  have "deleg = node @ grp @ be_bytes 8 (unat (d_expires_ms d)) @ d_signature d \<and>
      length node = 32 \<and> length grp = 32 \<and> length (d_signature d) = 64"
    using to_bytes_parse [OF d(1)] v(2) d(3) by (auto simp: to_bytes_def delegation_wf_def)
  with k v d(3) show ?thesis unfolding vouched_def verify_ok_iff by blast
qed

section \<open>What a handler reports\<close>

lemma new_events_same [simp]:
  "w_emitted w' = w_emitted w \<Longrightarrow> new_events w w' = []"
  "w_emitted w' = w_emitted w @ evs \<Longrightarrow> new_events w w' = evs"
  by (simp_all add: new_events_def)

lemma report_limited_other:
  assumes "(h, d) \<in> set (new_events w (report_limited n g node p r now w1))" and "w_emitted w1 = w_emitted w"
  shows "ev_type h = LP2P_EV_LIMITED"
proof -
  have "says {LP2P_EV_LIMITED} w w1" using assms(2) by (simp add: says_def)
  then have "says {LP2P_EV_LIMITED} w (report_limited n g node p r now w1)" by (intro says_intros) simp_all
  from says_new [OF this assms(1)] show ?thesis by simp
qed

lemma inbound_request_reports:
  assumes "(h, d) \<in> set (new_events w (inbound_request n peer connection rid frame channel w))"
    and "ev_type h = LP2P_EV_RPC_REQUEST"
  shows "\<exists>rq protocol. decode_request frame = Some rq \<and>
    vouched n peer (rq_delegation rq) (now_ms n (w_net w)) (ev_node h) (ev_group h) \<and>
    index_of (rq_protocol rq) (s_rpc_protocols (w_state w)) = Some protocol \<and> ev_protocol h = word_of_nat protocol \<and>
    fst (check \<lparr>lr_group = ev_group h, lr_peer = peer, lr_ip = request_ip (w_state w) connection,
      lr_protocol = ev_protocol h\<rparr> (length frame) (instant_now n (w_net w)) (s_limits (w_state w))) = Inr () \<and>
    d = rq_payload rq \<and> ev_id h = sh_next_id (shared (w_state w)) \<and>
    hm_get (inbound (w_state (inbound_request n peer connection rid frame channel w))) (ev_id h) = Some channel"
proof -
  obtain rq node grp protocol res L where
    f: "decode_request frame = Some rq"
      "checked_sender n peer (rq_delegation rq) (now_ms n (w_net w)) = Some (node, grp)"
      "index_of (rq_protocol rq) (s_rpc_protocols (w_state w)) = Some protocol"
      "check \<lparr>lr_group = grp, lr_peer = peer, lr_ip = request_ip (w_state w) connection,
        lr_protocol = word_of_nat protocol\<rparr> (length frame) (instant_now n (w_net w)) (s_limits (w_state w)) = (res, L)"
    using assms(1) by (auto simp: inbound_request_def Let_def split: option.splits prod.splits)
  show ?thesis
  proof (cases res)
    case (Inl reason)
    then have "ev_type h = LP2P_EV_LIMITED"
      using assms(1) by (auto simp: inbound_request_def f dest!: report_limited_other)
    with assms(2) show ?thesis by (simp add: event_type_defs)
  next
    case (Inr u)
    with assms(1) f checked_sender_vouched [OF f(2)] show ?thesis
      by (auto simp: inbound_request_def Let_def event_new_def)
  qed
qed

lemma response_reports:
  assumes "(h, d) \<in> set (new_events w (response n peer rid frame w))" and "ev_type h = LP2P_EV_RPC_RESPONSE"
  shows "\<exists>c rs. hm_get (outbound (w_state w)) rid = Some (ev_id h) \<and>
    hm_get (calls (w_state w)) (ev_id h) = Some c \<and> decode_response frame = Some rs \<and>
    vouched n peer (rs_delegation rs) (now_ms n (w_net w)) (ev_node h) (call_group c) \<and>
    ev_group h = call_group c \<and> ev_protocol h = call_protocol c \<and> d = rs_payload rs \<and>
    hm_get (calls (w_state (response n peer rid frame w))) (ev_id h) = None"
proof -
  obtain cid c where f: "hm_get (outbound (w_state w)) rid = Some cid" "hm_get (calls (w_state w)) cid = Some c"
    using assms(1) by (auto simp: response_def Let_def split: option.splits)
  show ?thesis
  proof (cases "response_ok n peer (call_group c) frame (now_ms n (w_net w))")
    case None
    have "says {LP2P_EV_RPC_FAILED} w (response n peer rid frame w)"
      by (simp add: response_def f None) (intro says_intros; simp)
    from says_new [OF this assms(1)] assms(2) show ?thesis by (simp add: event_type_defs)
  next
    case (Some np)
    then obtain node rs where r: "decode_response frame = Some rs" "np = (node, rs_payload rs)"
      "checked_sender n peer (rs_delegation rs) (now_ms n (w_net w)) = Some (node, call_group c)"
      by (auto simp: response_ok_def split: option.splits if_splits)
    with assms(1) f Some checked_sender_vouched [OF r(3)] show ?thesis
      by (auto simp: response_def rpc_response_def event_new_def)
  qed
qed

lemma checked_message_vouched:
  assumes "checked_message n m ms = Some (source, node, grp, payload)"
  shows "\<exists>a. gm_source m = Some source \<and> decode_announcement (gm_data m) = Some a \<and>
    vouched n source (rs_delegation a) ms node grp \<and> payload = rs_payload a"
  using assms checked_sender_vouched by (auto simp: checked_message_def split: option.splits)

lemma topic_message_reports:
  assumes "(h, d) \<in> set (new_events w (snd (topic_message n p m w)))" and "ev_type h = LP2P_EV_TOPIC_MESSAGE"
  shows "\<exists>key source a. hm_get (topic_keys (w_state w)) (gm_topic m) = Some key \<and> gm_source m = Some source \<and>
    decode_announcement (gm_data m) = Some a \<and>
    vouched n source (rs_delegation a) (now_ms n (w_net w)) (ev_node h) (ev_group h) \<and>
    length (rs_payload a) \<le> topic_max_message_bytes (w_state w) \<and> d = key @ rs_payload a \<and>
    fst (check \<lparr>lr_group = ev_group h, lr_peer = p, lr_ip = hm_get (peer_ips (w_state w)) p,
      lr_protocol = LP2P_PROTOCOL_TOPICS\<rparr> (length (gm_data m)) (instant_now n (w_net w)) (s_limits (w_state w))) = Inr () \<and>
    fst (topic_message n p m w) = Accept"
proof -
  obtain key source node grp payload res L where
    f: "hm_get (topic_keys (w_state w)) (gm_topic m) = Some key"
      "checked_message n m (now_ms n (w_net w)) = Some (source, node, grp, payload)"
      "length payload \<le> topic_max_message_bytes (w_state w)"
      "check \<lparr>lr_group = grp, lr_peer = p, lr_ip = hm_get (peer_ips (w_state w)) p,
        lr_protocol = LP2P_PROTOCOL_TOPICS\<rparr> (length (gm_data m)) (instant_now n (w_net w)) (s_limits (w_state w)) = (res, L)"
    using assms(1) by (auto simp: topic_message_def Let_def not_less split: option.splits prod.splits if_splits)
  show ?thesis
  proof (cases res)
    case (Inl reason)
    then have "ev_type h = LP2P_EV_LIMITED"
      using assms(1) f by (auto simp: topic_message_def not_less dest!: report_limited_other)
    with assms(2) show ?thesis by (simp add: event_type_defs)
  next
    case (Inr u)
    with assms(1) f checked_message_vouched [OF f(2)] show ?thesis
      by (auto simp: topic_message_def Let_def event_new_def)
  qed
qed

lemma announcement_reports:
  assumes "(h, d) \<in> set (new_events w (snd (announcement_message n m w)))"
  shows "\<exists>source a. gm_source m = Some source \<and> decode_announcement (gm_data m) = Some a \<and>
    vouched n source (rs_delegation a) (now_ms n (w_net w)) (ev_node h) (ev_group h) \<and> d = rs_payload a \<and>
    class_of (s_limits (w_state w)) (ev_group h) \<noteq> LP2P_CLASS_BLOCKED \<and>
    fst (allow source (instant_now n (w_net w)) (announce_rate (w_state w))) \<and>
    fst (announcement_message n m w) = Accept"
proof -
  obtain source node grp payload where
    f: "checked_message n m (now_ms n (w_net w)) = Some (source, node, grp, payload)"
    using assms by (auto simp: announcement_message_def Let_def split: option.splits)
  with assms checked_message_vouched [OF f] show ?thesis
    by (auto simp: announcement_message_def Let_def event_new_def split: if_splits prod.splits)
qed

section \<open>What a turn reports\<close>

text \<open>
  Only an RPC or a gossipsub event from libp2p makes the node report something a peer said.
\<close>

definition peer_types :: "u16 set" where
  "peer_types = {LP2P_EV_RPC_REQUEST, LP2P_EV_RPC_RESPONSE, LP2P_EV_TOPIC_MESSAGE, LP2P_EV_ANNOUNCEMENT}"

lemma peer_local_types: "peer_types \<inter> local_types = {}"
  by (auto simp: peer_types_def local_types_def event_type_defs)

lemma turn_reports:
  assumes "run_turn n inp w = Running w'" and "(h, d) \<in> set (new_events w w')" and "ev_type h \<in> peer_types"
  shows "(\<exists>e. inp = Swarm (RpcEvent e)) \<or> (\<exists>e. inp = Swarm (Gossipsub e))"
proof (rule ccontr)
  assume no: "\<not> ?thesis"
  have "says local_types w w'"
  proof (cases inp)
    case (Receive c)
    with assms(1) show ?thesis
      by (cases c) (auto split: if_splits option.splits intro: says_command)
  next
    case (Swarm ev)
    with no assms(1) says_swarm_other [of ev w n] show ?thesis by auto
  next
    case Tick
    with assms(1) says_mono [OF says_tick [of w n], of local_types] show ?thesis by (auto simp: local_types_def)
  qed
  from says_new [OF this assms(2)] assms(3) peer_local_types show False by auto
qed

lemma rpc_event_reports:
  assumes "(h, d) \<in> set (new_events w (rpc_event n e w))" and "ev_type h \<in> peer_types"
  shows "(\<exists>p c r f ch. e = InboundRequest p c r f ch \<and> ev_type h = LP2P_EV_RPC_REQUEST) \<or>
    (\<exists>p r f. e = Response p r f \<and> ev_type h = LP2P_EV_RPC_RESPONSE)"
proof (cases e)
  case (InboundRequest p c r f ch)
  then show ?thesis
    using says_new [OF says_inbound_request [of w n p c r f ch], of "(h, d)"] assms
    by (auto simp: peer_types_def event_type_defs)
next
  case (Response p r f)
  have "says {LP2P_EV_RPC_RESPONSE, LP2P_EV_RPC_FAILED} w (response n p r f w)"
    by (intro says_intros) simp
  from says_new [OF this, of "(h, d)"] Response assms show ?thesis
    by (auto simp: peer_types_def event_type_defs)
qed (use assms says_new [OF says_rpc_other [of "{LP2P_EV_RPC_FAILED}" e w n], of "(h, d)"] in
    \<open>auto simp: peer_types_def event_type_defs\<close>)

lemma new_events_do_act [simp]: "new_events w (do_act n a w1) = new_events w w1"
  by (simp add: new_events_def)

lemma gossipsub_reports:
  assumes "(h, d) \<in> set (new_events w (gossipsub_event n e w))" and "ev_type h \<in> peer_types"
  shows "\<exists>p i m. e = Message p i m \<and>
    (if gm_topic m \<in> hm_keys (topic_keys (w_state w))
     then ev_type h = LP2P_EV_TOPIC_MESSAGE \<and> (h, d) \<in> set (new_events w (snd (topic_message n p m w)))
     else ev_type h = LP2P_EV_ANNOUNCEMENT \<and> (h, d) \<in> set (new_events w (snd (announcement_message n m w))))"
proof (cases e)
  case Subscribed
  have "says {} w (announce n w)" by (intro says_intros)
  with assms(1) Subscribed show ?thesis by (simp add: says_silent)
next
  case (Message p i m)
  show ?thesis
  proof (cases "gm_topic m \<in> hm_keys (topic_keys (w_state w))")
    case True
    then have new: "(h, d) \<in> set (new_events w (snd (topic_message n p m w)))"
      using assms(1) Message by (simp add: hm_contains_keys case_prod_beta)
    from says_new [OF says_topic_message this] assms(2) True new Message show ?thesis
      by (auto simp: peer_types_def event_type_defs)
  next
    case False
    then have new: "(h, d) \<in> set (new_events w (snd (announcement_message n m w)))"
      using assms(1) Message by (simp add: hm_contains_keys case_prod_beta)
    from says_new [OF says_announcement this] False new Message show ?thesis by auto
  qed
next
  case OtherGossip
  with assms(1) show ?thesis by simp
qed

section \<open>Authenticity\<close>

text \<open>
  C8: A request is reported only when one arrived: its frame decodes, the delegation in it is a
  signature of the reported group over the reported node that has not expired, the peer that sent
  it owns that node key, the protocol is one the node serves, the rate limits admitted it, and the response
  channel is kept under the reported identifier. The payload is the frame's.
\<close>

theorem request_is_authentic:
  assumes "run_turn n inp w = Running w'" and "(h, d) \<in> set (new_events w w')" and "ev_type h = LP2P_EV_RPC_REQUEST"
  shows "\<exists>peer connection rid frame channel rq protocol.
    inp = Swarm (RpcEvent (InboundRequest peer connection rid frame channel)) \<and> decode_request frame = Some rq \<and>
    vouched n peer (rq_delegation rq) (now_ms n (w_net w)) (ev_node h) (ev_group h) \<and>
    index_of (rq_protocol rq) (s_rpc_protocols (w_state w)) = Some protocol \<and> ev_protocol h = word_of_nat protocol \<and>
    fst (check \<lparr>lr_group = ev_group h, lr_peer = peer, lr_ip = request_ip (w_state w) connection,
      lr_protocol = ev_protocol h\<rparr> (length frame) (instant_now n (w_net w)) (s_limits (w_state w))) = Inr () \<and>
    d = rq_payload rq \<and> hm_get (inbound (w_state w')) (ev_id h) = Some channel"
proof -
  have t: "ev_type h \<in> peer_types" using assms(3) by (simp add: peer_types_def)
  from turn_reports [OF assms(1,2) t] show ?thesis
  proof (elim disjE exE)
    fix e assume inp: "inp = Swarm (RpcEvent e)"
    with assms(1) have w': "w' = rpc_event n e w" by simp
    with rpc_event_reports [of h d w n e] assms(2,3) t
    obtain p c r f ch where e: "e = InboundRequest p c r f ch" by (auto simp: event_type_defs)
    with w' inbound_request_reports [of h d w n p c r f ch] assms(2,3) inp show ?thesis by auto
  next
    fix e assume "inp = Swarm (Gossipsub e)"
    with gossipsub_reports [of h d w n e] assms t show ?thesis by (auto simp: event_type_defs split: if_splits)
  qed
qed

definition demo_arrival :: input where
  "demo_arrival = Swarm (RpcEvent (InboundRequest demo_peer 3 4 demo_request_frame 9))"

lemma demo_arrives:
  "\<exists>w h. run_turn demo_net demo_arrival demo_world = Running w \<and> (h, [7]) \<in> set (new_events demo_world w) \<and>
     ev_type h = LP2P_EV_RPC_REQUEST"
  by (simp add: demo_arrival_def inbound_request_def demo_request_decodes demo_state demo_sender
      demo_check index_of_def Let_def)

theorem request_is_authentic_witness:
  "\<exists>rq node grp. decode_request demo_request_frame = Some rq \<and> rq_payload rq = [7] \<and>
     vouched demo_net demo_peer (rq_delegation rq) 0 node grp"
proof -
  obtain w h where "run_turn demo_net demo_arrival demo_world = Running w"
    "(h, [7]) \<in> set (new_events demo_world w)" "ev_type h = LP2P_EV_RPC_REQUEST"
    using demo_arrives by blast
  from request_is_authentic [OF this] show ?thesis by (simp add: demo_arrival_def) metis
qed

text \<open>
  C9: A response is reported only for a live call whose request it answers, from a node that proves
  to belong to the group the call was addressed to; the event names that group, node and protocol, the
  payload is the frame's, and the call is over.
\<close>

theorem response_is_authentic:
  assumes "run_turn n inp w = Running w'" and "(h, d) \<in> set (new_events w w')" and "ev_type h = LP2P_EV_RPC_RESPONSE"
  shows "\<exists>peer rid frame c rs. inp = Swarm (RpcEvent (Response peer rid frame)) \<and>
    hm_get (outbound (w_state w)) rid = Some (ev_id h) \<and>
    hm_get (calls (w_state w)) (ev_id h) = Some c \<and> decode_response frame = Some rs \<and>
    vouched n peer (rs_delegation rs) (now_ms n (w_net w)) (ev_node h) (call_group c) \<and>
    ev_group h = call_group c \<and> ev_protocol h = call_protocol c \<and> d = rs_payload rs \<and>
    hm_get (calls (w_state w')) (ev_id h) = None"
proof -
  have t: "ev_type h \<in> peer_types" using assms(3) by (simp add: peer_types_def)
  from turn_reports [OF assms(1,2) t] show ?thesis
  proof (elim disjE exE)
    fix e assume inp: "inp = Swarm (RpcEvent e)"
    with assms(1) have w': "w' = rpc_event n e w" by simp
    with rpc_event_reports [of h d w n e] assms(2,3) t
    obtain p r f where e: "e = Response p r f" by (auto simp: event_type_defs)
    with w' response_reports [of h d w n p r f] assms(2,3) inp show ?thesis by auto
  next
    fix e assume "inp = Swarm (Gossipsub e)"
    with gossipsub_reports [of h d w n e] assms t show ?thesis by (auto simp: event_type_defs split: if_splits)
  qed
qed

definition demo_call_live :: call where
  "demo_call_live = \<lparr>call_group = replicate 32 1, call_protocol = 0, call_frame = demo_request_frame, candidates = [],
     seen_peers = {demo_peer}, resolved = {}, in_flight = True, resolving = False, lookup_running = False,
     call_deadline = 50, last_failure = LP2P_FAIL_UNREACHABLE\<rparr>"

definition demo_waiting :: "nat world" where
  "demo_waiting = w_state_update (calls_update (\<lambda>_. [(5, demo_call_live)]) \<circ> outbound_update (\<lambda>_. [(0, 5)])) demo_world"

lemma demo_answered:
  "\<exists>w h. run_turn demo_net (Swarm (RpcEvent (Response demo_peer 0 demo_response_frame))) demo_waiting = Running w \<and>
     (h, [8]) \<in> set (new_events demo_waiting w) \<and> ev_type h = LP2P_EV_RPC_RESPONSE \<and> ev_id h = 5"
  by (simp add: demo_waiting_def response_def response_ok_def demo_response_decodes demo_sender demo_state
      demo_call_live_def rpc_response_def)

theorem response_is_authentic_witness:
  "\<exists>rs node. decode_response demo_response_frame = Some rs \<and> rs_payload rs = [8] \<and>
     vouched demo_net demo_peer (rs_delegation rs) 0 node (replicate 32 1)"
proof -
  obtain w h where "run_turn demo_net (Swarm (RpcEvent (Response demo_peer 0 demo_response_frame))) demo_waiting = Running w"
    "(h, [8]) \<in> set (new_events demo_waiting w)" "ev_type h = LP2P_EV_RPC_RESPONSE" "ev_id h = 5"
    using demo_answered by blast
  from response_is_authentic [OF this(1-3)] this(4) show ?thesis
    by (auto simp: demo_waiting_def demo_call_live_def)
qed

text \<open>
  C25: A topic message is reported only for a topic the node follows, from a source whose delegation in
  the message vouches for it, within the size bound and admitted by the rate limits of the peer that
  passed it on. The data is the topic key and the payload.
\<close>

theorem topic_message_is_authentic:
  assumes "run_turn n inp w = Running w'" and "(h, d) \<in> set (new_events w w')" and "ev_type h = LP2P_EV_TOPIC_MESSAGE"
  shows "\<exists>p i m key source a. inp = Swarm (Gossipsub (Message p i m)) \<and>
    hm_get (topic_keys (w_state w)) (gm_topic m) = Some key \<and> gm_source m = Some source \<and>
    decode_announcement (gm_data m) = Some a \<and>
    vouched n source (rs_delegation a) (now_ms n (w_net w)) (ev_node h) (ev_group h) \<and>
    length (rs_payload a) \<le> topic_max_message_bytes (w_state w) \<and> d = key @ rs_payload a \<and>
    fst (check \<lparr>lr_group = ev_group h, lr_peer = p, lr_ip = hm_get (peer_ips (w_state w)) p,
      lr_protocol = LP2P_PROTOCOL_TOPICS\<rparr> (length (gm_data m)) (instant_now n (w_net w)) (s_limits (w_state w))) = Inr ()"
proof -
  have t: "ev_type h \<in> peer_types" using assms(3) by (simp add: peer_types_def)
  from turn_reports [OF assms(1,2) t] show ?thesis
  proof (elim disjE exE)
    fix e assume "inp = Swarm (RpcEvent e)"
    with rpc_event_reports [of h d w n e] assms t show ?thesis by (auto simp: event_type_defs)
  next
    fix e assume inp: "inp = Swarm (Gossipsub e)"
    with gossipsub_reports [of h d w n e] assms t obtain p i m where e: "e = Message p i m"
      "(h, d) \<in> set (new_events w (snd (topic_message n p m w)))"
      by (auto simp: event_type_defs split: if_splits)
    from topic_message_reports [OF e(2) assms(3)] inp e(1) show ?thesis by auto
  qed
qed

definition demo_key :: lp2p_key where
  "demo_key = replicate 32 6"

definition demo_following :: "nat world" where
  "demo_following = topic_subscribe demo_net demo_key demo_world"

definition demo_message :: "topic \<Rightarrow> gossip_message" where
  "demo_message topic = \<lparr>gm_source = Some demo_peer, gm_data = demo_response_frame, gm_topic = topic\<rparr>"

lemma demo_message_checked:
  "checked_message demo_net (demo_message t) 0 = Some (demo_peer, demo_seed, replicate 32 1, [8])"
  by (simp add: checked_message_def demo_message_def decode_announcement_def demo_response_decodes demo_sender)

lemma demo_following_state:
  "hm_get (topic_keys (w_state demo_following)) (topic_name demo_key) = Some demo_key"
  "s_limits (w_state demo_following) = limits_default" "topic_max_message_bytes (w_state demo_following) = 1000"
  by (simp_all add: demo_following_def topic_subscribe_def topic_lookup_def store_topic_count_def demo_state Let_def
      hm_contains_def)

lemma demo_gossip:
  "\<exists>w h. run_turn demo_net (Swarm (Gossipsub (Message demo_peer [] (demo_message (topic_name demo_key))))) demo_following =
     Running w \<and> (h, demo_key @ [8]) \<in> set (new_events demo_following w) \<and> ev_type h = LP2P_EV_TOPIC_MESSAGE"
proof -
  have "gm_topic (demo_message (topic_name demo_key)) = topic_name demo_key" by (simp add: demo_message_def)
  then show ?thesis
    by (simp add: topic_message_def hm_contains_def demo_following_state demo_message_checked demo_check Let_def)
qed

theorem topic_message_is_authentic_witness:
  "\<exists>a node grp. decode_announcement demo_response_frame = Some a \<and> demo_key @ [8] = demo_key @ rs_payload a \<and>
     vouched demo_net demo_peer (rs_delegation a) 0 node grp"
proof -
  obtain w h where "run_turn demo_net (Swarm (Gossipsub (Message demo_peer [] (demo_message (topic_name demo_key)))))
      demo_following = Running w"
    "(h, demo_key @ [8]) \<in> set (new_events demo_following w)" "ev_type h = LP2P_EV_TOPIC_MESSAGE"
    using demo_gossip by blast
  from topic_message_is_authentic [OF this] show ?thesis
    by (simp add: demo_message_def demo_following_state) metis
qed

text \<open>
  C26: An announcement is reported only from a source whose delegation in the message vouches for it, whose
  group is not blocked, and within the source's rate; the payload is the message's.
\<close>

theorem announcement_is_authentic:
  assumes "run_turn n inp w = Running w'" and "(h, d) \<in> set (new_events w w')" and "ev_type h = LP2P_EV_ANNOUNCEMENT"
  shows "\<exists>p i m source a. inp = Swarm (Gossipsub (Message p i m)) \<and>
    hm_get (topic_keys (w_state w)) (gm_topic m) = None \<and> gm_source m = Some source \<and>
    decode_announcement (gm_data m) = Some a \<and>
    vouched n source (rs_delegation a) (now_ms n (w_net w)) (ev_node h) (ev_group h) \<and> d = rs_payload a \<and>
    class_of (s_limits (w_state w)) (ev_group h) \<noteq> LP2P_CLASS_BLOCKED \<and>
    fst (allow source (instant_now n (w_net w)) (announce_rate (w_state w)))"
proof -
  have t: "ev_type h \<in> peer_types" using assms(3) by (simp add: peer_types_def)
  from turn_reports [OF assms(1,2) t] show ?thesis
  proof (elim disjE exE)
    fix e assume "inp = Swarm (RpcEvent e)"
    with rpc_event_reports [of h d w n e] assms t show ?thesis by (auto simp: event_type_defs)
  next
    fix e assume inp: "inp = Swarm (Gossipsub e)"
    with gossipsub_reports [of h d w n e] assms t obtain p i m where e: "e = Message p i m"
      "(h, d) \<in> set (new_events w (snd (announcement_message n m w)))" "gm_topic m \<notin> hm_keys (topic_keys (w_state w))"
      by (auto simp: event_type_defs split: if_splits)
    from announcement_reports [OF e(2)] inp e(1,3) show ?thesis by (auto simp: map_of_eq_None_iff)
  qed
qed

lemma demo_announced:
  "\<exists>w h. run_turn demo_net (Swarm (Gossipsub (Message demo_peer [] (demo_message [1])))) demo_world = Running w \<and>
     (h, [8]) \<in> set (new_events demo_world w) \<and> ev_type h = LP2P_EV_ANNOUNCEMENT"
proof -
  have "1 \<le> rnd 3" using rnd_of_nat [of 3] by simp
  then have "fst (allow demo_peer 0 (source_rate_new ANNOUNCE_INTERVAL ANNOUNCE_BURST))"
    by (simp add: allow_def source_rate_new_def source_refilled_def ANNOUNCE_BURST_def u32_f64_eq Let_def
        duration_since_def f64_add_def f64_mul_def)
  then obtain r where "allow demo_peer 0 (source_rate_new ANNOUNCE_INTERVAL ANNOUNCE_BURST) = (True, r)"
    by (metis prod.collapse)
  moreover have "class_of limits_default (replicate 32 1) \<noteq> LP2P_CLASS_BLOCKED"
    by (simp add: class_of_def limits_default_def class_defs)
  ultimately show ?thesis
    by (simp add: announcement_message_def hm_contains_def demo_state demo_message_checked Let_def)
qed

theorem announcement_is_authentic_witness:
  "\<exists>a node grp. decode_announcement demo_response_frame = Some a \<and> rs_payload a = [8] \<and>
     vouched demo_net demo_peer (rs_delegation a) 0 node grp"
proof -
  obtain w h where "run_turn demo_net (Swarm (Gossipsub (Message demo_peer [] (demo_message [1])))) demo_world = Running w"
    "(h, [8]) \<in> set (new_events demo_world w)" "ev_type h = LP2P_EV_ANNOUNCEMENT"
    using demo_announced by blast
  from announcement_is_authentic [OF this] show ?thesis by (simp add: demo_message_def) metis
qed

end
