(* ===== verification/Timeouts.thy ===== *)
theory Timeouts
  imports Authenticity
begin

text \<open>
  The tick of the main loop: what it does with calls whose time is up, and what it leaves alone.
\<close>

section \<open>Expiry\<close>

definition timed_out :: "u64 \<times> call \<Rightarrow> event" where
  "timed_out = (\<lambda>(cid, c). (rpc_failed cid c LP2P_FAIL_TIMEOUT, []))"

lemma expire_one_live:
  assumes "hm_get (calls (w_state w)) cid = Some c"
  shows "w_emitted (expire_one n cid w) = w_emitted w @ [timed_out (cid, c)]"
    and "calls (w_state (expire_one n cid w)) = hm_remove cid (calls (w_state w))"
  using assms by (simp_all add: expire_one_def timed_out_def drop_call_def)

lemma expire_fold:
  "distinct (map fst xs) \<Longrightarrow> (\<And>cid c. (cid, c) \<in> set xs \<Longrightarrow> hm_get (calls (w_state w)) cid = Some c) \<Longrightarrow>
   w_emitted (fold (expire_one n) (map fst xs) w) = w_emitted w @ map timed_out xs \<and>
   hm_get (calls (w_state (fold (expire_one n) (map fst xs) w))) =
     (\<lambda>u. if u \<in> fst ` set xs then None else hm_get (calls (w_state w)) u)"
proof (induction xs arbitrary: w)
  case (Cons x xs)
  obtain cid c where x: "x = (cid, c)" by fastforce
  note one = expire_one_live [OF Cons.prems(2) [of cid c], of n]
  have "hm_get (calls (w_state (expire_one n cid w))) u = Some v" if "(u, v) \<in> set xs" for u v
    using that one(2) Cons.prems by (auto simp: x) (metis fst_conv image_eqI)
  with Cons.IH [of "expire_one n cid w"] Cons.prems(1) one show ?case by (auto simp: x)
qed simp

lemma expire_calls_spec:
  assumes "hm_wf (calls (w_state w))"
  shows "w_emitted (expire_calls n now w) =
      w_emitted w @ map timed_out (filter (\<lambda>(_, c). call_deadline c \<le> now) (calls (w_state w)))"
    and "hm_get (calls (w_state (expire_calls n now w))) cid =
      (case hm_get (calls (w_state w)) cid of
         None \<Rightarrow> None | Some c \<Rightarrow> if call_deadline c \<le> now then None else Some c)"
proof -
  let ?xs = "filter (\<lambda>(_, c). call_deadline c \<le> now) (calls (w_state w))"
  have d: "distinct (map fst ?xs)" using assms by (simp add: hm_wf_def distinct_map_filter)
  have m: "hm_get (calls (w_state w)) u = Some v" if "(u, v) \<in> set ?xs" for u v
    using that assms by (simp add: hm_get_in_set)
  note f = expire_fold [OF d m, of n, folded expire_calls_def]
  from f show "w_emitted (expire_calls n now w) = w_emitted w @ map timed_out ?xs" by (simp add: expire_calls_def)
  have "u \<in> fst ` set ?xs \<longleftrightarrow> (\<exists>c. hm_get (calls (w_state w)) u = Some c \<and> call_deadline c \<le> now)" for u
    using hm_get_in_set [OF assms, of u] by force
  with f show "hm_get (calls (w_state (expire_calls n now w))) cid =
      (case hm_get (calls (w_state w)) cid of
         None \<Rightarrow> None | Some c \<Rightarrow> if call_deadline c \<le> now then None else Some c)"
    by (auto split: option.splits)
qed

section \<open>The rest of the tick\<close>

lemma reserve_loop_calls [simp]: "calls (w_state (reserve_loop n now ps w)) = calls (w_state w)"
proof (induction ps arbitrary: w)
  case (Cons pa ps)
  obtain p a where pa: "pa = (p, a)" by fastforce
  obtain l x where "listen_on n (without_peer a @ [P2p p, P2pCircuit]) (w_net w) = (l, x)" by fastforce
  with Cons show ?case by (cases l) (simp_all add: pa)
qed simp

lemma topic_lookup_calls [simp]: "calls (w_state (topic_lookup n key w)) = calls (w_state w)"
  by (simp add: topic_lookup_def Let_def split: prod.split option.split)

lemma topic_lookups_calls [simp]: "calls (w_state (fold (topic_lookup n) ks w)) = calls (w_state w)"
  by (induction ks arbitrary: w) simp_all

lemma tick_calls [simp]:
  "calls (w_state (reserve n w)) = calls (w_state w)" "calls (w_state (announce n w)) = calls (w_state w)"
  "calls (w_state (sweep_limits now w)) = calls (w_state w)"
  "calls (w_state (provide_if_due n now w)) = calls (w_state w)" "calls (w_state (store_counts n w)) = calls (w_state w)"
  by (simp_all add: reserve_def announce_def sweep_limits_def provide_if_due_def provide_def store_counts_def Let_def
      split: option.split prod.split)

lemma tick_silent: "w_emitted (tick n w) = w_emitted (expire_calls n (instant_now n (w_net w)) w)"
proof -
  have "says {} (expire_calls n (instant_now n (w_net w)) w) (tick n w)"
    unfolding tick_def Let_def store_counts_def provide_if_due_def sweep_limits_def
    by (auto intro!: says_intros says_fold)
  then show ?thesis by (simp add: says_silent)
qed

text \<open>
  C16: A tick ends exactly the calls whose deadline has passed, each with one \<open>LP2P_EV_RPC_FAILED\<close> that says
  timeout, leaves every other call as it is, and reports nothing else. So no call outlives its deadline by more
  than the time between two ticks.
\<close>

theorem tick_ends_overdue_calls:
  assumes "hm_wf (calls (w_state w))"
  shows "new_events w (tick n w) =
      map timed_out (filter (\<lambda>(_, c). call_deadline c \<le> instant_now n (w_net w)) (calls (w_state w))) \<and>
    hm_get (calls (w_state (tick n w))) cid =
      (case hm_get (calls (w_state w)) cid of
         None \<Rightarrow> None
       | Some c \<Rightarrow> if call_deadline c \<le> instant_now n (w_net w) then None else Some c)"
proof -
  have "hm_get (calls (w_state (tick n w))) cid =
      hm_get (calls (w_state (expire_calls n (instant_now n (w_net w)) w))) cid"
    by (simp add: tick_def Let_def)
  then show ?thesis
    by (simp add: tick_silent expire_calls_spec [OF assms])
qed

theorem tick_ends_overdue_calls_witness:
  "new_events (demo_waiting\<lparr>w_net := 50\<rparr>) (tick demo_net (demo_waiting\<lparr>w_net := 50\<rparr>)) = [timed_out (5, demo_call_live)] \<and>
   new_events (demo_waiting\<lparr>w_net := 49\<rparr>) (tick demo_net (demo_waiting\<lparr>w_net := 49\<rparr>)) = []"
  using tick_ends_overdue_calls [of "demo_waiting\<lparr>w_net := 50\<rparr>" demo_net]
    tick_ends_overdue_calls [of "demo_waiting\<lparr>w_net := 49\<rparr>" demo_net]
  by (simp add: demo_waiting_def demo_call_live_def hm_wf_def)

end
