(* ===== verification/Memory.thy ===== *)
theory Memory
  imports Abi
begin

text \<open>
  The caller's memory as the C interface sees it: a partial map from addresses to bytes, with 0 as the null
  pointer. Reading or writing an address that is not mapped is undefined behaviour, which the model keeps apart
  from every status a function can return.
\<close>

section \<open>Bytes\<close>

type_synonym ptr = nat
type_synonym mem = "nat \<Rightarrow> u8 option"

fun load :: "mem \<Rightarrow> ptr \<Rightarrow> nat \<Rightarrow> bytes option" where
  "load m p 0 = Some []"
| "load m p (Suc n) =
     (case m p of
        None \<Rightarrow> None
      | Some b \<Rightarrow> map_option (Cons b) (load m (Suc p) n))"

fun store :: "mem \<Rightarrow> ptr \<Rightarrow> bytes \<Rightarrow> mem option" where
  "store m p [] = Some m"
| "store m p (b # bs) = (if m p = None then None else store (m(p \<mapsto> b)) (Suc p) bs)"

text \<open>A reference or a typed write needs an aligned pointer; what the code does with \<open>read_unaligned\<close> or \<open>u8\<close> does not.\<close>

definition aligned :: "nat \<Rightarrow> ptr \<Rightarrow> bool" where
  "aligned n p \<longleftrightarrow> p mod n = 0"

definition region :: "ptr \<Rightarrow> nat \<Rightarrow> nat set" where
  "region p n = {p..<p + n}"

text \<open>\<open>CStr::from_ptr\<close>: the bytes before the first NUL. A string that runs into unmapped memory, or never ends, has no value.\<close>

partial_function (option) cstr :: "mem \<Rightarrow> ptr \<Rightarrow> bytes option" where
  "cstr m p =
     (case m p of
        None \<Rightarrow> None
      | Some b \<Rightarrow> if b = 0 then Some [] else Option.bind (cstr m (Suc p)) (\<lambda>s. Some (b # s)))"

section \<open>Results\<close>

text \<open>
  The outcome of a call from C: undefined behaviour, a call that still waits, or a return. Inside a function
  \<open>Result<T, i32>\<close> is a sum with the status on the left; \<open>attempt\<close> is the \<open>?\<close> operator.
\<close>

datatype 'a outcome = Undefined | Blocked | Return 'a

type_synonym 'a fallible = "(int + 'a) option"

definition attempt :: "'s \<Rightarrow> 'a fallible \<Rightarrow> ('a \<Rightarrow> (int \<times> 's) outcome) \<Rightarrow> (int \<times> 's) outcome" where
  "attempt s r f =
     (case r of
        None \<Rightarrow> Undefined
      | Some (Inl e) \<Rightarrow> Return (e, s)
      | Some (Inr x) \<Rightarrow> f x)"

definition bind_fallible :: "'a fallible \<Rightarrow> ('a \<Rightarrow> 'b fallible) \<Rightarrow> 'b fallible" where
  "bind_fallible r f =
     (case r of
        None \<Rightarrow> None
      | Some (Inl e) \<Rightarrow> Some (Inl e)
      | Some (Inr x) \<Rightarrow> f x)"

definition or_invalid :: "'a option \<Rightarrow> 'a fallible" where
  "or_invalid r = Some (case r of None \<Rightarrow> Inl LP2P_ERR_INVALID_ARGUMENT | Some x \<Rightarrow> Inr x)"

definition ensure :: "bool \<Rightarrow> unit fallible" where
  "ensure b = Some (if b then Inr () else Inl LP2P_ERR_INVALID_ARGUMENT)"

fun collect_fallible :: "'a fallible list \<Rightarrow> 'a list fallible" where
  "collect_fallible [] = Some (Inr [])"
| "collect_fallible (r # rs) =
     bind_fallible r (\<lambda>x. bind_fallible (collect_fallible rs) (\<lambda>xs. Some (Inr (x # xs))))"

lemma attempt_simps [simp]:
  "attempt s None f = Undefined" "attempt s (Some (Inl e)) f = Return (e, s)" "attempt s (Some (Inr x)) f = f x"
  by (simp_all add: attempt_def)

lemma bind_fallible_simps [simp]:
  "bind_fallible None g = None" "bind_fallible (Some (Inl e)) g = Some (Inl e)" "bind_fallible (Some (Inr x)) g = g x"
  by (simp_all add: bind_fallible_def)

lemma or_invalid_simps [simp]:
  "or_invalid None = Some (Inl LP2P_ERR_INVALID_ARGUMENT)" "or_invalid (Some x) = Some (Inr x)"
  by (simp_all add: or_invalid_def)

lemma ensure_simps [simp]:
  "ensure True = Some (Inr ())" "ensure False = Some (Inl LP2P_ERR_INVALID_ARGUMENT)"
  by (simp_all add: ensure_def)

section \<open>Reading and writing\<close>

lemma region_0 [simp]: "region p 0 = {}"
  by (simp add: region_def)

lemma region_Suc: "region p (Suc n) = insert p (region (Suc p) n)"
  by (auto simp: region_def)

lemma load_mapped: "load m p n \<noteq> None \<longleftrightarrow> region p n \<subseteq> dom m"
  by (induction m p n rule: load.induct) (auto simp: region_Suc split: option.splits)

lemma load_SomeI: "region p n \<subseteq> dom m \<Longrightarrow> \<exists>bs. load m p n = Some bs \<and> length bs = n"
  by (induction m p n rule: load.induct) (auto simp: region_Suc split: option.splits)

lemma length_load: "load m p n = Some bs \<Longrightarrow> length bs = n"
  by (induction m p n arbitrary: bs rule: load.induct) (auto split: option.splits)

lemma load_cong: "(\<And>a. a \<in> region p n \<Longrightarrow> m a = m' a) \<Longrightarrow> load m p n = load m' p n"
  by (induction m p n rule: load.induct) (auto simp: region_Suc split: option.splits)

lemma load_nth: "load m p n = Some bs \<Longrightarrow> i < n \<Longrightarrow> m (p + i) = Some (bs ! i)"
proof (induction m p n arbitrary: bs i rule: load.induct)
  case (2 m p n)
  then show ?case by (cases i) (auto split: option.splits)
qed simp

lemma store_SomeI: "region p (length bs) \<subseteq> dom m \<Longrightarrow> \<exists>m'. store m p bs = Some m'"
proof (induction bs arbitrary: m p)
  case (Cons b bs)
  then have "region (Suc p) (length bs) \<subseteq> dom (m(p \<mapsto> b))" by (auto simp: region_Suc)
  then obtain m' where "store (m(p \<mapsto> b)) (Suc p) bs = Some m'" using Cons.IH by blast
  moreover have "m p \<noteq> None" using Cons.prems by (auto simp: region_Suc)
  ultimately show ?case by (simp only: store.simps if_False) blast
qed simp

lemma store_ConsD: "store m p (b # bs) = Some m' \<Longrightarrow> m p \<noteq> None \<and> store (m(p \<mapsto> b)) (Suc p) bs = Some m'"
  by (simp split: if_splits)

lemma store_dom: "store m p bs = Some m' \<Longrightarrow> dom m' = dom m"
proof (induction bs arbitrary: m p)
  case (Cons b bs)
  note s = store_ConsD [OF Cons.prems]
  have "dom (m(p \<mapsto> b)) = dom m" using conjunct1 [OF s] by auto
  with Cons.IH [OF conjunct2 [OF s]] show ?case by (rule trans)
qed simp

lemma store_frame: "store m p bs = Some m' \<Longrightarrow> a \<notin> region p (length bs) \<Longrightarrow> m' a = m a"
proof (induction bs arbitrary: m p)
  case (Cons b bs)
  from Cons.IH [OF conjunct2 [OF store_ConsD [OF Cons.prems(1)]]] Cons.prems(2) show ?case
    by (auto simp: region_Suc)
qed simp

lemma load_store: "store m p bs = Some m' \<Longrightarrow> load m' p (length bs) = Some bs"
proof (induction bs arbitrary: m p)
  case (Cons b bs)
  note s = conjunct2 [OF store_ConsD [OF Cons.prems]]
  have "m' p = Some b" using store_frame [OF s, of p] by (simp add: region_def)
  with Cons.IH [OF s] show ?case by simp
qed simp

lemma load_after_store:
  "store m p bs = Some m' \<Longrightarrow> region q n \<inter> region p (length bs) = {} \<Longrightarrow> load m' q n = load m q n"
  by (rule load_cong) (use store_frame in blast)

section \<open>Strings\<close>

lemma cstr_terminates:
  assumes "load m p (Suc (length s)) = Some (s @ [0])" and "0 \<notin> set s"
  shows "cstr m p = Some s"
  using assms
proof (induction s arbitrary: p)
  case Nil
  then show ?case by (subst cstr.simps) (auto split: option.splits)
next
  case (Cons b s)
  then have "m p = Some b" "load m (Suc p) (Suc (length s)) = Some (s @ [0])" by (auto split: option.splits)
  with Cons show ?case by (subst cstr.simps) simp
qed

lemma cstr_sound:
  assumes "cstr m p = Some s"
  shows "load m p (Suc (length s)) = Some (s @ [0]) \<and> 0 \<notin> set s"
  using assms
proof (induction s arbitrary: p)
  case Nil
  with cstr.simps [of m p] have "m p = Some 0"
    by (simp split: option.splits if_splits Option.bind_splits)
  then show ?case by simp
next
  case (Cons b s)
  with cstr.simps [of m p] have "m p = Some b" "b \<noteq> 0" "cstr m (Suc p) = Some s"
    by (simp_all split: option.splits if_splits Option.bind_splits)
  with Cons.IH [of "Suc p"] show ?case by simp
qed

lemma cstr_cong: "cstr m p = Some s \<Longrightarrow> (\<And>a. a \<in> region p (Suc (length s)) \<Longrightarrow> m' a = m a) \<Longrightarrow> cstr m' p = Some s"
  using cstr_sound [of m p s] load_cong [of p "Suc (length s)" m m'] by (intro cstr_terminates) auto

end
