(* ===== verification/Options.thy ===== *)
theory Options
  imports Memory
begin

text \<open>
  The layout of the structs that cross the C boundary by pointer (\<open>src/abi.rs\<close>, \<open>repr(C)\<close> on a 64-bit target), and how
  \<open>lp2p_start\<close> reads a struct whose size the caller states: the bytes the caller knew over this module's defaults.
\<close>

section \<open>Reading and writing fields\<close>

definition rd8 :: "endian \<Rightarrow> nat \<Rightarrow> bytes \<Rightarrow> u8" where
  "rd8 e off bs = word_of_nat (ne_value e (slice off 1 bs))"

definition rd32 :: "endian \<Rightarrow> nat \<Rightarrow> bytes \<Rightarrow> u32" where
  "rd32 e off bs = word_of_nat (ne_value e (slice off 4 bs))"

definition rd64 :: "endian \<Rightarrow> nat \<Rightarrow> bytes \<Rightarrow> u64" where
  "rd64 e off bs = word_of_nat (ne_value e (slice off 8 bs))"

definition rdsize :: "endian \<Rightarrow> nat \<Rightarrow> bytes \<Rightarrow> nat" where
  "rdsize e off bs = ne_value e (slice off 8 bs)"

definition wr8 :: "endian \<Rightarrow> u8 \<Rightarrow> bytes" where "wr8 e x = ne_bytes e 1 (unat x)"
definition wr32 :: "endian \<Rightarrow> u32 \<Rightarrow> bytes" where "wr32 e x = ne_bytes e 4 (unat x)"
definition wr64 :: "endian \<Rightarrow> u64 \<Rightarrow> bytes" where "wr64 e x = ne_bytes e 8 (unat x)"

definition pad :: "nat \<Rightarrow> bytes" where
  "pad n = replicate n 0"

section \<open>Structs\<close>

definition rate_bytes :: "endian \<Rightarrow> lp2p_rate \<Rightarrow> bytes" where
  "rate_bytes e r = wr32 e (amount r) @ wr32 e (interval_ms r) @ wr32 e (burst r)"

definition rate_of_bytes :: "endian \<Rightarrow> nat \<Rightarrow> bytes \<Rightarrow> lp2p_rate" where
  "rate_of_bytes e off bs =
     \<lparr>amount = rd32 e off bs, interval_ms = rd32 e (off + 4) bs, burst = rd32 e (off + 8) bs\<rparr>"

definition relay_bytes :: "endian \<Rightarrow> lp2p_relay_options \<Rightarrow> bytes" where
  "relay_bytes e r =
     wr8 e (ro_server r) @ wr8 e (ro_client r) @ pad 2 @
     wr32 e (ro_max_reservations r) @ wr32 e (ro_max_reservations_per_peer r) @ wr32 e (ro_reservation_duration_s r) @
     wr32 e (ro_max_circuits r) @ wr32 e (ro_max_circuits_per_peer r) @ wr32 e (ro_max_circuit_duration_s r) @ pad 4 @
     wr64 e (ro_max_circuit_bytes r) @ rate_bytes e (ro_circuits_per_peer r) @ rate_bytes e (ro_circuits_per_ip r)"

definition relay_of_bytes :: "endian \<Rightarrow> nat \<Rightarrow> bytes \<Rightarrow> lp2p_relay_options" where
  "relay_of_bytes e off bs = \<lparr>
     ro_server = rd8 e off bs,
     ro_client = rd8 e (off + 1) bs,
     ro_max_reservations = rd32 e (off + 4) bs,
     ro_max_reservations_per_peer = rd32 e (off + 8) bs,
     ro_reservation_duration_s = rd32 e (off + 12) bs,
     ro_max_circuits = rd32 e (off + 16) bs,
     ro_max_circuits_per_peer = rd32 e (off + 20) bs,
     ro_max_circuit_duration_s = rd32 e (off + 24) bs,
     ro_max_circuit_bytes = rd64 e (off + 32) bs,
     ro_circuits_per_peer = rate_of_bytes e (off + 40) bs,
     ro_circuits_per_ip = rate_of_bytes e (off + 52) bs\<rparr>"

definition announce_bytes :: "endian \<Rightarrow> lp2p_announce_options \<Rightarrow> bytes" where
  "announce_bytes e a = wr8 e (ao_enabled a) @ pad 7 @ wr64 e (ao_topic a) @ wr32 e (ao_max_payload_bytes a) @ pad 4"

definition announce_of_bytes :: "endian \<Rightarrow> nat \<Rightarrow> bytes \<Rightarrow> lp2p_announce_options" where
  "announce_of_bytes e off bs = \<lparr>ao_enabled = rd8 e off bs, ao_topic = rd64 e (off + 8) bs,
     ao_max_payload_bytes = rd32 e (off + 16) bs\<rparr>"

definition options_bytes :: "endian \<Rightarrow> lp2p_options \<Rightarrow> bytes" where
  "options_bytes e opt =
     wr32 e (struct_size opt) @ node_seed opt @ pad 4 @
     wr64 e (o_delegation opt) @ ne_bytes e 8 (o_delegation_len opt) @ o_group opt @
     wr64 e (listen_addrs opt) @ ne_bytes e 8 (listen_addr_count opt) @ wr64 e (o_dht_protocol opt) @
     wr64 e (o_rpc_protocols opt) @ ne_bytes e 8 (o_rpc_protocol_count opt) @
     wr32 e (o_rpc_max_request_bytes opt) @ wr32 e (o_rpc_max_response_bytes opt) @ wr32 e (rpc_timeout_ms opt) @
     wr8 e (o_quic opt) @ wr8 e (o_dcutr opt) @ wr8 e (o_autonat opt) @ pad 1 @
     wr32 e (o_max_connections opt) @ wr32 e (o_max_connections_per_peer opt) @ wr32 e (o_max_pending_incoming opt) @ pad 4 @
     relay_bytes e (o_relay opt) @ announce_bytes e (o_announce opt) @ ne_bytes e 8 (o_event_queue_bytes opt) @
     wr8 e (o_reachability opt) @ pad 3 @ wr32 e (o_topic_max_message_bytes opt) @ wr32 e (o_topic_max_subscriptions opt) @ pad 4"

definition options_of_bytes :: "endian \<Rightarrow> bytes \<Rightarrow> lp2p_options" where
  "options_of_bytes e bs = \<lparr>
     struct_size = rd32 e 0 bs,
     node_seed = slice 4 32 bs,
     o_delegation = rd64 e 40 bs,
     o_delegation_len = rdsize e 48 bs,
     o_group = slice 56 32 bs,
     listen_addrs = rd64 e 88 bs,
     listen_addr_count = rdsize e 96 bs,
     o_dht_protocol = rd64 e 104 bs,
     o_rpc_protocols = rd64 e 112 bs,
     o_rpc_protocol_count = rdsize e 120 bs,
     o_rpc_max_request_bytes = rd32 e 128 bs,
     o_rpc_max_response_bytes = rd32 e 132 bs,
     rpc_timeout_ms = rd32 e 136 bs,
     o_quic = rd8 e 140 bs,
     o_dcutr = rd8 e 141 bs,
     o_autonat = rd8 e 142 bs,
     o_max_connections = rd32 e 144 bs,
     o_max_connections_per_peer = rd32 e 148 bs,
     o_max_pending_incoming = rd32 e 152 bs,
     o_relay = relay_of_bytes e 160 bs,
     o_announce = announce_of_bytes e 224 bs,
     o_event_queue_bytes = rdsize e 248 bs,
     o_reachability = rd8 e 256 bs,
     o_topic_max_message_bytes = rd32 e 260 bs,
     o_topic_max_subscriptions = rd32 e 264 bs\<rparr>"

definition stats_bytes :: "endian \<Rightarrow> lp2p_stats \<Rightarrow> bytes" where
  "stats_bytes e st =
     wr32 e (st_size st) @ wr32 e (st_connections st) @ wr32 e (st_routing_table_peers st) @
     wr32 e (st_topics_subscribed st) @ wr64 e (st_rpc_in st) @ wr64 e (st_rpc_out st) @ wr64 e (st_rpc_limited st) @
     wr64 e (st_events_dropped st) @ wr64 e (st_topic_in st) @ wr64 e (st_topic_out st) @ wr64 e (st_topic_bytes_in st) @
     wr64 e (st_topic_bytes_out st) @ wr64 e (st_topic_limited st)"

text \<open>\<open>lp2p_start\<close>: the first \<open>known\<close> bytes are the caller's, the others this module's default.\<close>

definition options_from :: "endian \<Rightarrow> bytes \<Rightarrow> lp2p_options" where
  "options_from e given = options_of_bytes e (given @ drop (length given) (options_bytes e default_options))"

section \<open>Layout facts\<close>

definition options_wf :: "lp2p_options \<Rightarrow> bool" where
  "options_wf opt \<longleftrightarrow> length (node_seed opt) = 32 \<and> length (o_group opt) = 32 \<and> o_delegation_len opt < 2 ^ 64 \<and>
     listen_addr_count opt < 2 ^ 64 \<and> o_rpc_protocol_count opt < 2 ^ 64 \<and> o_event_queue_bytes opt < 2 ^ 64"

lemma length_wr [simp, layout_simps]:
  "length (wr8 e a) = 1" "length (wr32 e b) = 4" "length (wr64 e c) = 8" "length (pad n) = n"
  by (simp_all add: wr8_def wr32_def wr64_def pad_def)

lemma length_structs [simp, layout_simps]:
  "length (rate_bytes e r) = 12" "length (relay_bytes e ro) = 64" "length (announce_bytes e ao) = 24"
  "length (stats_bytes e st) = 88"
  by (simp_all add: rate_bytes_def relay_bytes_def announce_bytes_def stats_bytes_def)

lemma length_options_bytes [simp]: "options_wf opt \<Longrightarrow> length (options_bytes e opt) = 272"
  by (simp add: options_bytes_def options_wf_def)

lemma ne_value_size [simp]: "x < 2 ^ 64 \<Longrightarrow> ne_value e (ne_bytes e 8 x) = x"
  by (simp add: ne_value_ne_bytes)

lemma rd_wr [simp]:
  "(word_of_nat (ne_value e (wr8 e a)) :: u8) = a" "(word_of_nat (ne_value e (wr32 e b)) :: u32) = b"
  "(word_of_nat (ne_value e (wr64 e c)) :: u64) = c"
  using unsigned_less [of a, where ?'a = nat] unsigned_less [of b, where ?'a = nat] unsigned_less [of c, where ?'a = nat]
  by (simp_all add: wr8_def wr32_def wr64_def ne_value_ne_bytes)

section \<open>Round trip\<close>

lemmas rd_defs = rd8_def rd32_def rd64_def rdsize_def

lemma options_read_back: "options_wf opt \<Longrightarrow> options_of_bytes e (options_bytes e opt) = opt"
  by (simp add: options_wf_def options_of_bytes_def options_bytes_def relay_of_bytes_def relay_bytes_def
      announce_of_bytes_def announce_bytes_def rate_of_bytes_def rate_bytes_def rd_defs layout_simps)

section \<open>Versions of the struct\<close>

text \<open>Offset and size of every field of \<open>lp2p_options\<close>; what is left over is padding.\<close>

definition options_layout :: "(nat \<times> nat) list" where
  "options_layout = [(0, 4), (4, 32), (40, 8), (48, 8), (56, 32), (88, 8), (96, 8), (104, 8), (112, 8), (120, 8),
     (128, 4), (132, 4), (136, 4), (140, 1), (141, 1), (142, 1), (144, 4), (148, 4), (152, 4),
     (160, 1), (161, 1), (164, 4), (168, 4), (172, 4), (176, 4), (180, 4), (184, 4), (192, 8),
     (200, 4), (204, 4), (208, 4), (212, 4), (216, 4), (220, 4), (224, 1), (232, 8), (240, 4), (248, 8),
     (256, 1), (260, 4), (264, 4)]"

lemma ne_bytes_ne_value: "length bs = n \<Longrightarrow> ne_bytes e n (ne_value e bs) = bs"
  using le_bytes_le_value [of bs] be_bytes_be_value [of bs]
  by (auto simp: ne_bytes_def ne_value_def split: endian.split)

lemma ne_value_bound: "ne_value e bs < 256 ^ length bs"
  using le_value_bound [of bs] be_value_bound [of bs] by (simp add: ne_value_def split: endian.split)

lemma wr_bytes:
  "length as = 1 \<Longrightarrow> wr8 e (word_of_nat (ne_value e as)) = as"
  "length bs = 4 \<Longrightarrow> wr32 e (word_of_nat (ne_value e bs)) = bs"
  "length cs = 8 \<Longrightarrow> wr64 e (word_of_nat (ne_value e cs)) = cs"
  using ne_value_bound [of e as] ne_value_bound [of e bs] ne_value_bound [of e cs]
  by (auto simp: wr8_def wr32_def wr64_def ne_bytes_ne_value unat_of_nat take_bit_eq_mod)

lemma wr_rd:
  "off + 1 \<le> length bs \<Longrightarrow> wr8 e (rd8 e off bs) = slice off 1 bs"
  "off + 4 \<le> length bs \<Longrightarrow> wr32 e (rd32 e off bs) = slice off 4 bs"
  "off + 8 \<le> length bs \<Longrightarrow> wr64 e (rd64 e off bs) = slice off 8 bs"
  "off + 8 \<le> length bs \<Longrightarrow> ne_bytes e 8 (rdsize e off bs) = slice off 8 bs"
  unfolding rd_defs by (rule wr_bytes ne_bytes_ne_value; simp)+

lemma fields_of_bytes:
  assumes "length bs = 272"
  shows "list_all (\<lambda>(off, n). slice off n (options_bytes e (options_of_bytes e bs)) = slice off n bs) options_layout"
  by (simp add: options_layout_def options_of_bytes_def options_bytes_def relay_of_bytes_def relay_bytes_def
      announce_of_bytes_def announce_bytes_def rate_of_bytes_def rate_bytes_def wr_rd assms layout_simps)

lemma default_options_wf: "options_wf default_options"
  by (simp add: options_wf_def default_options_def)

lemma slice_overlay:
  "length given \<le> off \<Longrightarrow> slice off n (given @ drop (length given) dflt) = slice off n dflt"
  by (simp add: slice_append_right) (simp add: slice_def)

text \<open>
  C38: Options of an older caller. Whatever prefix of the struct a caller knows, every field inside it is read as the
  caller wrote it and every field behind it has this module's default; a caller who knows the whole struct gets exactly
  the options it wrote.
\<close>

theorem options_by_version:
  assumes "length given \<le> 272"
  shows "(\<forall>(off, n) \<in> set options_layout.
      (off + n \<le> length given \<longrightarrow>
         slice off n (options_bytes e (options_from e given)) = slice off n given) \<and>
      (length given \<le> off \<longrightarrow>
         slice off n (options_bytes e (options_from e given)) = slice off n (options_bytes e default_options))) \<and>
    (options_wf opt \<longrightarrow> options_from e (options_bytes e opt) = opt)"
proof -
  let ?bs = "given @ drop (length given) (options_bytes e default_options)"
  have len: "length (options_bytes e default_options) = 272"
    by (rule length_options_bytes [OF default_options_wf])
  have "slice off n (options_bytes e (options_from e given)) = slice off n ?bs" if "(off, n) \<in> set options_layout" for off n
    using fields_of_bytes [of ?bs e] len assms that by (auto simp: options_from_def list_all_iff)
  moreover have "options_from e (options_bytes e opt) = opt" if "options_wf opt"
    using that len by (simp add: options_from_def options_read_back)
  ultimately show ?thesis
    by (auto simp: slice_append_left slice_overlay)
qed

text \<open>A caller whose struct ends before \<open>reachability\<close>.\<close>

theorem options_by_version_witness:
  "slice 264 4 (options_bytes Little (options_from Little (replicate 256 7))) = slice 264 4 (options_bytes Little default_options) \<and>
   slice 128 4 (options_bytes Little (options_from Little (replicate 256 7))) = replicate 4 7"
proof -
  have "(264, 4) \<in> set options_layout" "(128, 4) \<in> set options_layout" by (simp_all add: options_layout_def)
  with conjunct1 [OF options_by_version [of "replicate 256 7" Little]]
  have "slice 264 4 (options_bytes Little (options_from Little (replicate 256 7))) = slice 264 4 (options_bytes Little default_options)"
    and "slice 128 4 (options_bytes Little (options_from Little (replicate 256 7))) = slice 128 4 (replicate 256 7)"
    by fastforce+
  then show ?thesis by (simp add: slice_def)
qed

end
