(* ===== verification/FfiConfig.thy ===== *)
theory FfiConfig
  imports Options Net
begin

text \<open>
  The first part of \<open>src/ffi.rs\<close>: what turns pointers into values, and \<open>config_from\<close>, which checks the options and builds the
  configuration of a node. Parsing multiaddrs and stream protocols is libp2p's; both are arguments.
\<close>

section \<open>Pointers to values\<close>

record libs =
  parse_multiaddr :: "bytes \<Rightarrow> multiaddr option"
  stream_protocol_ok :: "bytes \<Rightarrow> bool"

definition ffi_string :: "mem \<Rightarrow> ptr \<Rightarrow> bytes fallible" where
  "ffi_string m p =
     (if p = 0 then Some (Inl LP2P_ERR_INVALID_ARGUMENT)
      else case cstr m p of
          None \<Rightarrow> None
        | Some s \<Rightarrow> Some (if utf8_valid s then Inr s else Inl LP2P_ERR_INVALID_ARGUMENT))"

definition ptrs_of :: "endian \<Rightarrow> nat \<Rightarrow> bytes \<Rightarrow> ptr list" where
  "ptrs_of e count bs = map (\<lambda>i. rdsize e (8 * i) bs) [0..<count]"

definition ffi_strings :: "endian \<Rightarrow> mem \<Rightarrow> ptr \<Rightarrow> nat \<Rightarrow> bytes list fallible" where
  "ffi_strings e m p count =
     (if count = 0 then Some (Inr [])
      else if p = 0 then Some (Inl LP2P_ERR_INVALID_ARGUMENT)
      else case (if aligned 8 p then load m p (8 * count) else None) of
          None \<Rightarrow> None
        | Some bs \<Rightarrow> collect_fallible (map (ffi_string m) (ptrs_of e count bs)))"

definition ffi_bytes :: "mem \<Rightarrow> ptr \<Rightarrow> nat \<Rightarrow> bytes fallible" where
  "ffi_bytes m p len =
     (if len = 0 then Some (Inr [])
      else if p = 0 then Some (Inl LP2P_ERR_INVALID_ARGUMENT)
      else map_option Inr (load m p len))"

definition ffi_key :: "mem \<Rightarrow> ptr \<Rightarrow> lp2p_key fallible" where
  "ffi_key m p =
     (if p = 0 then Some (Inl LP2P_ERR_INVALID_ARGUMENT)
      else map_option Inr (load m p 32))"

section \<open>The configuration\<close>

definition limit :: "u32 \<Rightarrow> u32 option" where
  "limit value = (if value \<noteq> 0 then Some value else None)"

definition token_bucket :: "lp2p_rate \<Rightarrow> token_bucket_config option" where
  "token_bucket rate =
     (if burst rate = 0 then None
      else if amount rate = 0 \<or> interval_ms rate = 0 then None
      else Some \<lparr>tb_burst = burst rate,
             tb_interval = from_millis (unat (max (interval_ms rate div amount rate) 1))\<rparr>)"

definition announce_from :: "mem \<Rightarrow> bytes \<Rightarrow> lp2p_announce_options \<Rightarrow> announce_config option fallible" where
  "announce_from m dht ao =
     (if ao_enabled ao = 0 then Some (Inr None)
      else
        bind_fallible
          (if ao_topic ao = 0 then Some (Inr (dht @ ascii ''/announce''))
           else ffi_string m (unat (ao_topic ao)))
          (\<lambda>topic.
             if topic = [] then Some (Inl LP2P_ERR_INVALID_ARGUMENT)
             else Some (Inr (Some \<lparr>ac_topic = topic, ac_max_payload_bytes = unat (ao_max_payload_bytes ao)\<rparr>))))"

definition reach_of :: "u8 \<Rightarrow> reachability option" where
  "reach_of r =
     (if r = LP2P_REACH_PRIVATE then Some Private
      else if r = LP2P_REACH_PUBLIC then Some Public
      else if r = LP2P_REACH_UNKNOWN then Some Unknown else None)"

definition relay_from :: "lp2p_relay_options \<Rightarrow> relay_config" where
  "relay_from r = \<lparr>
     rc_server = (ro_server r \<noteq> 0),
     rc_client = (ro_client r \<noteq> 0),
     rc_max_reservations = unat (ro_max_reservations r),
     rc_max_reservations_per_peer = unat (ro_max_reservations_per_peer r),
     rc_reservation_duration = from_secs (unat (ro_reservation_duration_s r)),
     rc_max_circuits = unat (ro_max_circuits r),
     rc_max_circuits_per_peer = unat (ro_max_circuits_per_peer r),
     rc_max_circuit_duration = from_secs (unat (ro_max_circuit_duration_s r)),
     rc_max_circuit_bytes = ro_max_circuit_bytes r,
     rc_circuits_per_peer = token_bucket (ro_circuits_per_peer r),
     rc_circuits_per_ip = token_bucket (ro_circuits_per_ip r)\<rparr>"

definition config_of ::
  "lp2p_options \<Rightarrow> delegation \<Rightarrow> multiaddr list \<Rightarrow> bytes \<Rightarrow> bytes list \<Rightarrow> announce_config option \<Rightarrow> reachability \<Rightarrow> config" where
  "config_of opt deleg listen dht protocols ann reach = \<lparr>
     c_node_seed = node_seed opt,
     c_delegation = deleg,
     c_listen = listen,
     c_dht_protocol = dht,
     c_rpc_protocols = protocols,
     c_rpc_max_request_bytes = o_rpc_max_request_bytes opt,
     c_rpc_max_response_bytes = o_rpc_max_response_bytes opt,
     c_rpc_timeout = from_millis (unat (rpc_timeout_ms opt)),
     c_quic = (o_quic opt \<noteq> 0),
     c_dcutr = (o_dcutr opt \<noteq> 0),
     c_autonat = (o_autonat opt \<noteq> 0),
     c_reachability = reach,
     c_relay = relay_from (o_relay opt),
     c_max_connections = limit (o_max_connections opt),
     c_max_connections_per_peer = limit (o_max_connections_per_peer opt),
     c_max_pending_incoming = limit (o_max_pending_incoming opt),
     c_announce = ann,
     c_event_queue_bytes = max (o_event_queue_bytes opt) (unat (o_rpc_max_response_bytes opt) + 4096),
     c_topic_max_message_bytes = unat (o_topic_max_message_bytes opt),
     c_topic_max_subscriptions = unat (o_topic_max_subscriptions opt)\<rparr>"

definition parse_ok_or_invalid :: "bytes \<Rightarrow> delegation fallible" where
  "parse_ok_or_invalid bs = or_invalid (parse_ok bs)"

definition config_from :: "endian \<Rightarrow> libs \<Rightarrow> mem \<Rightarrow> lp2p_options \<Rightarrow> config fallible" where
  "config_from e lb m opt =
     bind_fallible (ffi_bytes m (unat (o_delegation opt)) (o_delegation_len opt)) (\<lambda>bs.
     bind_fallible (parse_ok_or_invalid bs) (\<lambda>deleg.
     bind_fallible (ensure (d_group deleg = o_group opt)) (\<lambda>_.
     bind_fallible (ffi_strings e m (unat (listen_addrs opt)) (listen_addr_count opt)) (\<lambda>addrs.
     bind_fallible (collect_fallible (map (\<lambda>s. or_invalid (parse_multiaddr lb s)) addrs)) (\<lambda>listen.
     bind_fallible (ffi_string m (unat (o_dht_protocol opt))) (\<lambda>dht.
     bind_fallible (ensure (stream_protocol_ok lb dht)) (\<lambda>_.
     bind_fallible (ffi_strings e m (unat (o_rpc_protocols opt)) (o_rpc_protocol_count opt)) (\<lambda>protocols.
     bind_fallible (announce_from m dht (o_announce opt)) (\<lambda>ann.
     bind_fallible (ensure (length protocols \<le> 65535 \<and> (\<forall>p \<in> set protocols. p \<noteq> [] \<and> length p \<le> 255))) (\<lambda>_.
     bind_fallible (ensure (o_rpc_max_request_bytes opt \<noteq> 0 \<and> o_rpc_max_response_bytes opt \<noteq> 0 \<and>
       rpc_timeout_ms opt \<noteq> 0)) (\<lambda>_.
     bind_fallible (or_invalid (reach_of (o_reachability opt))) (\<lambda>reach.
       Some (Inr (config_of opt deleg listen dht protocols ann reach))))))))))))))"

end
