(* ===== verification/Serve.thy ===== *)
theory Serve
  imports Api
begin

text \<open>
  The node's thread as a function of its schedule: which branch of \<open>select!\<close> is taken when. Callers that wait for the
  thread, for a reply or for its end, are functions of the same schedule.
\<close>

section \<open>Turns of the thread\<close>

definition node_end :: "'sw run_result \<Rightarrow> 'sw node \<Rightarrow> 'sw node" where
  "node_end r a = a\<lparr>n_world := run_thread_end r, n_receiver_gone := True\<rparr>"

definition node_event :: "'sw net \<Rightarrow> input \<Rightarrow> 'sw world \<Rightarrow> 'sw node \<Rightarrow> 'sw node" where
  "node_event n inp w a =
     (case run_turn n inp w of
        Running w' \<Rightarrow> a\<lparr>n_world := w'\<rparr>
      | r \<Rightarrow> node_end r a)"

text \<open>A receive waits while the channel is empty. The first component is what the command answered.\<close>

definition node_turn :: "'sw net \<Rightarrow> 'sw turn \<Rightarrow> 'sw node \<Rightarrow> reply option \<times> 'sw node" where
  "node_turn n t a =
     (if n_receiver_gone a then (None, a)
      else
        let w = arrive (fst t) (n_world a)
        in case snd t of
             Receive _ \<Rightarrow>
               (case n_commands a of
                  [] \<Rightarrow> (None, a)
                | c # rest \<Rightarrow>
                    (if c = Shutdown then None else map_option fst (command n c w),
                     node_event n (Receive (Some c)) w (a\<lparr>n_commands := rest\<rparr>)))
           | inp \<Rightarrow> (None, node_event n inp w a))"

definition node_turns :: "'sw net \<Rightarrow> 'sw turn list \<Rightarrow> 'sw node \<Rightarrow> 'sw node" where
  "node_turns n ts a = fold (\<lambda>t b. snd (node_turn n t b)) ts a"

text \<open>\<open>recv_timeout\<close> on the reply channel of the command that has \<open>k\<close> others before it: the turns within the timeout.\<close>

fun await_reply :: "'sw net \<Rightarrow> 'sw turn list \<Rightarrow> nat \<Rightarrow> 'sw node \<Rightarrow> reply option \<times> 'sw node" where
  "await_reply n [] k a = (None, a)"
| "await_reply n (t # ts) k a =
     (case node_turn n t a of
        (None, b) \<Rightarrow> await_reply n ts k b
      | (Some r, b) \<Rightarrow> if k = 0 then (Some r, b) else await_reply n ts (k - 1) b)"

text \<open>\<open>Drop for Node\<close>: a last command, whether or not anybody still receives it, and a join; \<open>None\<close> while the thread runs.\<close>

definition node_drop :: "'sw net \<Rightarrow> 'sw turn list \<Rightarrow> 'sw node \<Rightarrow> 'sw node option" where
  "node_drop n ts a =
     (let a = (if n_receiver_gone a then a else a\<lparr>n_commands := n_commands a @ [Shutdown]\<rparr>);
          b = node_turns n ts a
      in if n_receiver_gone b then Some b else None)"

section \<open>Schedules and reachable states\<close>

fun turns_ok ::
  "'sw net \<Rightarrow> ('sw \<Rightarrow> request_id set) \<Rightarrow> ('sw \<Rightarrow> query_id set) \<Rightarrow> 'sw turn list \<Rightarrow> 'sw node \<Rightarrow> bool" where
  "turns_ok n iss isq [] a \<longleftrightarrow> True"
| "turns_ok n iss isq (t # ts) a \<longleftrightarrow>
     ids_left a \<and> grows iss isq (fst t) \<and> turns_ok n iss isq ts (snd (node_turn n t a))"

lemma node_turns_simps [simp]:
  "node_turns n [] a = a" "node_turns n (t # ts) a = node_turns n ts (snd (node_turn n t a))"
  by (simp_all add: node_turns_def)

lemma node_turn_gone [simp]: "n_receiver_gone a \<Longrightarrow> node_turn n t a = (None, a)"
  by (simp add: node_turn_def)

lemma node_turns_gone [simp]: "n_receiver_gone a \<Longrightarrow> node_turns n ts a = a"
  by (induction ts) simp_all

lemma node_event_turn:
  assumes "\<not> n_receiver_gone a" and "\<forall>c. inp \<noteq> Receive c"
  shows "loop_turn n m a (node_event n inp (arrive m (n_world a)) a)"
proof -
  have "inp = Tick \<or> (\<exists>ev. inp = Swarm ev)" using assms(2) by (cases inp) auto
  then obtain w where w: "run_turn n inp (arrive m (n_world a)) = Running w" by auto
  have "loop_turn n m a (a\<lparr>n_world := w\<rparr>)" by (rule event [OF w assms(2,1)])
  with w show ?thesis by (simp add: node_event_def)
qed

lemma node_receive_turn:
  assumes "reachable n iss isq a ids" and "\<not> n_receiver_gone a" and "n_commands a = c # rest"
  shows "loop_turn n m a (node_event n (Receive (Some c)) (arrive m (n_world a)) (a\<lparr>n_commands := rest\<rparr>))"
proof (cases "c = Shutdown")
  case True
  with stop [of a rest n m] assms(2,3)
  have "loop_turn n m a (a\<lparr>n_world := shut_events LP2P_ERR_SHUT_DOWN (arrive m (n_world a)),
      n_commands := rest, n_receiver_gone := True\<rparr>)" by simp
  with True show ?thesis by (cases a) (simp add: node_event_def node_end_def run_thread_end_def)
next
  case False
  have "run_turn n (Receive (Some c)) (arrive m (n_world a)) \<noteq> Panicked w" for w
    using life_ok_reachable [OF assms(1)] by (rule no_panic) (simp add: assms(3))
  with False obtain w where w: "run_turn n (Receive (Some c)) (arrive m (n_world a)) = Running w"
    by (cases "command n c (arrive m (n_world a))") auto
  from receive [OF assms(3) w assms(2)] w show ?thesis
    by (cases a) (simp add: node_event_def)
qed

text \<open>A turn of the schedule either does nothing or is a turn of the loop.\<close>

lemma node_turn_loop:
  assumes "reachable n iss isq a ids"
  shows "snd (node_turn n t a) = a \<or> loop_turn n (fst t) a (snd (node_turn n t a))"
proof (cases "n_receiver_gone a")
  case False
  with node_event_turn [OF False] node_receive_turn [OF assms False] show ?thesis
    by (auto simp: node_turn_def Let_def split: input.split list.split)
qed simp

lemma node_turn_reachable:
  "reachable n iss isq a ids \<Longrightarrow> ids_left a \<Longrightarrow> grows iss isq (fst t) \<Longrightarrow> reachable n iss isq (snd (node_turn n t a)) ids"
  using node_turn_loop [of n iss isq a ids t] by (auto intro: turn)

lemma node_turns_reachable:
  "reachable n iss isq a ids \<Longrightarrow> turns_ok n iss isq ts a \<Longrightarrow> reachable n iss isq (node_turns n ts a) ids"
  by (induction ts arbitrary: a) (auto intro: node_turn_reachable)

lemma await_reply_reachable:
  "reachable n iss isq a ids \<Longrightarrow> turns_ok n iss isq ts a \<Longrightarrow>
   reachable n iss isq (snd (await_reply n ts k a)) ids"
proof (induction ts arbitrary: k a)
  case (Cons t ts)
  have "reachable n iss isq (snd (node_turn n t a)) ids" and ok: "turns_ok n iss isq ts (snd (node_turn n t a))"
    using Cons.prems by (auto intro: node_turn_reachable)
  with Cons.IH [OF this] show ?case by (cases "node_turn n t a") (simp split: option.split)
qed simp

section \<open>Waiting for the thread\<close>

definition receives :: "'sw turn list \<Rightarrow> nat" where
  "receives ts = length (filter (\<lambda>t. case snd t of Receive _ \<Rightarrow> True | _ \<Rightarrow> False) ts)"

lemma receives_simps [simp]:
  "receives [] = 0"
  "receives (t # ts) = (case snd t of Receive _ \<Rightarrow> Suc (receives ts) | _ \<Rightarrow> receives ts)"
  by (simp_all add: receives_def split: input.split)

lemma node_event_commands [simp]: "n_commands (node_event n inp w a) = n_commands a"
  by (simp add: node_event_def node_end_def split: run_result.split)

text \<open>The thread ends once it has received as often as there were commands.\<close>

lemma node_turns_shutdown:
  "n_commands a = cs @ Shutdown # rest \<Longrightarrow> length cs < receives ts \<Longrightarrow> n_receiver_gone (node_turns n ts a)"
proof (induction ts arbitrary: a cs)
  case (Cons t ts)
  show ?case
  proof (cases "n_receiver_gone a")
    case live: False
    show ?thesis
    proof (cases "\<exists>c. snd t = Receive c")
      case True
      then obtain r where t: "snd t = Receive r" by blast
      show ?thesis
      proof (cases cs)
        case Nil
        with t live Cons.prems(1) show ?thesis
          by (simp add: node_turn_def Let_def node_event_def node_end_def)
      next
        case (Cons c cs')
        with t live Cons.prems have "n_commands (snd (node_turn n t a)) = cs' @ Shutdown # rest"
          "length cs' < receives ts" by (simp_all add: node_turn_def Let_def)
        with Cons.IH show ?thesis by simp
      qed
    next
      case False
      with live Cons.prems have "n_commands (snd (node_turn n t a)) = cs @ Shutdown # rest" "length cs < receives ts"
        by (cases "snd t"; simp add: node_turn_def Let_def)+
      with Cons.IH show ?thesis by simp
    qed
  qed simp
qed simp

lemma node_drop_returns: "length (n_commands a) < receives ts \<Longrightarrow> node_drop n ts a \<noteq> None"
  using node_turns_shutdown [of "a\<lparr>n_commands := n_commands a @ [Shutdown]\<rparr>" "n_commands a" "[]" ts n]
  by (simp add: node_drop_def Let_def)

end
