(* ===== verification/Ffi.thy ===== *)
theory Ffi
  imports FfiConfig Serve Reader
begin

text \<open>
  The \<open>extern "C"\<close> functions of \<open>src/ffi.rs\<close> over the caller's memory and the live handles. None of them panics on its own, so
  \<open>guard\<close>, which turns a panic into a status, is the identity here. Where a function waits for the event loop, the turns
  the loop takes in the meantime are an argument.
\<close>

section \<open>Handles\<close>

record 'sw lp2p =
  l_node :: "'sw node"
  l_rpc_protocol_count :: nat
  l_rpc_max_request_bytes :: u32
  l_rpc_timeout :: duration
  l_announce_max_payload_bytes :: "nat option"
  l_topic_max_message_bytes :: nat
  l_topic_max_subscriptions :: nat

record 'sw ffi =
  f_mem :: mem
  f_handles :: "ptr \<Rightarrow> 'sw lp2p option"

type_synonym 'sw result = "(int \<times> 'sw ffi) outcome"

definition handle :: "'sw ffi \<Rightarrow> ptr \<Rightarrow> 'sw lp2p fallible" where
  "handle s p =
     (if p = 0 then Some (Inl LP2P_ERR_INVALID_ARGUMENT)
      else map_option Inr (f_handles s p))"

definition set_node :: "ptr \<Rightarrow> 'sw lp2p \<Rightarrow> 'sw node \<Rightarrow> 'sw ffi \<Rightarrow> 'sw ffi" where
  "set_node p h a s = s\<lparr>f_handles := (f_handles s)(p \<mapsto> h\<lparr>l_node := a\<rparr>)\<rparr>"

definition send_to :: "ptr \<Rightarrow> 'sw lp2p \<Rightarrow> command \<Rightarrow> 'sw ffi \<Rightarrow> int \<times> 'sw ffi" where
  "send_to p h c s = (case send c (l_node h) of (st, a) \<Rightarrow> (st, set_node p h a s))"

text \<open>A write through an out pointer, then the status: \<open>write_unaligned\<close> or a copy of bytes, and \<open>write\<close>, which needs alignment.\<close>

definition write_out :: "ptr \<Rightarrow> bytes \<Rightarrow> int \<times> 'sw ffi \<Rightarrow> 'sw result" where
  "write_out p bs r =
     (case store (f_mem (snd r)) p bs of
        None \<Rightarrow> Undefined
      | Some m \<Rightarrow> Return (fst r, (snd r)\<lparr>f_mem := m\<rparr>))"

definition write_typed :: "ptr \<Rightarrow> bytes \<Rightarrow> int \<times> 'sw ffi \<Rightarrow> 'sw result" where
  "write_typed p bs r = (if aligned 8 p then write_out p bs r else Undefined)"

definition write_opt :: "ptr \<Rightarrow> bytes \<Rightarrow> int \<times> 'sw ffi \<Rightarrow> 'sw result" where
  "write_opt p bs r = (if p = 0 then Return r else write_out p bs r)"

section \<open>Start and end\<close>

definition lp2p_abi_version :: u32 where
  "lp2p_abi_version = LP2P_ABI_VERSION"

definition lp2p_options_default :: "endian \<Rightarrow> ptr \<Rightarrow> 'sw ffi \<Rightarrow> 'sw result" where
  "lp2p_options_default e opt s =
     (if opt \<noteq> 0 then write_typed opt (options_bytes e default_options) (LP2P_OK, s) else Return (LP2P_OK, s))"

definition lp2p_of :: "config \<Rightarrow> 'sw world \<Rightarrow> 'sw lp2p" where
  "lp2p_of config w = \<lparr>
     l_node = \<lparr>n_world = w, n_commands = [], n_receiver_gone = False\<rparr>,
     l_rpc_protocol_count = length (c_rpc_protocols config),
     l_rpc_max_request_bytes = c_rpc_max_request_bytes config,
     l_rpc_timeout = c_rpc_timeout config,
     l_announce_max_payload_bytes = map_option ac_max_payload_bytes (c_announce config),
     l_topic_max_message_bytes = c_topic_max_message_bytes config,
     l_topic_max_subscriptions = c_topic_max_subscriptions config\<rparr>"

text \<open>
  \<open>box\<close> is the address the allocator returns for the handle; \<open>ms\<close>, \<open>built\<close> and \<open>evs\<close> are the clock, the swarm and the events of
  \<open>Node::start\<close>.
\<close>

definition lp2p_start ::
  "'sw net \<Rightarrow> libs \<Rightarrow> ptr \<Rightarrow> ptr \<Rightarrow> ptr \<Rightarrow> u64 \<Rightarrow> (config \<Rightarrow> int + 'sw) \<Rightarrow> ('sw meantime \<times> swarm_ev) list \<Rightarrow> 'sw ffi \<Rightarrow> 'sw result"
  where
  "lp2p_start n lb opt out box ms built evs s =
     (if opt = 0 \<or> out = 0 then Return (LP2P_ERR_INVALID_ARGUMENT, s)
      else case load (f_mem s) opt 4 of
          None \<Rightarrow> Undefined
        | Some sz \<Rightarrow>
            let size = unat (rd32 (n_endian n) 0 sz)
            in if size < 4 then Return (LP2P_ERR_INVALID_ARGUMENT, s)
               else case load (f_mem s) opt (min size LP2P_OPTIONS_SIZE) of
                   None \<Rightarrow> Undefined
                 | Some given \<Rightarrow>
                     attempt s (config_from (n_endian n) lb (f_mem s) (options_from (n_endian n) given)) (\<lambda>config.
                       case start n config ms (built config) evs of
                         Inl e \<Rightarrow> Return (e, s)
                       | Inr w \<Rightarrow> write_typed out (ne_bytes (n_endian n) 8 box)
                           (LP2P_OK, s\<lparr>f_handles := (f_handles s)(box \<mapsto> lp2p_of config w)\<rparr>)))"

text \<open>\<open>drop\<close> joins the thread: the call blocks while the loop has not stopped.\<close>

definition lp2p_shutdown :: "'sw net \<Rightarrow> 'sw turn list \<Rightarrow> ptr \<Rightarrow> 'sw ffi \<Rightarrow> 'sw result" where
  "lp2p_shutdown n turns node s =
     (if node = 0 then Return (LP2P_ERR_INVALID_ARGUMENT, s)
      else case f_handles s node of
          None \<Rightarrow> Undefined
        | Some h \<Rightarrow>
            (case node_drop n turns (l_node h) of
               None \<Rightarrow> Blocked
             | Some _ \<Rightarrow> Return (LP2P_OK, s\<lparr>f_handles := (f_handles s)(node := None)\<rparr>)))"

section \<open>Events\<close>

text \<open>\<open>from_raw_parts_mut\<close>: the whole buffer has to be mapped. \<open>sched\<close> is what other threads do to the queue while this one waits.\<close>

definition lp2p_poll ::
  "endian \<Rightarrow> ptr \<Rightarrow> ptr \<Rightarrow> nat \<Rightarrow> int \<Rightarrow> instant \<Rightarrow> (instant \<times> queue_op list) list \<Rightarrow> 'sw ffi \<Rightarrow> 'sw result" where
  "lp2p_poll e node buf cap timeout_ms now sched s =
     attempt s (handle s node) (\<lambda>h.
     attempt s (ensure (\<not> ((buf = 0 \<and> cap > 0) \<or> timeout_ms < 0))) (\<lambda>_.
       case load (f_mem s) buf cap of
         None \<Rightarrow> Undefined
       | Some buffer \<Rightarrow>
           (case poll e buffer (from_millis (nat timeout_ms)) now sched (node_queue (l_node h)) of
              Waiting _ \<Rightarrow> Blocked
            | Returned st buffer' q \<Rightarrow> write_out buf buffer' (st, set_node node h (set_queue q (l_node h)) s))))"

section \<open>Calls\<close>

definition target_of :: "mem \<Rightarrow> ptr \<Rightarrow> lp2p_key option fallible" where
  "target_of m p =
     (if p = 0 then Some (Inr None) else bind_fallible (ffi_key m p) (\<lambda>k. Some (Inr (Some k))))"

definition lp2p_rpc_request ::
  "'sw net \<Rightarrow> ptr \<Rightarrow> ptr \<Rightarrow> ptr \<Rightarrow> u16 \<Rightarrow> ptr \<Rightarrow> nat \<Rightarrow> u32 \<Rightarrow> ptr \<Rightarrow> 'sw ffi \<Rightarrow> 'sw result" where
  "lp2p_rpc_request n node grp node_key protocol dat len timeout_ms request_id s =
     attempt s (handle s node) (\<lambda>h.
     attempt s (ffi_key (f_mem s) grp) (\<lambda>grp_key.
     attempt s (target_of (f_mem s) node_key) (\<lambda>target.
     attempt s (ffi_bytes (f_mem s) dat len) (\<lambda>payload.
     attempt s (ensure (\<not> (request_id = 0 \<or> unat protocol \<ge> l_rpc_protocol_count h \<or>
       len > unat (l_rpc_max_request_bytes h)))) (\<lambda>_.
     attempt s (ensure (case target of None \<Rightarrow> True | Some t \<Rightarrow> peer_id (n_crypto n) t \<noteq> None)) (\<lambda>_.
       case next_id (l_node h) of (cid, a) \<Rightarrow>
         let timeout = (if timeout_ms = 0 then l_rpc_timeout h else from_millis (unat timeout_ms));
             r = send_to node (h\<lparr>l_node := a\<rparr>) (Rpc cid grp_key target protocol payload timeout) s
         in if fst r = LP2P_OK then write_typed request_id (wr64 (n_endian n) cid) r else Return r))))))"

definition lp2p_rpc_respond :: "ptr \<Rightarrow> u64 \<Rightarrow> ptr \<Rightarrow> nat \<Rightarrow> 'sw ffi \<Rightarrow> 'sw result" where
  "lp2p_rpc_respond node request_id dat len s =
     attempt s (handle s node) (\<lambda>h.
     attempt s (ffi_bytes (f_mem s) dat len) (\<lambda>payload.
       Return (send_to node h (Respond request_id payload) s)))"

definition lp2p_rpc_reject :: "ptr \<Rightarrow> u64 \<Rightarrow> 'sw ffi \<Rightarrow> 'sw result" where
  "lp2p_rpc_reject node request_id s =
     attempt s (handle s node) (\<lambda>h. Return (send_to node h (Reject request_id) s))"

section \<open>Limits\<close>

definition lp2p_peer_set_class :: "ptr \<Rightarrow> ptr \<Rightarrow> u8 \<Rightarrow> 'sw ffi \<Rightarrow> 'sw result" where
  "lp2p_peer_set_class node grp peer_class s =
     attempt s (handle s node) (\<lambda>h.
     attempt s (ffi_key (f_mem s) grp) (\<lambda>k. Return (send_to node h (SetClass k peer_class) s)))"

definition ffi_set_limit :: "ptr \<Rightarrow> u8 \<Rightarrow> u8 \<Rightarrow> u16 \<Rightarrow> limit_unit \<Rightarrow> lp2p_rate \<Rightarrow> 'sw ffi \<Rightarrow> 'sw result" where
  "ffi_set_limit node peer_class scope protocol un rate s =
     attempt s (handle s node) (\<lambda>h.
       let named = (protocol = LP2P_PROTOCOL_ANY \<or> protocol = LP2P_PROTOCOL_TOPICS \<or>
             unat protocol < l_rpc_protocol_count h)
       in attempt s (ensure (\<not> (scope > LP2P_SCOPE_GLOBAL \<or> peer_class = LP2P_CLASS_BLOCKED \<or> \<not> named))) (\<lambda>_.
            Return (send_to node h (SetLimit peer_class scope protocol un rate) s)))"

definition lp2p_limit_set :: "ptr \<Rightarrow> u8 \<Rightarrow> u8 \<Rightarrow> u16 \<Rightarrow> lp2p_rate \<Rightarrow> 'sw ffi \<Rightarrow> 'sw result" where
  "lp2p_limit_set node peer_class scope protocol rate s = ffi_set_limit node peer_class scope protocol Messages rate s"

definition lp2p_limit_set_bytes :: "ptr \<Rightarrow> u8 \<Rightarrow> u8 \<Rightarrow> u16 \<Rightarrow> lp2p_rate \<Rightarrow> 'sw ffi \<Rightarrow> 'sw result" where
  "lp2p_limit_set_bytes node peer_class scope protocol rate s = ffi_set_limit node peer_class scope protocol Bytes rate s"

section \<open>Announcements and topics\<close>

definition lp2p_announce_set_payload :: "ptr \<Rightarrow> ptr \<Rightarrow> nat \<Rightarrow> 'sw ffi \<Rightarrow> 'sw result" where
  "lp2p_announce_set_payload node dat len s =
     attempt s (handle s node) (\<lambda>h.
     attempt s (ffi_bytes (f_mem s) dat len) (\<lambda>payload.
       case l_announce_max_payload_bytes h of
         None \<Rightarrow> Return (LP2P_ERR_UNAVAILABLE, s)
       | Some bound \<Rightarrow>
           if length payload > bound then Return (LP2P_ERR_INVALID_ARGUMENT, s)
           else Return (send_to node h (AnnounceSetPayload payload) s)))"

definition lp2p_topic_subscribe :: "ptr \<Rightarrow> ptr \<Rightarrow> 'sw ffi \<Rightarrow> 'sw result" where
  "lp2p_topic_subscribe node topic_key s =
     attempt s (handle s node) (\<lambda>h.
     attempt s (ffi_key (f_mem s) topic_key) (\<lambda>k.
       if unat (sh_topics_subscribed (shared (w_state (n_world (l_node h))))) \<ge> l_topic_max_subscriptions h
       then Return (LP2P_ERR_LIMITED, s)
       else Return (send_to node h (TopicSubscribe k) s)))"

definition lp2p_topic_unsubscribe :: "ptr \<Rightarrow> ptr \<Rightarrow> 'sw ffi \<Rightarrow> 'sw result" where
  "lp2p_topic_unsubscribe node topic_key s =
     attempt s (handle s node) (\<lambda>h.
     attempt s (ffi_key (f_mem s) topic_key) (\<lambda>k. Return (send_to node h (TopicUnsubscribe k) s)))"

definition lp2p_topic_publish :: "ptr \<Rightarrow> ptr \<Rightarrow> ptr \<Rightarrow> nat \<Rightarrow> 'sw ffi \<Rightarrow> 'sw result" where
  "lp2p_topic_publish node topic_key dat len s =
     attempt s (handle s node) (\<lambda>h.
     attempt s (ffi_key (f_mem s) topic_key) (\<lambda>k.
     attempt s (ffi_bytes (f_mem s) dat len) (\<lambda>payload.
       if length payload > l_topic_max_message_bytes h then Return (LP2P_ERR_INVALID_ARGUMENT, s)
       else Return (send_to node h (TopicPublish k payload) s))))"

text \<open>\<open>recv_timeout\<close>: the turns the loop takes within five seconds, and the reply if it came to the command.\<close>

definition lp2p_topic_peers :: "'sw net \<Rightarrow> 'sw turn list \<Rightarrow> ptr \<Rightarrow> ptr \<Rightarrow> 'sw ffi \<Rightarrow> 'sw result" where
  "lp2p_topic_peers n turns node topic_key s =
     attempt s (handle s node) (\<lambda>h.
     attempt s (ffi_key (f_mem s) topic_key) (\<lambda>k.
       case send (TopicPeers k) (l_node h) of (sent, a) \<Rightarrow>
         if sent \<noteq> LP2P_OK then Return (sent, set_node node h a s)
         else (case await_reply n turns (length (n_commands (l_node h))) a of
             (Some (Count count), b) \<Rightarrow> Return (int (min count (2 ^ 31 - 1)), set_node node h b s)
           | (_, b) \<Rightarrow> Return (LP2P_ERR_SHUT_DOWN, set_node node h b s))))"

section \<open>The DHT\<close>

definition lp2p_dht_provide :: "ptr \<Rightarrow> ptr \<Rightarrow> 'sw ffi \<Rightarrow> 'sw result" where
  "lp2p_dht_provide node rec_key s =
     attempt s (handle s node) (\<lambda>h.
     attempt s (ffi_key (f_mem s) rec_key) (\<lambda>k. Return (send_to node h (Provide k False) s)))"

definition lp2p_dht_stop_providing :: "ptr \<Rightarrow> ptr \<Rightarrow> 'sw ffi \<Rightarrow> 'sw result" where
  "lp2p_dht_stop_providing node rec_key s =
     attempt s (handle s node) (\<lambda>h.
     attempt s (ffi_key (f_mem s) rec_key) (\<lambda>k. Return (send_to node h (Provide k True) s)))"

definition ffi_query :: "endian \<Rightarrow> ptr \<Rightarrow> ptr \<Rightarrow> (u64 \<Rightarrow> command) \<Rightarrow> 'sw ffi \<Rightarrow> 'sw result" where
  "ffi_query e node query_id mk s =
     attempt s (handle s node) (\<lambda>h.
     attempt s (ensure (query_id \<noteq> 0)) (\<lambda>_.
       case next_id (l_node h) of (cid, a) \<Rightarrow>
         let r = send_to node (h\<lparr>l_node := a\<rparr>) (mk cid) s
         in if fst r = LP2P_OK then write_typed query_id (wr64 e cid) r else Return r))"

definition lp2p_dht_find_providers :: "endian \<Rightarrow> ptr \<Rightarrow> ptr \<Rightarrow> ptr \<Rightarrow> 'sw ffi \<Rightarrow> 'sw result" where
  "lp2p_dht_find_providers e node rec_key query_id s =
     attempt s (ffi_key (f_mem s) rec_key) (\<lambda>k. ffi_query e node query_id (\<lambda>cid. FindProviders cid k) s)"

definition lp2p_add_address :: "'sw net \<Rightarrow> libs \<Rightarrow> ptr \<Rightarrow> ptr \<Rightarrow> ptr \<Rightarrow> 'sw ffi \<Rightarrow> 'sw result" where
  "lp2p_add_address n lb node node_key addr s =
     attempt s (handle s node) (\<lambda>h.
     attempt s (ffi_key (f_mem s) node_key) (\<lambda>target.
     attempt s (or_invalid (peer_id (n_crypto n) target)) (\<lambda>_.
     attempt s (ffi_string (f_mem s) addr) (\<lambda>str.
     attempt s (or_invalid (parse_multiaddr lb str)) (\<lambda>address.
       Return (send_to node h (AddAddress target address) s))))))"

definition lp2p_dht_bootstrap :: "endian \<Rightarrow> ptr \<Rightarrow> ptr \<Rightarrow> 'sw ffi \<Rightarrow> 'sw result" where
  "lp2p_dht_bootstrap e node query_id s = ffi_query e node query_id Bootstrap s"

definition lp2p_dht_random_walk :: "endian \<Rightarrow> ptr \<Rightarrow> ptr \<Rightarrow> 'sw ffi \<Rightarrow> 'sw result" where
  "lp2p_dht_random_walk e node query_id s = ffi_query e node query_id RandomWalk s"

text \<open>The copy loop of \<open>lp2p_routing_sample\<close>: whole records while they fit.\<close>

fun copy_sample :: "bytes list \<Rightarrow> ptr \<Rightarrow> nat \<Rightarrow> nat \<Rightarrow> mem \<Rightarrow> (nat \<times> mem) option" where
  "copy_sample [] buf cap written m = Some (written, m)"
| "copy_sample (r # rs) buf cap written m =
     (if written + length r > cap then Some (written, m)
      else case store m (buf + written) r of
          None \<Rightarrow> None
        | Some m' \<Rightarrow> copy_sample rs buf cap (written + length r) m')"

definition lp2p_routing_sample :: "'sw net \<Rightarrow> 'sw turn list \<Rightarrow> ptr \<Rightarrow> ptr \<Rightarrow> nat \<Rightarrow> u32 \<Rightarrow> 'sw ffi \<Rightarrow> 'sw result" where
  "lp2p_routing_sample n turns node buf cap max_peers s =
     attempt s (handle s node) (\<lambda>h.
     attempt s (ensure (\<not> (buf = 0 \<and> cap > 0))) (\<lambda>_.
       case send (RoutingSample (unat max_peers)) (l_node h) of (sent, a) \<Rightarrow>
         if sent \<noteq> LP2P_OK then Return (sent, set_node node h a s)
         else (case await_reply n turns (length (n_commands (l_node h))) a of
             (Some (Records records), b) \<Rightarrow>
               (case copy_sample (map (event_record (n_endian n)) records) buf cap 0 (f_mem s) of
                  None \<Rightarrow> Undefined
                | Some (written, m) \<Rightarrow> Return (as_i32 written, (set_node node h b s)\<lparr>f_mem := m\<rparr>))
           | (_, b) \<Rightarrow> Return (LP2P_ERR_SHUT_DOWN, set_node node h b s))))"

section \<open>Statistics and keys\<close>

definition stats_of :: "u32 \<Rightarrow> shared \<Rightarrow> lp2p_stats" where
  "stats_of sz sh = \<lparr>
     st_size = sz,
     st_connections = sh_connections sh,
     st_routing_table_peers = sh_routing_table_peers sh,
     st_topics_subscribed = sh_topics_subscribed sh,
     st_rpc_in = sh_rpc_in sh,
     st_rpc_out = sh_rpc_out sh,
     st_rpc_limited = sh_rpc_limited sh,
     st_events_dropped = dropped (sh_events sh),
     st_topic_in = sh_topic_in sh,
     st_topic_out = sh_topic_out sh,
     st_topic_bytes_in = sh_topic_bytes_in sh,
     st_topic_bytes_out = sh_topic_bytes_out sh,
     st_topic_limited = sh_topic_limited sh\<rparr>"

definition lp2p_stats_get :: "endian \<Rightarrow> ptr \<Rightarrow> ptr \<Rightarrow> 'sw ffi \<Rightarrow> 'sw result" where
  "lp2p_stats_get e node out s =
     attempt s (handle s node) (\<lambda>h.
     attempt s (ensure (out \<noteq> 0)) (\<lambda>_.
       case load (f_mem s) out 4 of
         None \<Rightarrow> Undefined
       | Some sz \<Rightarrow>
           let size = rd32 e 0 sz
           in if unat size < 4 then Return (LP2P_ERR_INVALID_ARGUMENT, s)
              else write_out out
                (take (min (unat size) 88) (stats_bytes e (stats_of size (shared (w_state (n_world (l_node h)))))))
                (LP2P_OK, s)))"

definition lp2p_key_from_seed :: "crypto \<Rightarrow> ptr \<Rightarrow> ptr \<Rightarrow> 'sw ffi \<Rightarrow> 'sw result" where
  "lp2p_key_from_seed c seed out s =
     attempt s (ffi_key (f_mem s) seed) (\<lambda>sd.
     attempt s (ensure (out \<noteq> 0)) (\<lambda>_.
     attempt s (or_invalid (keypair_from_seed c sd)) (\<lambda>keypair.
     attempt s (or_invalid (public_key c keypair)) (\<lambda>public.
       write_out out public (LP2P_OK, s)))))"

definition lp2p_delegation_sign :: "crypto \<Rightarrow> ptr \<Rightarrow> ptr \<Rightarrow> u64 \<Rightarrow> ptr \<Rightarrow> 'sw ffi \<Rightarrow> 'sw result" where
  "lp2p_delegation_sign c group_seed node_key expires_ms out s =
     attempt s (ffi_key (f_mem s) group_seed) (\<lambda>seed.
     attempt s (ffi_key (f_mem s) node_key) (\<lambda>node.
     attempt s (ensure (out \<noteq> 0)) (\<lambda>_.
     attempt s (or_invalid (sign c seed node expires_ms)) (\<lambda>deleg.
       write_out out (to_bytes deleg) (LP2P_OK, s)))))"

definition lp2p_delegation_verify ::
  "crypto \<Rightarrow> u64 \<Rightarrow> ptr \<Rightarrow> nat \<Rightarrow> u64 \<Rightarrow> ptr \<Rightarrow> ptr \<Rightarrow> 'sw ffi \<Rightarrow> 'sw result" where
  "lp2p_delegation_verify c clock deleg len now_ms_or_zero group_out node_out s =
     attempt s (ffi_bytes (f_mem s) deleg len) (\<lambda>bs.
     attempt s (parse_ok_or_invalid bs) (\<lambda>parsed.
       let now = (if now_ms_or_zero = 0 then clock else now_ms_or_zero)
       in case verify c parsed now of
            Inl _ \<Rightarrow> Return (LP2P_ERR_INVALID_ARGUMENT, s)
          | Inr _ \<Rightarrow>
              (case write_opt group_out (d_group parsed) (LP2P_OK, s) of
                 Return r \<Rightarrow> write_opt node_out (d_node parsed) r
               | other \<Rightarrow> other)))"

end
