(* ===== verification/FfiCalls.thy ===== *)
theory FfiCalls
  imports Ffi
begin

text \<open>
  The C interface as one system: a call of any of its functions, what the \<open># Safety\<close> comment of that function asks of the
  caller, and what the call may write. Under its contract no call has undefined behaviour, and none touches memory or handles
  other than those it was given.
\<close>

section \<open>Calls\<close>

datatype (plugins only: code) (dead 'sw) ffi_call =
    Options_default ptr
  | Start_call ptr ptr ptr u64 "config \<Rightarrow> int + 'sw" "('sw meantime \<times> swarm_ev) list"
  | Shutdown_call ptr "'sw turn list"
  | Poll_call ptr ptr nat int instant "(instant \<times> queue_op list) list"
  | Rpc_request ptr ptr ptr u16 ptr nat u32 ptr
  | Rpc_respond ptr u64 ptr nat
  | Rpc_reject ptr u64
  | Peer_set_class ptr ptr u8
  | Limit_set ptr u8 u8 u16 lp2p_rate
  | Limit_set_bytes ptr u8 u8 u16 lp2p_rate
  | Announce_set_payload ptr ptr nat
  | Topic_subscribe ptr ptr
  | Topic_unsubscribe ptr ptr
  | Topic_publish ptr ptr ptr nat
  | Topic_peers ptr ptr "'sw turn list"
  | Dht_provide ptr ptr
  | Dht_stop_providing ptr ptr
  | Dht_find_providers ptr ptr ptr
  | Add_address ptr ptr ptr
  | Dht_bootstrap ptr ptr
  | Dht_random_walk ptr ptr
  | Routing_sample ptr ptr nat u32 "'sw turn list"
  | Stats_get ptr ptr
  | Key_from_seed ptr ptr
  | Delegation_sign ptr ptr u64 ptr
  | Delegation_verify u64 ptr nat u64 ptr ptr

primrec run_call :: "'sw net \<Rightarrow> libs \<Rightarrow> 'sw ffi_call \<Rightarrow> 'sw ffi \<Rightarrow> 'sw result" where
  "run_call n lb (Options_default opt) s = lp2p_options_default (n_endian n) opt s"
| "run_call n lb (Start_call opt out box ms built evs) s = lp2p_start n lb opt out box ms built evs s"
| "run_call n lb (Shutdown_call node turns) s = lp2p_shutdown n turns node s"
| "run_call n lb (Poll_call node buf cap timeout_ms now sched) s =
     lp2p_poll (n_endian n) node buf cap timeout_ms now sched s"
| "run_call n lb (Rpc_request node grp node_key protocol dat len timeout_ms request_id) s =
     lp2p_rpc_request n node grp node_key protocol dat len timeout_ms request_id s"
| "run_call n lb (Rpc_respond node request_id dat len) s = lp2p_rpc_respond node request_id dat len s"
| "run_call n lb (Rpc_reject node request_id) s = lp2p_rpc_reject node request_id s"
| "run_call n lb (Peer_set_class node grp cls) s = lp2p_peer_set_class node grp cls s"
| "run_call n lb (Limit_set node cls scope protocol rate) s = lp2p_limit_set node cls scope protocol rate s"
| "run_call n lb (Limit_set_bytes node cls scope protocol rate) s = lp2p_limit_set_bytes node cls scope protocol rate s"
| "run_call n lb (Announce_set_payload node dat len) s = lp2p_announce_set_payload node dat len s"
| "run_call n lb (Topic_subscribe node key) s = lp2p_topic_subscribe node key s"
| "run_call n lb (Topic_unsubscribe node key) s = lp2p_topic_unsubscribe node key s"
| "run_call n lb (Topic_publish node key dat len) s = lp2p_topic_publish node key dat len s"
| "run_call n lb (Topic_peers node key turns) s = lp2p_topic_peers n turns node key s"
| "run_call n lb (Dht_provide node key) s = lp2p_dht_provide node key s"
| "run_call n lb (Dht_stop_providing node key) s = lp2p_dht_stop_providing node key s"
| "run_call n lb (Dht_find_providers node key query_id) s = lp2p_dht_find_providers (n_endian n) node key query_id s"
| "run_call n lb (Add_address node node_key addr) s = lp2p_add_address n lb node node_key addr s"
| "run_call n lb (Dht_bootstrap node query_id) s = lp2p_dht_bootstrap (n_endian n) node query_id s"
| "run_call n lb (Dht_random_walk node query_id) s = lp2p_dht_random_walk (n_endian n) node query_id s"
| "run_call n lb (Routing_sample node buf cap max_peers turns) s = lp2p_routing_sample n turns node buf cap max_peers s"
| "run_call n lb (Stats_get node out) s = lp2p_stats_get (n_endian n) node out s"
| "run_call n lb (Key_from_seed seed out) s = lp2p_key_from_seed (n_crypto n) seed out s"
| "run_call n lb (Delegation_sign seed node_key expires_ms out) s =
     lp2p_delegation_sign (n_crypto n) seed node_key expires_ms out s"
| "run_call n lb (Delegation_verify clock deleg len at_ms group_out node_out) s =
     lp2p_delegation_verify (n_crypto n) clock deleg len at_ms group_out node_out s"

section \<open>Contracts\<close>

definition mapped :: "mem \<Rightarrow> ptr \<Rightarrow> nat \<Rightarrow> bool" where
  "mapped m p k \<longleftrightarrow> p = 0 \<or> load m p k \<noteq> None"

definition mapped_typed :: "mem \<Rightarrow> ptr \<Rightarrow> nat \<Rightarrow> bool" where
  "mapped_typed m p k \<longleftrightarrow> p = 0 \<or> (aligned 8 p \<and> load m p k \<noteq> None)"

definition live_handle :: "'sw ffi \<Rightarrow> ptr \<Rightarrow> bool" where
  "live_handle s p \<longleftrightarrow> p = 0 \<or> f_handles s p \<noteq> None"

definition str_ok :: "mem \<Rightarrow> ptr \<Rightarrow> bool" where
  "str_ok m p \<longleftrightarrow> p = 0 \<or> cstr m p \<noteq> None"

definition strs_ok :: "endian \<Rightarrow> mem \<Rightarrow> ptr \<Rightarrow> nat \<Rightarrow> bool" where
  "strs_ok e m p count \<longleftrightarrow> count = 0 \<or> p = 0 \<or>
     (aligned 8 p \<and> (case load m p (8 * count) of
        None \<Rightarrow> False
      | Some bs \<Rightarrow> list_all (str_ok m) (ptrs_of e count bs)))"

definition options_ok :: "endian \<Rightarrow> mem \<Rightarrow> lp2p_options \<Rightarrow> bool" where
  "options_ok e m opt \<longleftrightarrow>
     mapped m (unat (o_delegation opt)) (o_delegation_len opt) \<and>
     strs_ok e m (unat (listen_addrs opt)) (listen_addr_count opt) \<and>
     str_ok m (unat (o_dht_protocol opt)) \<and>
     strs_ok e m (unat (o_rpc_protocols opt)) (o_rpc_protocol_count opt) \<and>
     (ao_enabled (o_announce opt) \<noteq> 0 \<longrightarrow> str_ok m (unat (ao_topic (o_announce opt))))"

definition start_ok :: "endian \<Rightarrow> mem \<Rightarrow> ptr \<Rightarrow> ptr \<Rightarrow> bool" where
  "start_ok e m opt out \<longleftrightarrow> opt = 0 \<or> out = 0 \<or>
     (case load m opt 4 of
        None \<Rightarrow> False
      | Some sz \<Rightarrow>
          let size = unat (rd32 e 0 sz)
          in size < 4 \<or>
             (case load m opt (min size LP2P_OPTIONS_SIZE) of
                None \<Rightarrow> False
              | Some given \<Rightarrow> options_ok e m (options_from e given) \<and> mapped_typed m out 8))"

definition stats_ok :: "endian \<Rightarrow> mem \<Rightarrow> ptr \<Rightarrow> bool" where
  "stats_ok e m out \<longleftrightarrow> out = 0 \<or>
     (case load m out 4 of
        None \<Rightarrow> False
      | Some sz \<Rightarrow> load m out (min (unat (rd32 e 0 sz)) 88) \<noteq> None)"

primrec contract :: "endian \<Rightarrow> 'sw ffi_call \<Rightarrow> 'sw ffi \<Rightarrow> bool" where
  "contract e (Options_default opt) s \<longleftrightarrow> mapped_typed (f_mem s) opt 272"
| "contract e (Start_call opt out box ms built evs) s \<longleftrightarrow>
     start_ok e (f_mem s) opt out \<and> box \<noteq> 0 \<and> f_handles s box = None"
| "contract e (Shutdown_call node turns) s \<longleftrightarrow> live_handle s node"
| "contract e (Poll_call node buf cap timeout_ms now sched) s \<longleftrightarrow> live_handle s node \<and> mapped (f_mem s) buf cap"
| "contract e (Rpc_request node grp node_key protocol dat len timeout_ms request_id) s \<longleftrightarrow>
     live_handle s node \<and> mapped (f_mem s) grp 32 \<and> mapped (f_mem s) node_key 32 \<and> mapped (f_mem s) dat len \<and>
     mapped_typed (f_mem s) request_id 8"
| "contract e (Rpc_respond node request_id dat len) s \<longleftrightarrow> live_handle s node \<and> mapped (f_mem s) dat len"
| "contract e (Rpc_reject node request_id) s \<longleftrightarrow> live_handle s node"
| "contract e (Peer_set_class node grp cls) s \<longleftrightarrow> live_handle s node \<and> mapped (f_mem s) grp 32"
| "contract e (Limit_set node cls scope protocol rate) s \<longleftrightarrow> live_handle s node"
| "contract e (Limit_set_bytes node cls scope protocol rate) s \<longleftrightarrow> live_handle s node"
| "contract e (Announce_set_payload node dat len) s \<longleftrightarrow> live_handle s node \<and> mapped (f_mem s) dat len"
| "contract e (Topic_subscribe node key) s \<longleftrightarrow> live_handle s node \<and> mapped (f_mem s) key 32"
| "contract e (Topic_unsubscribe node key) s \<longleftrightarrow> live_handle s node \<and> mapped (f_mem s) key 32"
| "contract e (Topic_publish node key dat len) s \<longleftrightarrow>
     live_handle s node \<and> mapped (f_mem s) key 32 \<and> mapped (f_mem s) dat len"
| "contract e (Topic_peers node key turns) s \<longleftrightarrow> live_handle s node \<and> mapped (f_mem s) key 32"
| "contract e (Dht_provide node key) s \<longleftrightarrow> live_handle s node \<and> mapped (f_mem s) key 32"
| "contract e (Dht_stop_providing node key) s \<longleftrightarrow> live_handle s node \<and> mapped (f_mem s) key 32"
| "contract e (Dht_find_providers node key query_id) s \<longleftrightarrow>
     live_handle s node \<and> mapped (f_mem s) key 32 \<and> mapped_typed (f_mem s) query_id 8"
| "contract e (Add_address node node_key addr) s \<longleftrightarrow>
     live_handle s node \<and> mapped (f_mem s) node_key 32 \<and> str_ok (f_mem s) addr"
| "contract e (Dht_bootstrap node query_id) s \<longleftrightarrow> live_handle s node \<and> mapped_typed (f_mem s) query_id 8"
| "contract e (Dht_random_walk node query_id) s \<longleftrightarrow> live_handle s node \<and> mapped_typed (f_mem s) query_id 8"
| "contract e (Routing_sample node buf cap max_peers turns) s \<longleftrightarrow> live_handle s node \<and> mapped (f_mem s) buf cap"
| "contract e (Stats_get node out) s \<longleftrightarrow> live_handle s node \<and> stats_ok e (f_mem s) out"
| "contract e (Key_from_seed seed out) s \<longleftrightarrow> mapped (f_mem s) seed 32 \<and> mapped (f_mem s) out 32"
| "contract e (Delegation_sign seed node_key expires_ms out) s \<longleftrightarrow>
     mapped (f_mem s) seed 32 \<and> mapped (f_mem s) node_key 32 \<and> mapped (f_mem s) out LP2P_DELEGATION_BYTES"
| "contract e (Delegation_verify clock deleg len at_ms group_out node_out) s \<longleftrightarrow>
     mapped (f_mem s) deleg len \<and> mapped (f_mem s) group_out 32 \<and> mapped (f_mem s) node_out 32"

text \<open>The bytes a call may write, and the handles it may change.\<close>

primrec writes :: "'sw ffi_call \<Rightarrow> nat set" where
  "writes (Options_default opt) = region opt 272"
| "writes (Start_call opt out box ms built evs) = region out 8"
| "writes (Poll_call node buf cap timeout_ms now sched) = region buf cap"
| "writes (Rpc_request node grp node_key protocol dat len timeout_ms request_id) = region request_id 8"
| "writes (Dht_find_providers node key query_id) = region query_id 8"
| "writes (Dht_bootstrap node query_id) = region query_id 8"
| "writes (Dht_random_walk node query_id) = region query_id 8"
| "writes (Routing_sample node buf cap max_peers turns) = region buf cap"
| "writes (Stats_get node out) = region out 88"
| "writes (Key_from_seed seed out) = region out 32"
| "writes (Delegation_sign seed node_key expires_ms out) = region out LP2P_DELEGATION_BYTES"
| "writes (Delegation_verify clock deleg len at_ms group_out node_out) = region group_out 32 \<union> region node_out 32"
| "writes (Shutdown_call node turns) = {}"
| "writes (Rpc_respond node request_id dat len) = {}"
| "writes (Rpc_reject node request_id) = {}"
| "writes (Peer_set_class node grp cls) = {}"
| "writes (Limit_set node cls scope protocol rate) = {}"
| "writes (Limit_set_bytes node cls scope protocol rate) = {}"
| "writes (Announce_set_payload node dat len) = {}"
| "writes (Topic_subscribe node key) = {}"
| "writes (Topic_unsubscribe node key) = {}"
| "writes (Topic_publish node key dat len) = {}"
| "writes (Topic_peers node key turns) = {}"
| "writes (Dht_provide node key) = {}"
| "writes (Dht_stop_providing node key) = {}"
| "writes (Add_address node node_key addr) = {}"

primrec handle_of :: "'sw ffi_call \<Rightarrow> ptr option" where
  "handle_of (Options_default opt) = None"
| "handle_of (Start_call opt out box ms built evs) = Some box"
| "handle_of (Shutdown_call node turns) = Some node"
| "handle_of (Poll_call node buf cap timeout_ms now sched) = Some node"
| "handle_of (Rpc_request node grp node_key protocol dat len timeout_ms request_id) = Some node"
| "handle_of (Rpc_respond node request_id dat len) = Some node"
| "handle_of (Rpc_reject node request_id) = Some node"
| "handle_of (Peer_set_class node grp cls) = Some node"
| "handle_of (Limit_set node cls scope protocol rate) = Some node"
| "handle_of (Limit_set_bytes node cls scope protocol rate) = Some node"
| "handle_of (Announce_set_payload node dat len) = Some node"
| "handle_of (Topic_subscribe node key) = Some node"
| "handle_of (Topic_unsubscribe node key) = Some node"
| "handle_of (Topic_publish node key dat len) = Some node"
| "handle_of (Topic_peers node key turns) = Some node"
| "handle_of (Dht_provide node key) = Some node"
| "handle_of (Dht_stop_providing node key) = Some node"
| "handle_of (Dht_find_providers node key query_id) = Some node"
| "handle_of (Add_address node node_key addr) = Some node"
| "handle_of (Dht_bootstrap node query_id) = Some node"
| "handle_of (Dht_random_walk node query_id) = Some node"
| "handle_of (Routing_sample node buf cap max_peers turns) = Some node"
| "handle_of (Stats_get node out) = Some node"
| "handle_of (Key_from_seed seed out) = None"
| "handle_of (Delegation_sign seed node_key expires_ms out) = None"
| "handle_of (Delegation_verify clock deleg len at_ms group_out node_out) = None"

end
