(* ===== verification/DemoFfi.thy ===== *)
theory DemoFfi
  imports FfiCalls
begin

text \<open>
  A C program's memory to compute with: the options of a node, what they point to, and the node that \<open>lp2p_start\<close> makes of them
  on the small libp2p of \<open>DemoNet\<close>.
\<close>

section \<open>Memory made of segments\<close>

fun seg_mem :: "(ptr \<times> bytes) list \<Rightarrow> mem" where
  "seg_mem [] a = None"
| "seg_mem ((p, bs) # segs) a = (if p \<le> a \<and> a < p + length bs then Some (bs ! (a - p)) else seg_mem segs a)"

lemma load_of_nth: "(\<And>i. i < length bs \<Longrightarrow> m (p + i) = Some (bs ! i)) \<Longrightarrow> load m p (length bs) = Some bs"
proof (induction bs arbitrary: p)
  case (Cons b bs)
  have "m p = Some b" using Cons.prems [of 0] by simp
  moreover have "load m (Suc p) (length bs) = Some bs"
    using Cons.prems [of "Suc _"] by (intro Cons.IH) simp
  ultimately show ?case by simp
qed simp

lemma load_seg: "length bs = k \<Longrightarrow> load (seg_mem ((p, bs) # segs)) p k = Some bs"
  using load_of_nth [of bs "seg_mem ((p, bs) # segs)" p] by simp

lemma load_seg_skip: "q + k \<le> p \<or> p + length bs \<le> q \<Longrightarrow> load (seg_mem ((p, bs) # segs)) q k = load (seg_mem segs) q k"
  by (rule load_cong) (auto simp: region_def)

lemma load_prefix: "load m p k = Some bs \<Longrightarrow> j \<le> k \<Longrightarrow> load m p j = Some (take j bs)"
proof (induction k arbitrary: p bs j)
  case (Suc k)
  then show ?case by (cases j) (auto split: option.splits)
qed simp

section \<open>Options\<close>

definition demo_options :: lp2p_options where
  "demo_options = default_options\<lparr>
     node_seed := demo_seed, o_delegation := 2048, o_delegation_len := 136, o_group := replicate 32 1,
     listen_addrs := 0, listen_addr_count := 0, o_dht_protocol := 3072, o_rpc_protocols := 4096, o_rpc_protocol_count := 1,
     o_rpc_max_request_bytes := 1000, o_rpc_max_response_bytes := 1000, rpc_timeout_ms := 1000,
     o_quic := 0, o_dcutr := 0, o_autonat := 0,
     o_max_connections := 0, o_max_connections_per_peer := 0, o_max_pending_incoming := 0,
     o_relay := \<lparr>ro_server = 0, ro_client = 1, ro_max_reservations = 1, ro_max_reservations_per_peer = 1,
       ro_reservation_duration_s = 60, ro_max_circuits = 1, ro_max_circuits_per_peer = 1, ro_max_circuit_duration_s = 60,
       ro_max_circuit_bytes = 1000, ro_circuits_per_peer = \<lparr>amount = 0, interval_ms = 0, burst = 0\<rparr>,
       ro_circuits_per_ip = \<lparr>amount = 0, interval_ms = 0, burst = 0\<rparr>\<rparr>,
     o_announce := \<lparr>ao_enabled = 0, ao_topic = 0, ao_max_payload_bytes = 0\<rparr>,
     o_event_queue_bytes := 100000, o_reachability := LP2P_REACH_UNKNOWN,
     o_topic_max_message_bytes := 1000, o_topic_max_subscriptions := 2\<rparr>"

definition demo_memory :: mem where
  "demo_memory = seg_mem [(64, replicate 64 1), (1024, options_bytes Little demo_options), (2048, to_bytes demo_grant),
     (3072, ascii ''/kad'' @ [0]), (4096, ne_bytes Little 8 5120), (5120, ascii ''/echo'' @ [0]), (6144, replicate 256 0)]"

definition demo_libs :: libs where
  "demo_libs = \<lparr>parse_multiaddr = (\<lambda>_. None), stream_protocol_ok = (\<lambda>p. p \<noteq> [] \<and> hd p = 47)\<rparr>"

lemma demo_options_wf: "options_wf demo_options"
  by (simp add: demo_options_def options_wf_def default_options_def demo_seed_def)

lemma demo_options_size: "length (options_bytes Little demo_options) = 272" "unat (struct_size demo_options) = 272"
  by (simp_all add: demo_options_wf) (simp add: demo_options_def default_options_def LP2P_OPTIONS_SIZE_def)

lemma demo_ascii_length [simp]: "length (ascii ''/kad'') = 4" "length (ascii ''/echo'') = 5"
  by (simp_all add: ascii_def)

lemma demo_loads:
  "load demo_memory 1024 272 = Some (options_bytes Little demo_options)"
  "load demo_memory 2048 136 = Some (to_bytes demo_grant)"
  "load demo_memory 3072 5 = Some (ascii ''/kad'' @ [0])"
  "load demo_memory 4096 8 = Some (ne_bytes Little 8 5120)"
  "load demo_memory 5120 6 = Some (ascii ''/echo'' @ [0])"
  "load demo_memory 64 64 = Some (replicate 64 1)"
  "load demo_memory 6144 256 = Some (replicate 256 0)"
  unfolding demo_memory_def
  by (simp_all add: load_seg load_seg_skip demo_options_size demo_grant_length del: seg_mem.simps load.simps)

lemma demo_strings: "cstr demo_memory 3072 = Some (ascii ''/kad'')" "cstr demo_memory 5120 = Some (ascii ''/echo'')"
proof -
  have "load demo_memory 3072 (Suc (length (ascii ''/kad''))) = Some (ascii ''/kad'' @ [0])"
    "load demo_memory 5120 (Suc (length (ascii ''/echo''))) = Some (ascii ''/echo'' @ [0])"
    using demo_loads(3,5) demo_ascii_length by (simp_all only: Suc_numeral semiring_norm)
  moreover have "0 \<notin> set (ascii ''/kad'')" "0 \<notin> set (ascii ''/echo'')" by (simp_all add: ascii_def)
  ultimately show "cstr demo_memory 3072 = Some (ascii ''/kad'')" "cstr demo_memory 5120 = Some (ascii ''/echo'')"
    by (blast intro: cstr_terminates)+
qed

lemma demo_fields:
  "node_seed demo_options = demo_seed" "o_delegation demo_options = 2048" "o_delegation_len demo_options = 136"
  "o_group demo_options = replicate 32 1" "listen_addr_count demo_options = 0" "o_dht_protocol demo_options = 3072"
  "o_rpc_protocols demo_options = 4096" "o_rpc_protocol_count demo_options = 1"
  "o_announce demo_options = \<lparr>ao_enabled = 0, ao_topic = 0, ao_max_payload_bytes = 0\<rparr>"
  "o_reachability demo_options = LP2P_REACH_UNKNOWN" "o_rpc_max_request_bytes demo_options = 1000"
  "o_rpc_max_response_bytes demo_options = 1000" "rpc_timeout_ms demo_options = 1000"
  by (simp_all add: demo_options_def)

lemma demo_ptrs: "ptrs_of Little 1 (ne_bytes Little 8 5120) = [5120]"
  by (simp add: ptrs_of_def rdsize_def slice_all)

lemma demo_config_from: "config_from Little demo_libs demo_memory demo_options = Some (Inr demo_config)"
proof -
  have d: "ffi_bytes demo_memory 2048 136 = Some (Inr (to_bytes demo_grant))"
    by (simp add: ffi_bytes_def demo_loads del: load.simps)
  have p: "parse_ok_or_invalid (to_bytes demo_grant) = Some (Inr demo_grant)"
    by (simp add: parse_ok_or_invalid_def parse_ok_def parse_to_bytes demo_grant_wf)
  have k: "ffi_string demo_memory 3072 = Some (Inr (ascii ''/kad''))"
    by (simp add: ffi_string_def demo_strings) (simp add: ascii_def utf8_valid.simps)
  have r: "ffi_strings Little demo_memory 4096 1 = Some (Inr [ascii ''/echo''])"
    by (simp add: ffi_strings_def aligned_def demo_loads demo_ptrs [simplified] ffi_string_def demo_strings del: load.simps)
      (simp add: ascii_def utf8_valid.simps)
  have c: "config_of demo_options demo_grant [] (ascii ''/kad'') [ascii ''/echo''] None Unknown = demo_config"
    by (simp add: config_of_def demo_config_def demo_options_def default_options_def relay_from_def token_bucket_def limit_def
        from_millis_def from_secs_def)
  have z: "ffi_strings Little demo_memory q 0 = Some (Inr [])" "d_group demo_grant = replicate 32 1" for q
    by (simp_all add: ffi_strings_def demo_grant_def)
  have a: "hd (ascii ''/kad'') = 47" "ascii ''/kad'' \<noteq> []" "ascii ''/echo'' \<noteq> []" by (simp_all add: ascii_def)
  show ?thesis
    by (simp add: config_from_def demo_fields d p k r [simplified] c z a announce_from_def demo_libs_def
        reach_of_def LP2P_REACH_UNKNOWN_def LP2P_REACH_PUBLIC_def LP2P_REACH_PRIVATE_def)
qed

section \<open>A started node\<close>

definition demo_blank :: "nat ffi" where
  "demo_blank = \<lparr>f_mem = demo_memory, f_handles = Map.empty\<rparr>"

definition demo_ffi :: "nat ffi" where
  "demo_ffi = \<lparr>f_mem = the (store demo_memory 6144 (ne_bytes Little 8 9000)),
     f_handles = [9000 \<mapsto> lp2p_of demo_config demo_world]\<rparr>"

definition demo_start_call :: "nat ffi_call" where
  "demo_start_call = Start_call 1024 6144 9000 0 (\<lambda>_. Inr 0) []"

lemma demo_stored: "store demo_memory 6144 (ne_bytes Little 8 9000) = Some (f_mem demo_ffi)"
proof -
  have "load demo_memory 6144 8 \<noteq> None" using load_prefix [OF demo_loads(7), of 8] by simp
  then have "region 6144 8 \<subseteq> dom demo_memory" by (simp only: load_mapped)
  then obtain m where "store demo_memory 6144 (ne_bytes Little 8 9000) = Some m"
    using store_SomeI [of 6144 "ne_bytes Little 8 9000" demo_memory] by auto
  then show ?thesis by (simp add: demo_ffi_def)
qed

lemma demo_size: "rd32 Little 0 (take 4 (options_bytes Little demo_options)) = 272"
  by (simp add: rd32_def options_bytes_def layout_simps demo_options_def default_options_def LP2P_OPTIONS_SIZE_def)

lemma demo_known: "options_from Little (options_bytes Little demo_options) = demo_options"
  using length_options_bytes [OF default_options_wf, of Little]
  by (simp add: options_from_def demo_options_size options_read_back demo_options_wf)

lemma demo_starts: "run_call demo_net demo_libs demo_start_call demo_blank = Return (LP2P_OK, demo_ffi)"
proof -
  have "n_endian demo_net = Little" by (simp add: demo_net_def)
  then show ?thesis
    by (simp add: demo_start_call_def lp2p_start_def demo_blank_def load_prefix [OF demo_loads(1)] demo_size demo_known demo_loads
        LP2P_OPTIONS_SIZE_def demo_config_from demo_start write_typed_def aligned_def write_out_def demo_stored del: load.simps)
      (simp add: demo_ffi_def)
qed

lemma demo_start_contract: "contract Little demo_start_call demo_blank"
proof -
  have "options_ok Little demo_memory demo_options"
    by (simp add: options_ok_def demo_fields mapped_def demo_loads strs_ok_def str_ok_def demo_strings aligned_def
        demo_ptrs [simplified] del: load.simps)
  then show ?thesis
    by (simp add: demo_start_call_def start_ok_def demo_blank_def load_prefix [OF demo_loads(1)] demo_size demo_known demo_loads
        LP2P_OPTIONS_SIZE_def mapped_typed_def aligned_def load_prefix [OF demo_loads(7)] demo_options_size
        del: load.simps)
qed

lemma demo_load:
  "p + k \<le> 6144 \<or> 6152 \<le> p \<Longrightarrow> load (f_mem demo_ffi) p k = load demo_memory p k"
  using load_after_store [OF demo_stored, of p k] by (auto simp: region_def)

lemma demo_group: "load (f_mem demo_ffi) 64 32 = Some (replicate 32 1)"
  using load_prefix [OF demo_loads(6), of 32] by (simp add: demo_load del: load.simps)

lemma demo_payload: "load (f_mem demo_ffi) 64 (Suc 0) = Some [1]"
  using load_prefix [OF demo_loads(6), of 1] by (simp add: demo_load del: load.simps)

lemma demo_room: "load (f_mem demo_ffi) 6152 248 = Some (replicate 248 0)"
proof -
  have "load demo_memory 6152 248 = Some (replicate 248 0)"
    unfolding demo_memory_def
    by (simp add: load_seg_skip demo_options_size demo_grant_length del: seg_mem.simps load.simps)
      (rule load_of_nth [of "replicate 248 0", simplified], simp)
  then show ?thesis by (simp add: demo_load del: load.simps)
qed

lemma demo_live: "handle demo_ffi 9000 = Some (Inr (lp2p_of demo_config demo_world))" "live_handle demo_ffi 9000"
  by (simp_all add: handle_def demo_ffi_def live_handle_def)

end
