(* ===== verification/FfiSafety.thy ===== *)
theory FfiSafety
  imports DemoFfi
begin

text \<open>
  What the C interface promises whatever the node does: under its contract a call has no undefined behaviour and a frame, and a
  call refused as invalid has no effect.
\<close>

named_theorems sound_intros \<open>steps of a call that stay within its contract\<close>

section \<open>Sound results\<close>

definition sound :: "ptr set \<Rightarrow> nat set \<Rightarrow> 'sw ffi \<Rightarrow> 'sw result \<Rightarrow> bool" where
  "sound hs ws s r \<longleftrightarrow> r \<noteq> Undefined \<and>
     (\<forall>st s'. r = Return (st, s') \<longrightarrow>
        dom (f_mem s') = dom (f_mem s) \<and> (\<forall>a. a \<notin> ws \<longrightarrow> f_mem s' a = f_mem s a) \<and>
        (\<forall>p. p \<notin> hs \<longrightarrow> f_handles s' p = f_handles s p))"

text \<open>A value the caller's memory has.\<close>

definition defined :: "'a option \<Rightarrow> bool" where
  "defined r \<longleftrightarrow> r \<noteq> None"

lemma defined_simps [simp]: "defined (Some x)" "\<not> defined None" "defined (map_option f r) = defined r"
  by (simp_all add: defined_def)

lemma definedE: "defined r \<Longrightarrow> (\<And>x. r = Some x \<Longrightarrow> P) \<Longrightarrow> P"
  by (auto simp: defined_def)

lemma sound_return [sound_intros]: "sound hs ws s (Return (st, s))"
  by (simp add: sound_def)

lemma sound_blocked [sound_intros]: "sound hs ws s Blocked"
  by (simp add: sound_def)

lemma sound_attempt [sound_intros]:
  assumes "defined r" and "\<And>x. r = Some (Inr x) \<Longrightarrow> sound hs ws s (f x)"
  shows "sound hs ws s (attempt s r f)"
  using assms by (cases r) (auto simp: sound_return attempt_def split: sum.split)

lemma sound_set_node [sound_intros]: "p \<in> hs \<Longrightarrow> sound hs ws s (Return (st, set_node p h a s))"
  by (auto simp: sound_def set_node_def)

lemma sound_send [sound_intros]: "p \<in> hs \<Longrightarrow> sound hs ws s (Return (send_to p h c s))"
  by (auto simp: send_to_def sound_set_node split: prod.split)

lemma load_region: "defined (load m p k) \<Longrightarrow> region p k \<subseteq> dom m"
  using load_mapped [of m p k] by (simp only: defined_def)

lemma sound_write:
  assumes "sound hs ws s (Return r)" and "defined (load (f_mem s) p (length bs))" and "region p (length bs) \<subseteq> ws"
  shows "sound hs ws s (write_out p bs r)"
proof -
  have "dom (f_mem (snd r)) = dom (f_mem s)" using assms(1) by (cases r) (simp add: sound_def)
  then obtain m where m: "store (f_mem (snd r)) p bs = Some m"
    using store_SomeI [of p bs "f_mem (snd r)"] load_region [OF assms(2)] by auto
  have "m a = f_mem (snd r) a" if "a \<notin> ws" for a using store_frame [OF m] assms(3) that by blast
  with assms(1) m store_dom [OF m] show ?thesis
    by (cases r) (auto simp: sound_def write_out_def)
qed

lemma sound_write_typed:
  assumes "sound hs ws s (Return r)" and "mapped_typed (f_mem s) p (length bs)" and "p \<noteq> 0" and "region p (length bs) \<subseteq> ws"
  shows "sound hs ws s (write_typed p bs r)"
  using assms sound_write [OF assms(1)] by (auto simp: write_typed_def mapped_typed_def defined_def)

lemma sound_write_opt:
  assumes "sound hs ws s (Return r)" and "mapped (f_mem s) p (length bs)" and "region p (length bs) \<subseteq> ws"
  shows "sound hs ws s (write_opt p bs r)"
  using assms sound_write [OF assms(1)] by (auto simp: write_opt_def mapped_def defined_def)

section \<open>Arguments\<close>

lemma handle_defined [sound_intros]: "live_handle s p \<Longrightarrow> defined (handle s p)"
  by (auto simp: live_handle_def handle_def)

lemma ffi_key_defined [sound_intros]: "mapped m p 32 \<Longrightarrow> defined (ffi_key m p)"
  by (auto simp: mapped_def ffi_key_def)

lemma ffi_bytes_defined [sound_intros]: "mapped m p len \<Longrightarrow> defined (ffi_bytes m p len)"
  by (auto simp: mapped_def ffi_bytes_def)

lemma ffi_string_defined [sound_intros]: "str_ok m p \<Longrightarrow> defined (ffi_string m p)"
  by (auto simp: str_ok_def ffi_string_def)

lemma bind_defined [sound_intros]:
  "defined r \<Longrightarrow> (\<And>x. r = Some (Inr x) \<Longrightarrow> defined (f x)) \<Longrightarrow> defined (bind_fallible r f)"
  by (cases r) (auto simp: bind_fallible_def split: sum.split)

lemma ensure_defined [sound_intros]: "defined (ensure b)" "defined (or_invalid x)" "defined (parse_ok_or_invalid bs)"
  by (simp_all add: ensure_def or_invalid_def parse_ok_or_invalid_def)

lemma target_defined [sound_intros]: "mapped m p 32 \<Longrightarrow> defined (target_of m p)"
  unfolding target_of_def by (auto intro!: sound_intros)

lemma collect_defined: "(\<And>r. r \<in> set rs \<Longrightarrow> defined r) \<Longrightarrow> defined (collect_fallible rs)"
  by (induction rs) (auto intro!: bind_defined)

lemma ffi_strings_defined [sound_intros]: "strs_ok e m p count \<Longrightarrow> defined (ffi_strings e m p count)"
  by (auto simp: strs_ok_def ffi_strings_def list_all_iff intro!: collect_defined ffi_string_defined
      split: option.splits)

lemma config_from_defined:
  assumes "options_ok e m opt"
  shows "defined (config_from e lb m opt)"
proof -
  have "defined (announce_from m dht (o_announce opt))" for dht
    using assms unfolding announce_from_def options_ok_def by (auto intro!: sound_intros)
  then show ?thesis
    using assms unfolding config_from_def options_ok_def by (auto intro!: sound_intros collect_defined)
qed

section \<open>Functions\<close>

definition call_handles :: "'sw ffi_call \<Rightarrow> ptr set" where
  "call_handles c = set_option (handle_of c)"

abbreviation call_sound :: "'sw net \<Rightarrow> libs \<Rightarrow> 'sw ffi_call \<Rightarrow> 'sw ffi \<Rightarrow> bool" where
  "call_sound n lb c s \<equiv> sound (call_handles c) (writes c) s (run_call n lb c s)"

lemma copy_records_length: "copy_records rs k written buf = Inr (rs', k', written', buf') \<Longrightarrow> length buf' = length buf"
  by (induction rs k written buf rule: copy_records.induct) (auto simp: Let_def split: if_splits)

lemma poll_locked_length: "poll_locked e buf q = (st, buf', q') \<Longrightarrow> length buf' = length buf"
  by (auto simp: poll_locked_def Let_def dest: copy_records_length split: if_splits sum.splits option.splits)

lemma poll_length: "poll e buf timeout now sched q = Returned st buf' q' \<Longrightarrow> length buf' = length buf"
  unfolding poll_def by (drule poll_loop_returned) (auto dest: poll_locked_length split: if_splits)

lemma poll_sound:
  assumes "contract (n_endian n) (Poll_call node buf cap timeout_ms now sched) s"
  shows "call_sound n lb (Poll_call node buf cap timeout_ms now sched) s"
proof -
  have c: "live_handle s node" "buf = 0 \<or> defined (load (f_mem s) buf cap)"
    using assms by (simp_all add: mapped_def defined_def)
  have "sound {node} (region buf cap) s (write_out buf buffer' (st, set_node node h a s))"
    if "load (f_mem s) buf cap = Some buffer" "length buffer' = length buffer" for buffer buffer' st h a
    using that length_load [OF that(1)] by (intro sound_write sound_intros) auto
  moreover have "defined (load (f_mem s) buf cap)" if "\<not> (buf = 0 \<and> 0 < cap)"
    using that c(2) by (cases cap) auto
  ultimately show ?thesis
    using c(1) unfolding lp2p_poll_def run_call.simps call_handles_def handle_of.simps writes.simps option.set
    by (fastforce intro!: sound_intros split: option.split poll_result.split dest: poll_length simp: ensure_def split: if_splits)
qed

lemma copy_sample_sound:
  "region buf cap \<subseteq> dom m \<Longrightarrow> \<exists>k m'. copy_sample rs buf cap written m = Some (k, m') \<and> dom m' = dom m \<and>
     (\<forall>a. a \<notin> region buf cap \<longrightarrow> m' a = m a)"
proof (induction rs arbitrary: written m)
  case (Cons r rs)
  show ?case
  proof (cases "written + length r > cap")
    case False
    then have sub: "region (buf + written) (length r) \<subseteq> region buf cap" by (auto simp: region_def)
    then obtain m1 where m1: "store m (buf + written) r = Some m1"
      using store_SomeI [of "buf + written" r m] Cons.prems by auto
    have "m1 a = m a" if "a \<notin> region buf cap" for a using store_frame [OF m1] sub that by blast
    with Cons.IH [of m1 "written + length r"] Cons.prems store_dom [OF m1] m1 False show ?thesis by auto
  qed auto
qed simp

lemma sample_sound:
  assumes "contract (n_endian n) (Routing_sample node buf cap max_peers turns) s"
  shows "call_sound n lb (Routing_sample node buf cap max_peers turns) s"
proof -
  have c: "live_handle s node" "buf = 0 \<or> defined (load (f_mem s) buf cap)"
    using assms by (simp_all add: mapped_def defined_def)
  have reg: "region buf cap \<subseteq> dom (f_mem s)" if "\<not> (buf = 0 \<and> 0 < cap)"
    using that c(2) load_region [of "f_mem s" buf cap] by (cases cap) auto
  have "sound {node} (region buf cap) s (case copy_sample rs buf cap 0 (f_mem s) of
      None \<Rightarrow> Undefined | Some (k, m) \<Rightarrow> Return (as_i32 k, (set_node node h a s)\<lparr>f_mem := m\<rparr>))"
    if "\<not> (buf = 0 \<and> 0 < cap)" for rs h a
    using copy_sample_sound [OF reg [OF that], of rs 0] by (elim exE conjE) (simp add: sound_def set_node_def)
  then show ?thesis
    using c(1) unfolding lp2p_routing_sample_def run_call.simps call_handles_def handle_of.simps writes.simps option.set
    by (auto intro!: sound_intros split: option.split prod.split reply.split simp: ensure_def split: if_splits)
qed

text \<open>The arrays of the key types: \<open>[u8; 32]\<close> for every public key.\<close>

definition keys_sized :: "crypto \<Rightarrow> bool" where
  "keys_sized c \<longleftrightarrow> (\<forall>seed sk. secret_from_bytes c seed = Some sk \<longrightarrow>
     length (ed_public c sk) = 32 \<and> (\<forall>k. keypair_public c sk = Ed25519 k \<longrightarrow> length k = 32))"

lemma length_ffi_key: "ffi_key m p = Some (Inr k) \<Longrightarrow> length k = 32"
  by (auto simp: ffi_key_def length_load split: if_splits)

lemma start_sound:
  assumes "contract (n_endian n) (Start_call opt out box ms built evs) s"
  shows "call_sound n lb (Start_call opt out box ms built evs) s"
proof -
  have "sound {box} (region out 8) s (write_typed out (ne_bytes (n_endian n) 8 box)
      (LP2P_OK, s\<lparr>f_handles := (f_handles s)(box \<mapsto> h)\<rparr>))" if "mapped_typed (f_mem s) out 8" "out \<noteq> 0" for h
    using that by (intro sound_write_typed) (auto simp: sound_def)
  then show ?thesis
    using assms unfolding lp2p_start_def run_call.simps call_handles_def handle_of.simps writes.simps option.set
    by (auto simp: start_ok_def Let_def intro!: sound_intros config_from_defined split: option.splits sum.split if_splits)
qed

lemma stats_sound:
  assumes "contract (n_endian n) (Stats_get node out) s"
  shows "call_sound n lb (Stats_get node out) s"
proof -
  have "sound {node} (region out 88) s (write_out out (take (min k 88) (stats_bytes e st)) (LP2P_OK, s))"
    if "defined (load (f_mem s) out (min k 88))" for k e st
    using that by (intro sound_write sound_intros) (auto simp: region_def)
  then show ?thesis
    using assms unfolding lp2p_stats_get_def run_call.simps call_handles_def handle_of.simps writes.simps option.set
    by (auto simp: stats_ok_def defined_def [of "load _ _ _"] Let_def ensure_def intro!: sound_intros
        split: option.splits if_splits)
qed

lemma request_sound:
  assumes "contract (n_endian n) (Rpc_request node grp node_key protocol dat len timeout_ms request_id) s"
  shows "call_sound n lb (Rpc_request node grp node_key protocol dat len timeout_ms request_id) s"
  using assms unfolding lp2p_rpc_request_def run_call.simps call_handles_def handle_of.simps writes.simps option.set
  by (auto simp: ensure_def Let_def intro!: sound_intros sound_write_typed split: prod.split if_splits)

lemma query_sound:
  assumes "live_handle s node" and "mapped_typed (f_mem s) query_id 8"
  shows "sound {node} (region query_id 8) s (ffi_query e node query_id mk s)"
  using assms unfolding ffi_query_def
  by (auto simp: ensure_def Let_def intro!: sound_intros sound_write_typed split: prod.split if_splits)

lemma delegation_sign_sound:
  assumes "keys_sized c" and "mapped (f_mem s) seed 32" and "mapped (f_mem s) node_key 32"
    and "mapped (f_mem s) out LP2P_DELEGATION_BYTES"
  shows "sound {} (region out LP2P_DELEGATION_BYTES) s (lp2p_delegation_sign c seed node_key expires_ms out s)"
proof -
  have "length (to_bytes d) = LP2P_DELEGATION_BYTES" if "sign c sd k expires_ms = Some d" "length k = 32" for d sd k
    using that assms(1)
    by (auto simp: sign_def keys_sized_def Let_def to_bytes_def LP2P_DELEGATION_BYTES_def split: option.splits if_splits)
  then show ?thesis
    using assms unfolding lp2p_delegation_sign_def
    by (auto simp: ensure_def mapped_def or_invalid_def defined_def [of "load _ _ _"] dest!: length_ffi_key
        intro!: sound_intros sound_write split: if_splits option.splits)
qed

lemma key_from_seed_sound:
  assumes "keys_sized c" and "mapped (f_mem s) seed 32" and "mapped (f_mem s) out 32"
  shows "sound {} (region out 32) s (lp2p_key_from_seed c seed out s)"
proof -
  have "length k = 32" if "keypair_from_seed c sd = Some kp" "public_key c kp = Some k" for sd kp k
    using that assms(1) by (auto simp: keypair_from_seed_def public_key_def keys_sized_def split: public_key.splits)
  then show ?thesis
    using assms unfolding lp2p_key_from_seed_def
    by (auto simp: ensure_def mapped_def or_invalid_def defined_def [of "load _ _ _"]
        intro!: sound_intros sound_write split: if_splits option.splits)
qed

lemma delegation_verify_sound:
  assumes "mapped (f_mem s) deleg len" and "mapped (f_mem s) group_out 32" and "mapped (f_mem s) node_out 32"
  shows "sound {} (region group_out 32 \<union> region node_out 32) s
    (lp2p_delegation_verify c clock deleg len at_ms group_out node_out s)"
proof -
  let ?ws = "region group_out 32 \<union> region node_out 32"
  have "sound {} ?ws s (case write_opt group_out g (LP2P_OK, s) of Return r \<Rightarrow> write_opt node_out k r | other \<Rightarrow> other)"
    if "length g = 32" "length k = 32" for g k
  proof -
    have "sound {} ?ws s (write_opt group_out g (LP2P_OK, s))"
      using that assms by (intro sound_write_opt sound_intros) auto
    then show ?thesis
      using that assms by (auto simp: sound_def [of _ _ _ Undefined] intro!: sound_write_opt split: outcome.split)
  qed
  then show ?thesis
    using assms unfolding lp2p_delegation_verify_def
    by (auto simp: parse_ok_or_invalid_def or_invalid_def parse_ok_def Let_def dest!: to_bytes_parse
        simp: delegation_wf_def intro!: sound_intros split: option.splits sum.splits)
qed

lemma options_default_sound:
  assumes "mapped_typed (f_mem s) opt 272"
  shows "sound {} (region opt 272) s (lp2p_options_default e opt s)"
  using assms length_options_bytes [OF default_options_wf, of e] unfolding lp2p_options_default_def
  by (auto intro!: sound_intros sound_write_typed)

lemma shutdown_sound: "live_handle s node \<Longrightarrow> sound {node} {} s (lp2p_shutdown n turns node s)"
  by (auto simp: lp2p_shutdown_def live_handle_def sound_def split: option.split)

lemma topic_peers_sound:
  assumes "live_handle s node" and "mapped (f_mem s) key 32"
  shows "sound {node} {} s (lp2p_topic_peers n turns node key s)"
  using assms unfolding lp2p_topic_peers_def
  by (auto intro!: sound_intros split: prod.split option.split reply.split if_splits)

lemmas command_defs = lp2p_rpc_respond_def lp2p_rpc_reject_def lp2p_peer_set_class_def lp2p_limit_set_def
  lp2p_limit_set_bytes_def ffi_set_limit_def lp2p_announce_set_payload_def lp2p_topic_subscribe_def
  lp2p_topic_unsubscribe_def lp2p_topic_publish_def lp2p_dht_provide_def lp2p_dht_stop_providing_def
  lp2p_add_address_def

lemma every_call_sound:
  assumes "contract (n_endian n) c s" and "keys_sized (n_crypto n)"
  shows "call_sound n lb c s"
  using assms
proof (cases c)
  case (Start_call opt out box ms built evs)
  with assms(1) show ?thesis using start_sound by blast
next
  case (Poll_call node buf cap timeout_ms now sched)
  with assms(1) show ?thesis using poll_sound by blast
next
  case (Rpc_request node grp node_key protocol dat len timeout_ms request_id)
  with assms(1) show ?thesis using request_sound by blast
next
  case (Routing_sample node buf cap max_peers turns)
  with assms(1) show ?thesis using sample_sound by blast
next
  case (Stats_get node out)
  with assms(1) show ?thesis using stats_sound by blast
next
  case (Dht_find_providers node key query_id)
  with assms show ?thesis
    by (auto simp: lp2p_dht_find_providers_def call_handles_def intro!: sound_intros query_sound)
qed (use assms in \<open>auto simp: call_handles_def command_defs lp2p_dht_bootstrap_def lp2p_dht_random_walk_def Let_def
    intro!: sound_intros query_sound options_default_sound shutdown_sound topic_peers_sound key_from_seed_sound
      delegation_sign_sound delegation_verify_sound split: option.split\<close>)

section \<open>Properties\<close>

text \<open>
  C2: The C interface is memory safe. When the caller keeps the contract of the function it calls (live handles, readable and
  writable memory where the \<open># Safety\<close> comments ask for it, aligned where a typed pointer is written), the call has no undefined
  behaviour: it never reads or writes an address the caller did not map. It maps and unmaps nothing, writes only into its out
  parameters or buffer, and changes no handle but its own.
\<close>

theorem calls_are_memory_safe:
  assumes "contract (n_endian n) c s" and "keys_sized (n_crypto n)"
  shows "run_call n lb c s \<noteq> Undefined \<and>
    (\<forall>st s'. run_call n lb c s = Return (st, s') \<longrightarrow>
       dom (f_mem s') = dom (f_mem s) \<and>
       (\<forall>a. a \<notin> writes c \<longrightarrow> f_mem s' a = f_mem s a) \<and>
       (\<forall>p. handle_of c \<noteq> Some p \<longrightarrow> f_handles s' p = f_handles s p))"
  using every_call_sound [OF assms, of lb] unfolding sound_def call_handles_def by auto

lemma demo_keys_sized: "keys_sized (n_crypto demo_net)"
  by (simp add: keys_sized_def demo_crypto_def)

definition demo_request :: "nat ffi_call" where
  "demo_request = Rpc_request 9000 64 0 0 64 1 0 6152"

lemma demo_request_contract: "contract Little demo_request demo_ffi"
  by (simp add: demo_request_def demo_live mapped_typed_def mapped_def demo_group demo_payload
      load_prefix [OF demo_room] aligned_def del: load.simps)

theorem calls_are_memory_safe_witness: "run_call demo_net demo_libs demo_request demo_ffi \<noteq> Undefined"
  using calls_are_memory_safe [of demo_net demo_request demo_ffi demo_libs] demo_request_contract demo_keys_sized
  by (simp add: demo_net_def)

section \<open>Refusals\<close>

text \<open>A result that is not a refusal, or leaves everything as it was.\<close>

definition refuses_clean :: "'sw ffi \<Rightarrow> 'sw result \<Rightarrow> bool" where
  "refuses_clean s r \<longleftrightarrow> (\<forall>s'. r = Return (LP2P_ERR_INVALID_ARGUMENT, s') \<longrightarrow> s' = s)"

named_theorems clean_intros \<open>steps that leave nothing behind when they refuse\<close>

lemma clean_same [clean_intros]: "refuses_clean s (Return (st, s))" "refuses_clean s Blocked" "refuses_clean s Undefined"
  by (simp_all add: refuses_clean_def)

lemma clean_status [clean_intros]: "st \<noteq> LP2P_ERR_INVALID_ARGUMENT \<Longrightarrow> refuses_clean s (Return (st, s'))"
  by (simp add: refuses_clean_def)

lemma clean_attempt [clean_intros]:
  "(\<And>x. r = Some (Inr x) \<Longrightarrow> refuses_clean s (f x)) \<Longrightarrow> refuses_clean s (attempt s r f)"
  by (auto simp: attempt_def clean_same split: option.split sum.split)

lemma send_status: "send c a = (st, a') \<Longrightarrow> st \<noteq> LP2P_ERR_INVALID_ARGUMENT"
  by (auto simp: send_def status_defs split: if_splits)

lemma clean_send [clean_intros]: "refuses_clean s (Return (send_to p h c s))"
  by (auto simp: send_to_def clean_status dest: send_status split: prod.split)

lemma send_to_status: "fst (send_to p h c s) \<noteq> LP2P_ERR_INVALID_ARGUMENT"
  by (auto simp: send_to_def dest: send_status split: prod.split)

lemma clean_write [clean_intros]: "fst r \<noteq> LP2P_ERR_INVALID_ARGUMENT \<Longrightarrow> refuses_clean s (write_out p bs r)"
  "fst r \<noteq> LP2P_ERR_INVALID_ARGUMENT \<Longrightarrow> refuses_clean s (write_typed p bs r)"
  by (auto simp: write_typed_def write_out_def refuses_clean_def split: option.splits if_splits)

lemma clean_query [clean_intros]: "refuses_clean s (ffi_query e node query_id mk s)"
  unfolding ffi_query_def
  by (auto simp: Let_def send_to_status status_defs intro!: clean_intros split: prod.split)

lemma as_i32_nonneg: "k < 2 ^ 31 \<Longrightarrow> as_i32 k \<noteq> LP2P_ERR_INVALID_ARGUMENT"
  by (simp add: as_i32_small status_defs)

lemma copy_records_written:
  "copy_records rs k written buf = Inr (rs', k', written', buf') \<Longrightarrow> written \<le> length buf \<Longrightarrow> written' \<le> length buf"
  by (induction rs k written buf rule: copy_records.induct) (auto simp: Let_def split: if_splits)

lemma copy_records_status: "copy_records rs k written buf = Inl st \<Longrightarrow> st = LP2P_ERR_BUFFER_TOO_SMALL"
  by (induction rs k written buf rule: copy_records.induct) (auto simp: Let_def split: if_splits)

lemma poll_locked_status:
  assumes "poll_locked e buf q = (st, buf', q')" and "length buf < 2 ^ 31"
  shows "st = LP2P_ERR_BUFFER_TOO_SMALL \<or> q_closed q = Some st \<or> (0 \<le> st \<and> st \<le> int (length buf))"
proof -
  have small: "0 \<le> as_i32 w' \<and> as_i32 w' \<le> int (length buf)"
    if "copy_records rs k w b = Inr (rs', k', w', b')" "w \<le> length b" "length b = length buf" for rs k w b rs' k' w' b'
    using copy_records_written [OF that(1,2)] that(3) assms(2) by (auto simp: as_i32_small)
  let ?ov = "event_build e ((event_new LP2P_EV_OVERFLOW)\<lparr>ev_id := q_dropped q\<rparr>)"
  show ?thesis
  proof (cases "q_dropped q > 0")
    case True
    with assms(1) small [of "q_records q" "q_bytes q" "length ?ov" "write_at buf 0 ?ov"] show ?thesis
      by (auto simp: poll_locked_def Let_def dest: copy_records_status split: if_splits sum.splits option.splits)
  next
    case False
    with assms(1) small [of "q_records q" "q_bytes q" 0 buf] show ?thesis
      by (auto simp: poll_locked_def Let_def dest: copy_records_status split: if_splits sum.splits option.splits)
  qed
qed

lemma copy_sample_written:
  "copy_sample rs buf cap written m = Some (k, m') \<Longrightarrow> written \<le> cap \<Longrightarrow> k \<le> cap"
  by (induction rs arbitrary: written m) (auto split: if_splits option.splits)

lemma poll_quiet_returned:
  assumes "poll e buf timeout now sched q = Returned st buf' q'" and "\<forall>op \<in> set sched. snd op = []"
  shows "(poll_ready q \<and> poll_locked e buf q = (st, buf', q')) \<or> (\<not> poll_ready q \<and> st = 0 \<and> buf' = buf \<and> q' = q)"
  using assms unfolding poll_def
proof (induction sched)
  case (Cons x sched)
  then show ?case by (cases x) (auto simp: queue_run_def split: if_splits prod.splits)
qed (auto split: if_splits prod.splits)

text \<open>
  The two functions that answer with a number of bytes: a buffer whose length fits the result type, a queue that was not closed
  with another status, and nobody else at the queue meanwhile.
\<close>

fun counts_ok :: "'sw ffi_call \<Rightarrow> 'sw ffi \<Rightarrow> bool" where
  "counts_ok (Poll_call node buf cap timeout_ms now sched) s \<longleftrightarrow> cap < 2 ^ 31 \<and> list_all (\<lambda>op. snd op = []) sched \<and>
     (case f_handles s node of
        None \<Rightarrow> True
      | Some h \<Rightarrow> q_closed (node_queue (l_node h)) \<noteq> Some LP2P_ERR_INVALID_ARGUMENT)"
| "counts_ok (Routing_sample node buf cap max_peers turns) s \<longleftrightarrow> cap < 2 ^ 31"
| "counts_ok c s \<longleftrightarrow> True"

lemma clean_poll:
  assumes "counts_ok (Poll_call node buf cap timeout_ms now sched) s"
  shows "refuses_clean s (lp2p_poll e node buf cap timeout_ms now sched s)"
proof -
  have "st \<noteq> LP2P_ERR_INVALID_ARGUMENT"
    if "handle s node = Some (Inr h)" "load (f_mem s) buf cap = Some b"
      "poll e b timeout now sched (node_queue (l_node h)) = Returned st b' q'" for h b b' st q' timeout
  proof -
    have "q_closed (node_queue (l_node h)) \<noteq> Some LP2P_ERR_INVALID_ARGUMENT" "length b < 2 ^ 31"
      using that(1,2) assms by (auto simp: handle_def length_load split: if_splits)
    with poll_quiet_returned [OF that(3)] assms show ?thesis
      by (auto simp: list_all_iff status_defs dest: poll_locked_status)
  qed
  then show ?thesis
    unfolding lp2p_poll_def by (auto intro!: clean_intros split: option.split poll_result.split)
qed

lemma clean_sample:
  assumes "cap < 2 ^ 31"
  shows "refuses_clean s (lp2p_routing_sample n turns node buf cap max_peers s)"
proof -
  have "as_i32 k \<noteq> LP2P_ERR_INVALID_ARGUMENT" if "copy_sample rs buf cap 0 m = Some (k, m')" for rs m k m'
    using copy_sample_written [OF that] assms by (intro as_i32_nonneg) simp
  then show ?thesis
    unfolding lp2p_routing_sample_def
    by (auto intro!: clean_intros simp: status_defs dest: send_status split: option.split prod.split reply.split)
qed

text \<open>The functions that refuse a null handle before anything else, and those that look at a key first.\<close>

fun null_handle :: "'sw ffi_call \<Rightarrow> bool" where
  "null_handle (Start_call opt out box ms built evs) \<longleftrightarrow> opt = 0 \<or> out = 0"
| "null_handle c \<longleftrightarrow> handle_of c = Some 0"

lemma handle_null [simp]: "handle s 0 = Some (Inl LP2P_ERR_INVALID_ARGUMENT)"
  by (simp add: handle_def)

lemma ffi_key_cases:
  assumes "mapped m p 32"
  obtains "ffi_key m p = Some (Inl LP2P_ERR_INVALID_ARGUMENT)" | k where "ffi_key m p = Some (Inr k)"
  using assms by (cases "p = 0") (auto simp: mapped_def ffi_key_def)

lemma null_refused:
  assumes "contract e c s" and "null_handle c"
  shows "run_call n lb c s = Return (LP2P_ERR_INVALID_ARGUMENT, s)"
  using assms
proof (cases c)
  case (Dht_find_providers node key query_id)
  with assms have "node = 0" "mapped (f_mem s) key 32" by simp_all
  with Dht_find_providers show ?thesis
    by (elim ffi_key_cases) (simp_all add: lp2p_dht_find_providers_def ffi_query_def)
qed (simp_all add: command_defs lp2p_start_def lp2p_shutdown_def lp2p_poll_def lp2p_rpc_request_def lp2p_topic_peers_def
    lp2p_dht_bootstrap_def lp2p_dht_random_walk_def ffi_query_def lp2p_routing_sample_def lp2p_stats_get_def)

lemma clean_topic_peers [clean_intros]: "refuses_clean s (lp2p_topic_peers n turns node key s)"
  unfolding lp2p_topic_peers_def
  by (auto intro!: clean_intros simp: status_defs dest: send_status split: option.split prod.split reply.split)

lemma clean_request [clean_intros]:
  "refuses_clean s (lp2p_rpc_request n node grp node_key protocol dat len timeout_ms request_id s)"
  unfolding lp2p_rpc_request_def
  by (auto simp: Let_def send_to_status status_defs intro!: clean_intros split: prod.split)

lemma clean_verify [clean_intros]:
  "refuses_clean s (lp2p_delegation_verify c clock deleg len at_ms group_out node_out s)"
  unfolding lp2p_delegation_verify_def
  by (auto simp: Let_def write_opt_def write_out_def refuses_clean_def [of _ "write_opt _ _ _"] status_defs
      intro!: clean_intros split: sum.split outcome.split option.split)

lemma refusals_clean:
  assumes "counts_ok c s"
  shows "refuses_clean s (run_call n lb c s)"
  using assms
proof (cases c)
  case (Poll_call node buf cap timeout_ms now sched)
  with assms clean_poll show ?thesis by (simp del: counts_ok.simps)
qed (use assms in \<open>auto simp: command_defs lp2p_options_default_def lp2p_start_def lp2p_shutdown_def lp2p_dht_find_providers_def
    lp2p_dht_bootstrap_def lp2p_dht_random_walk_def lp2p_stats_get_def lp2p_key_from_seed_def lp2p_delegation_sign_def
    Let_def status_defs intro!: clean_intros clean_sample split: option.split sum.split\<close>)

text \<open>
  C11: Refusals. A call without a handle (or \<open>lp2p_start\<close> without options or without a place for the handle) is refused with
  \<open>LP2P_ERR_INVALID_ARGUMENT\<close>. Whenever any function answers \<open>LP2P_ERR_INVALID_ARGUMENT\<close>, for whatever reason, it has done nothing:
  memory, handles, nodes, their queues and their identifiers are as before.
\<close>

theorem refused_call_changes_nothing:
  assumes "contract (n_endian n) c s" and "counts_ok c s"
  shows "(null_handle c \<longrightarrow> run_call n lb c s = Return (LP2P_ERR_INVALID_ARGUMENT, s)) \<and>
    (run_call n lb c s = Return (LP2P_ERR_INVALID_ARGUMENT, s') \<longrightarrow> s' = s)"
  using null_refused [OF assms(1)] refusals_clean [OF assms(2), of n lb] unfolding refuses_clean_def by blast

text \<open>A call for protocol 7 of a node that serves one.\<close>

definition demo_bad_request :: "nat ffi_call" where
  "demo_bad_request = Rpc_request 9000 64 0 7 64 1 0 6152"

theorem refused_call_changes_nothing_witness:
  "\<exists>s'. run_call demo_net demo_libs demo_bad_request demo_ffi = Return (LP2P_ERR_INVALID_ARGUMENT, s') \<and> s' = demo_ffi"
proof -
  have "contract (n_endian demo_net) demo_bad_request demo_ffi"
    by (simp add: demo_bad_request_def demo_live mapped_typed_def mapped_def demo_group demo_payload
        load_prefix [OF demo_room] aligned_def del: load.simps)
  then have "s' = demo_ffi"
    if "run_call demo_net demo_libs demo_bad_request demo_ffi = Return (LP2P_ERR_INVALID_ARGUMENT, s')" for s'
    using refused_call_changes_nothing [of demo_net demo_bad_request demo_ffi demo_libs s'] that
    by (simp add: demo_bad_request_def)
  moreover have "\<exists>s'. run_call demo_net demo_libs demo_bad_request demo_ffi = Return (LP2P_ERR_INVALID_ARGUMENT, s')"
    by (simp add: demo_bad_request_def lp2p_rpc_request_def ffi_key_def ffi_bytes_def target_of_def demo_live demo_group
        demo_payload lp2p_of_def demo_config_def del: load.simps)
  ultimately show ?thesis by blast
qed

end
