(* ===== verification/EventShapes.thy ===== *)
theory EventShapes
  imports Serve Reader
begin

text \<open>
  What stands in the event queue of a node: whole records of well-formed events, nothing else. A record's keys have their 32
  bytes and a topic message starts with the 32 bytes of its topic, so that a reader of polled bytes can rely on both.
  \<open>sized\<close> is the invariant behind it; keys are lists in the model, so it also keeps the sizes of the arrays the node stores.
\<close>

section \<open>The invariant\<close>

definition shaped :: "event \<Rightarrow> bool" where
  "shaped ev \<longleftrightarrow> event_wf (fst ev) \<and> (ev_type (fst ev) = LP2P_EV_TOPIC_MESSAGE \<longrightarrow> 32 \<le> length (snd ev))"

text \<open>The arrays of the key types: an ed25519 key in a peer id has 32 bytes.\<close>

definition peer_keys_sized :: "crypto \<Rightarrow> bool" where
  "peer_keys_sized c \<longleftrightarrow> (\<forall>bs k. decode_protobuf c bs = Some (Ed25519 k) \<longrightarrow> length k = 32)"

definition sized_state :: "endian \<Rightarrow> state \<Rightarrow> bool" where
  "sized_state e s \<longleftrightarrow>
     (\<forall>cid c. hm_get (calls s) cid = Some c \<longrightarrow> length (call_group c) = 32) \<and>
     (\<forall>t k. hm_get (topic_keys s) t = Some k \<longrightarrow> length k = 32) \<and>
     (\<forall>r \<in> set (q_records (sh_events (shared s))). \<exists>ev. shaped ev \<and> r = event_record e ev)"

definition sized :: "'sw net \<Rightarrow> 'sw world \<Rightarrow> bool" where
  "sized n w \<longleftrightarrow> sized_state (n_endian n) (w_state w)"

definition command_sized :: "command \<Rightarrow> bool" where
  "command_sized c \<longleftrightarrow> (case c of
     Rpc cid grp node protocol payload timeout \<Rightarrow> length grp = 32
   | TopicSubscribe key \<Rightarrow> length key = 32
   | _ \<Rightarrow> True)"

named_theorems sized_intros \<open>steps that keep the queue well-formed\<close>

section \<open>Elementary steps\<close>

lemma sized_group: "sized n w \<Longrightarrow> hm_get (calls (w_state w)) cid = Some c \<Longrightarrow> length (call_group c) = 32"
  by (simp add: sized_def sized_state_def)

lemma sized_topic: "sized n w \<Longrightarrow> hm_get (topic_keys (w_state w)) t = Some k \<Longrightarrow> length k = 32"
  by (auto simp: sized_def sized_state_def)

lemma sized_records: "sized n w \<Longrightarrow> r \<in> set (q_records (sh_events (shared (w_state w)))) \<Longrightarrow>
    \<exists>ev. shaped ev \<and> r = event_record (n_endian n) ev"
  by (simp add: sized_def sized_state_def)

lemma sized_net [sized_intros]: "sized n w \<Longrightarrow> sized n (w\<lparr>w_net := x\<rparr>)"
  by (simp add: sized_def)

lemma sized_book [sized_intros]: "sized n w \<Longrightarrow> sized n (w\<lparr>w_book := b\<rparr>)"
  by (simp add: sized_def)

lemma sized_do_act [sized_intros]: "sized n w \<Longrightarrow> sized n (do_act n a w)"
  by (simp add: sized_def)

lemma sized_state_update [sized_intros]:
  "(\<And>s. calls (f s) = calls s \<and> topic_keys (f s) = topic_keys s \<and> sh_events (shared (f s)) = sh_events (shared s)) \<Longrightarrow>
   sized n w \<Longrightarrow> sized n (w_state_update f w)"
  by (simp add: sized_def sized_state_def)

lemma push_records: "r' \<in> set (q_records (push r q)) \<Longrightarrow> r' = r \<or> r' \<in> set (q_records q)"
  by (auto simp: push_def split: if_splits)

lemma sized_emit [sized_intros]: "shaped (h, d) \<Longrightarrow> sized n w \<Longrightarrow> sized n (emit n h d w)"
  unfolding sized_def sized_state_def emit_simps
  by (auto simp: event_record_def dest!: push_records)

lemma sized_emit_event [sized_intros]: "shaped ev \<Longrightarrow> sized n w \<Longrightarrow> sized n (emit_event n ev w)"
  unfolding emit_event_def by (rule sized_emit) simp_all

lemma sized_put_call [sized_intros]: "length (call_group c) = 32 \<Longrightarrow> sized n w \<Longrightarrow> sized n (put_call cid c w)"
  by (auto simp: put_call_def sized_def sized_state_def)

lemma sized_drop_call [sized_intros]: "sized n w \<Longrightarrow> sized n (drop_call cid w)"
  by (auto simp: drop_call_def sized_def sized_state_def split: if_splits)

lemma sized_fold: "(\<And>a w. sized n w \<Longrightarrow> sized n (f a w)) \<Longrightarrow> sized n w \<Longrightarrow> sized n (fold f xs w)"
  by (induction xs arbitrary: w) auto

section \<open>Events\<close>

lemma shaped_plain [sized_intros]:
  "event_wf h \<Longrightarrow> ev_type h \<noteq> LP2P_EV_TOPIC_MESSAGE \<Longrightarrow> shaped (h, d)"
  by (simp add: shaped_def)

lemma peer_key_sized: "peer_keys_sized (n_crypto n) \<Longrightarrow> length (peer_key n p) = 32"
  by (auto simp: peer_key_def key_of_def peer_keys_sized_def split: option.splits if_splits public_key.splits)

lemma parse_sized: "parse bs = Inr d \<Longrightarrow> length (d_group d) = 32"
  by (auto simp: parse_def Let_def slice_def LP2P_DELEGATION_BYTES_def split: if_splits)

lemma checked_sender_sized:
  "peer_keys_sized (n_crypto n) \<Longrightarrow> checked_sender n p deleg ms = Some (node, grp) \<Longrightarrow> length node = 32 \<and> length grp = 32"
  by (auto simp: checked_sender_iff key_of_def peer_keys_sized_def dest: parse_sized
      split: option.splits if_splits public_key.splits)

lemma checked_message_sized:
  "peer_keys_sized (n_crypto n) \<Longrightarrow> checked_message n m ms = Some (source, node, grp, payload) \<Longrightarrow>
   length node = 32 \<and> length grp = 32"
  by (auto simp: checked_message_def dest: checked_sender_sized split: option.splits)

lemma event_wf_updates [simp]:
  "event_wf (h\<lparr>ev_id := a\<rparr>) = event_wf h" "event_wf (h\<lparr>ev_protocol := b\<rparr>) = event_wf h"
  "event_wf (h\<lparr>ev_reason := b\<rparr>) = event_wf h" "event_wf (h\<lparr>ev_flags := b\<rparr>) = event_wf h"
  by (simp_all add: event_wf_def)

lemma length_event_new [simp]: "length (ev_group (event_new k)) = 32" "length (ev_node (event_new k)) = 32"
  using event_wf_new [of k] by (simp_all add: event_wf_def)

lemma event_wf_made:
  "length (call_group c) = 32 \<Longrightarrow> event_wf (rpc_failed cid c r)"
  "length (call_group c) = 32 \<Longrightarrow> length node = 32 \<Longrightarrow> event_wf (rpc_response cid c node)"
  "length grp = 32 \<Longrightarrow> length node = 32 \<Longrightarrow> event_wf (limited_event grp node p r)"
  by (simp_all add: event_wf_def rpc_failed_def rpc_response_def limited_event_def event_new_def)

lemma shaped_made [sized_intros]:
  "length (call_group c) = 32 \<Longrightarrow> shaped (rpc_failed cid c r, d)"
  "length (call_group c) = 32 \<Longrightarrow> length node = 32 \<Longrightarrow> shaped (rpc_response cid c node, d)"
  "length grp = 32 \<Longrightarrow> length node = 32 \<Longrightarrow> shaped (limited_event grp node p r, d)"
  by (simp_all add: shaped_def event_wf_made event_type_defs)

section \<open>Handlers\<close>

lemma sized_announce [sized_intros]: "sized n w \<Longrightarrow> sized n (announce n w)"
  unfolding announce_def by (auto simp: Let_def split: option.splits prod.splits intro!: sized_intros)

lemma sized_topic_lookup [sized_intros]: "sized n w \<Longrightarrow> sized n (topic_lookup n key w)"
  unfolding topic_lookup_def by (auto simp: Let_def split: option.splits prod.splits intro!: sized_intros)

lemma sized_topic_count [sized_intros]: "sized n w \<Longrightarrow> sized n (store_topic_count w)"
  unfolding store_topic_count_def by (rule sized_intros) simp_all

lemma sized_topic_keys:
  "length key = 32 \<Longrightarrow> sized n w \<Longrightarrow> sized n (w_state_update (topics_update f \<circ> topic_keys_update (hm_insert t key)) w)"
  "sized n w \<Longrightarrow> sized n (w_state_update (topic_keys_update (hm_remove t)) w)"
  by (auto simp: sized_def sized_state_def split: if_splits)

lemma sized_topic_subscribe [sized_intros]: "length key = 32 \<Longrightarrow> sized n w \<Longrightarrow> sized n (topic_subscribe n key w)"
  unfolding topic_subscribe_def
  by (auto simp: Let_def split: option.splits prod.splits
      intro!: sized_topic_lookup sized_do_act sized_topic_count sized_topic_keys sized_net)

lemma sized_topic_unsubscribe [sized_intros]: "sized n w \<Longrightarrow> sized n (topic_unsubscribe n key w)"
  unfolding topic_unsubscribe_def
  by (auto simp: Let_def split: option.splits
      intro!: sized_do_act sized_topic_count sized_topic_keys sized_state_update)

lemma sized_dial_loop [sized_intros]: "sized n w \<Longrightarrow> sized n (dial_loop n k ps w)"
  by (induction ps arbitrary: k w) (auto split: prod.splits intro!: sized_intros)

lemma sized_topic_publish [sized_intros]: "sized n w \<Longrightarrow> sized n (topic_publish n key d w)"
  unfolding topic_publish_def by (auto simp: Let_def split: option.splits prod.splits intro!: sized_intros)

lemma sized_report_limited [sized_intros]:
  "length grp = 32 \<Longrightarrow> length node = 32 \<Longrightarrow> sized n w \<Longrightarrow> sized n (report_limited n grp node p r now w)"
  unfolding report_limited_def by (auto simp: Let_def split: prod.splits intro!: sized_intros)

lemma sized_topic_message:
  assumes "peer_keys_sized (n_crypto n)" and "sized n w"
  shows "sized n (snd (topic_message n p m w))"
proof -
  have "shaped ((event_new LP2P_EV_TOPIC_MESSAGE)\<lparr>ev_group := grp, ev_node := node\<rparr>, key @ payload)"
    if "hm_get (topic_keys (w_state w)) (gm_topic m) = Some key"
      "checked_message n m ms = Some (source, node, grp, payload)" for key ms source node grp payload
    using that by (auto simp: shaped_def event_wf_def dest!: sized_topic [OF assms(2)] checked_message_sized [OF assms(1)])
  with assms show ?thesis
    unfolding topic_message_def
    by (auto simp: Let_def split: option.splits prod.splits sum.splits
        intro!: sized_emit sized_report_limited sized_state_update dest: checked_message_sized)
qed

lemma sized_announcement:
  assumes "peer_keys_sized (n_crypto n)" and "sized n w"
  shows "sized n (snd (announcement_message n m w))"
  using assms unfolding announcement_message_def
  by (auto simp: Let_def shaped_def event_wf_def event_type_defs split: option.splits prod.splits sum.splits
      intro!: sized_intros dest: checked_message_sized)

lemma sized_gossipsub [sized_intros]:
  "peer_keys_sized (n_crypto n) \<Longrightarrow> sized n w \<Longrightarrow> sized n (gossipsub_event n e w)"
  by (cases e) (auto simp: case_prod_beta intro!: sized_intros sized_topic_message sized_announcement)

lemma sized_reserve_loop: "sized n w \<Longrightarrow> sized n (reserve_loop n now ps w)"
proof (induction ps arbitrary: w)
  case (Cons pa ps)
  obtain p a where pa: "pa = (p, a)" by fastforce
  obtain l x where "listen_on n (without_peer a @ [P2p p, P2pCircuit]) (w_net w) = (l, x)" by fastforce
  with Cons show ?case by (cases l) (simp_all add: pa sized_intros)
qed simp

lemma sized_reserve [sized_intros]: "sized n w \<Longrightarrow> sized n (reserve n w)"
  unfolding reserve_def by (auto simp: Let_def intro!: sized_reserve_loop)

lemma sized_acts [sized_intros]: "sized n w \<Longrightarrow> sized n (fold (\<lambda>a. do_act n (f a)) xs w)"
  by (rule sized_fold) (intro sized_intros)

lemma sized_go [sized_intros]:
  "sized n w \<Longrightarrow> sized n (go_private n w)" "sized n w \<Longrightarrow> sized n (go_public n w)"
  unfolding go_private_def go_public_def Let_def case_prod_beta by (intro sized_intros; simp)+

lemma sized_relay [sized_intros]:
  "sized n w \<Longrightarrow> sized n (relay_lost n l w)"
  "sized n w \<Longrightarrow> sized n (learn_address n b p a w)"
  "sized n w \<Longrightarrow> sized n (book_add_all p as w)"
  "sized n w \<Longrightarrow> sized n (provide n w)"
  unfolding relay_lost_def learn_address_def book_add_all_def provide_def Let_def
  by (auto intro!: sized_fold sized_intros)

lemma sized_identified [sized_intros]: "sized n w \<Longrightarrow> sized n (identified n p info w)"
  unfolding identified_def by (auto simp: Let_def split: option.splits intro!: sized_intros sized_fold)

lemma sized_remember [sized_intros]: "sized n w \<Longrightarrow> sized n (remember_failure n p w)"
  unfolding remember_failure_def Let_def by (intro sized_intros) simp_all

lemma sized_inbound_done [sized_intros]: "sized n w \<Longrightarrow> sized n (inbound_done r w)"
  unfolding inbound_done_def by (auto split: option.splits intro!: sized_intros)

lemma sized_nat_status [sized_intros]: "sized n w \<Longrightarrow> sized n (nat_status n v w)"
  unfolding nat_status_def by (auto simp: Let_def event_type_defs split: option.splits intro!: sized_intros)

lemma sized_advance_loop:
  "length (call_group c) = 32 \<Longrightarrow> sized n w \<Longrightarrow> sized n (snd (advance_loop n cid ps c w))"
  by (induction n cid ps c w rule: advance_loop.induct) (auto split: prod.splits intro!: sized_intros)

lemma sized_advance [sized_intros]:
  assumes "sized n w"
  shows "sized n (advance n cid w)"
proof (cases "hm_get (calls (w_state w)) cid")
  case (Some c)
  note grp = sized_group [OF assms Some]
  obtain b w' where l: "advance_loop n cid (candidates c) c w = (b, w')" by fastforce
  from sized_advance_loop [OF grp assms, of cid "candidates c"] l have "sized n w'" by simp
  with Some l grp assms show ?thesis
    by (cases b) (auto simp: advance_def intro!: sized_intros)
qed (simp add: advance_def assms)

lemma sized_outbound_failed [sized_intros]: "sized n w \<Longrightarrow> sized n (outbound_failed n p r e w)"
  unfolding outbound_failed_def
  by (auto simp: Let_def split: option.splits intro!: sized_intros)
    (auto simp: remember_failure_def Let_def dest: sized_group)

lemma enqueue_group [simp]: "call_group (enqueue now l f p c) = call_group c"
  by (simp add: enqueue_def Let_def)

lemma enqueue_fold_group [simp]: "call_group (fold (enqueue now l f) ps c) = call_group c"
  by (induction ps arbitrary: c) simp_all

lemma sized_call_providers [sized_intros]: "sized n w \<Longrightarrow> sized n (call_providers n q r l w)"
  unfolding call_providers_def
  by (auto simp: Let_def split: option.splits get_providers_result.splits intro!: sized_intros dest: sized_group)

lemma sized_resolution_done [sized_intros]: "sized n w \<Longrightarrow> sized n (resolution_done n cid w)"
  unfolding resolution_done_def by (auto split: option.splits intro!: sized_intros dest: sized_group)

lemma sized_forget: "sized n w \<Longrightarrow>
    sized n (w_state_update (last_success_update f \<circ> failed_update g \<circ> calls_update (hm_remove cid) \<circ> outbound_update h) w)"
  by (auto simp: sized_def sized_state_def split: if_splits)

lemma sized_response [sized_intros]:
  assumes "peer_keys_sized (n_crypto n)" and "sized n w"
  shows "sized n (response n p r f w)"
proof -
  have "length node = 32" if "response_ok n p grp f ms = Some (node, d)" for grp ms node d
    using that by (auto simp: response_ok_def dest: checked_sender_sized [OF assms(1)] split: option.splits if_splits)
  with assms(2) show ?thesis
    unfolding response_def
    by (auto simp: Let_def split: option.splits
        intro!: sized_advance sized_remember sized_put_call sized_emit sized_forget shaped_made sized_state_update
        dest: sized_group)
qed

lemma sized_start_call:
  "length grp = 32 \<Longrightarrow> sized n w \<Longrightarrow> start_call n cid grp node p d t w = Some w' \<Longrightarrow> sized n w'"
  unfolding start_call_def
  by (auto simp: Let_def call_new_def split: option.splits if_splits prod.splits intro!: sized_intros)

lemma sized_expire [sized_intros]: "sized n w \<Longrightarrow> sized n (expire_calls n now w)"
  unfolding expire_calls_def
  by (rule sized_fold) (auto simp: expire_one_def split: option.splits intro!: sized_intros dest: sized_group)

lemma shaped_discovered [sized_intros]:
  "peer_keys_sized (n_crypto n) \<Longrightarrow> shaped (discovered n i p as)" "shaped (dht_result i r)"
  using peer_key_sized [of n p]
  by (simp_all add: shaped_def discovered_def dht_result_def event_wf_def event_type_defs event_new_def)

lemma sized_kad [sized_intros]: "peer_keys_sized (n_crypto n) \<Longrightarrow> sized n w \<Longrightarrow> sized n (kad_event n ev w)"
  by (cases ev) (auto simp: get_providers_progress_def get_closest_peers_progress_def dial_topic_members_def Let_def
      split: option.splits get_providers_result.splits intro!: sized_intros sized_fold)

lemma sized_inbound_request [sized_intros]:
  "peer_keys_sized (n_crypto n) \<Longrightarrow> sized n w \<Longrightarrow> sized n (inbound_request n p c r f ch w)"
  unfolding inbound_request_def
  by (auto simp: Let_def event_wf_def event_type_defs split: option.splits prod.splits sum.splits
      intro!: sized_intros dest: checked_sender_sized)

lemma sized_rpc [sized_intros]: "peer_keys_sized (n_crypto n) \<Longrightarrow> sized n w \<Longrightarrow> sized n (rpc_event n ev w)"
  by (cases ev) (auto intro!: sized_intros)

lemma sized_swarm: "peer_keys_sized (n_crypto n) \<Longrightarrow> sized n w \<Longrightarrow> sized n (swarm_event n ev w)"
  by (cases ev) (auto simp: hole_punch_def new_listen_addr_def connection_established_def connection_closed_def
      event_wf_def event_type_defs peer_key_sized Let_def split: option.splits sum.splits intro!: sized_intros)

lemma sized_command:
  "peer_keys_sized (n_crypto n) \<Longrightarrow> command_sized c \<Longrightarrow> sized n w \<Longrightarrow> command n c w = Some (r, w') \<Longrightarrow> sized n w'"
  by (cases c) (auto simp: command_sized_def routing_sample_def Let_def split: option.splits prod.splits if_splits
      intro!: sized_intros intro: sized_start_call)

lemma sized_tick: "sized n w \<Longrightarrow> sized n (tick n w)"
  unfolding tick_def Let_def store_counts_def provide_if_due_def sweep_limits_def
  by (auto intro!: sized_intros sized_fold)

section \<open>Turns and polls\<close>

definition node_sized :: "'sw net \<Rightarrow> 'sw node \<Rightarrow> bool" where
  "node_sized n a \<longleftrightarrow> sized n (n_world a) \<and> list_all command_sized (n_commands a)"

lemma sized_arrive: "sized n w \<Longrightarrow> sized n (arrive m w)"
  by (simp add: arrive_def sized_def)

lemma sized_event:
  assumes "peer_keys_sized (n_crypto n)" and "sized n w" and "\<And>c. inp = Receive (Some c) \<Longrightarrow> command_sized c"
  shows "sized n (result_world (run_turn n inp w))"
  using assms
  by (cases "(n, inp, w)" rule: run_turn.cases)
    (auto simp: result_world_def split: option.splits intro: sized_swarm sized_tick sized_command)

lemma sized_end: "sized n (result_world r) \<Longrightarrow> r \<noteq> Running w \<Longrightarrow> sized n (run_thread_end r)"
  by (cases r) (auto simp: run_thread_end_def result_world_def shut_events_def close_def sized_def sized_state_def
      split: option.splits)

lemma sized_node_event:
  assumes "peer_keys_sized (n_crypto n)" and "sized n w" and "\<And>c. inp = Receive (Some c) \<Longrightarrow> command_sized c"
  shows "sized n (n_world (node_event n inp w a))"
proof -
  have "sized n (result_world (run_turn n inp w))" using assms by (rule sized_event)
  then show ?thesis
    using sized_end [of n "run_turn n inp w"]
    by (cases "run_turn n inp w") (auto simp: node_event_def node_end_def result_world_def)
qed

lemma node_sized_turn:
  assumes "peer_keys_sized (n_crypto n)" and "node_sized n a"
  shows "node_sized n (snd (node_turn n t a))"
proof -
  note world = sized_arrive [of n "n_world a" "fst t"]
  have "sized n (n_world (node_event n (Receive (Some c)) (arrive (fst t) (n_world a)) b))" if "command_sized c" for c b
    using assms that world by (intro sized_node_event) (auto simp: node_sized_def)
  moreover have "sized n (n_world (node_event n inp (arrive (fst t) (n_world a)) b))" if "\<forall>c. inp \<noteq> Receive c" for inp b
    using assms that world by (intro sized_node_event) (auto simp: node_sized_def)
  ultimately show ?thesis
    using assms(2) by (auto simp: node_turn_def node_sized_def Let_def split: input.split list.split)
qed

lemma node_sized_turns:
  "peer_keys_sized (n_crypto n) \<Longrightarrow> node_sized n a \<Longrightarrow> node_sized n (snd (await_reply n ts k a))"
proof (induction ts arbitrary: k a)
  case (Cons t ts)
  from node_sized_turn [OF Cons.prems, of t] Cons.IH [OF Cons.prems(1)] show ?case
    by (cases "node_turn n t a") (auto split: option.split)
qed simp

lemma node_sized_send: "node_sized n a \<Longrightarrow> command_sized c \<Longrightarrow> send c a = (st, a') \<Longrightarrow> node_sized n a'"
  by (auto simp: send_def node_sized_def split: if_splits)

lemma node_sized_next_id: "node_sized n a \<Longrightarrow> next_id a = (cid, a') \<Longrightarrow> node_sized n a'"
  by (auto simp: next_id_def bump_id_def node_sized_def sized_def sized_state_def)

lemma copied_records: "copy_records rs k written buf = Inr (rs', k', written', buf') \<Longrightarrow> set rs' \<subseteq> set rs"
  by (induction rs k written buf rule: copy_records.induct) (auto simp: Let_def split: if_splits)

lemma poll_locked_records:
  assumes "poll_locked e buf q = (st, buf', q')"
  shows "set (q_records q') \<subseteq> set (q_records q)"
proof -
  have "q_records q' = q_records q \<or>
      (\<exists>k written b k' written' b'. copy_records (q_records q) k written b = Inr (q_records q', k', written', b'))"
    using assms unfolding poll_locked_def Let_def
    by (auto split: if_splits sum.splits option.splits prod.splits)
  then show ?thesis by (auto dest: copied_records)
qed

lemma node_sized_poll:
  "node_sized n a \<Longrightarrow> poll_locked e buf (node_queue a) = (st, buf', q) \<Longrightarrow> node_sized n (set_queue q a)"
  using poll_locked_records [of e buf "node_queue a" st buf' q]
  by (auto simp: node_sized_def set_queue_def node_queue_def sized_def sized_state_def)

lemma node_sized_start:
  assumes "peer_keys_sized (n_crypto n)" and "start n config ms built evs = Inr w"
  shows "node_sized n \<lparr>n_world = w, n_commands = [], n_receiver_gone = False\<rparr>"
proof -
  have await: "sized n v \<Longrightarrow> sized n (await_listeners n pending evs v)" for v pending
  proof (induction evs arbitrary: pending v)
    case (Cons e evs)
    then show ?case using sized_swarm [OF assms(1) sized_arrive] by (cases e) simp
  qed simp
  have "sized n (world_new config p now x)" for p now x
    by (simp add: sized_def sized_state_def world_new_def state_new_def shared_new_def queue_new_def)
  with assms(2) show ?thesis
    by (auto simp: start_def run_thread_start_def Let_def node_sized_def event_type_defs
        split: option.splits sum.splits prod.splits intro!: sized_intros await)
qed

section \<open>The queue of a well-formed node\<close>

lemma node_sized_records:
  assumes "node_sized n a"
  shows "\<exists>evs. q_records (node_queue a) = map (event_record (n_endian n)) evs \<and> (\<forall>ev \<in> set evs. shaped ev)"
proof -
  have "\<forall>r \<in> set (q_records (node_queue a)). \<exists>ev. shaped ev \<and> r = event_record (n_endian n) ev"
    using assms sized_records by (auto simp: node_sized_def node_queue_def)
  then obtain f where f: "\<forall>r \<in> set (q_records (node_queue a)). shaped (f r) \<and> r = event_record (n_endian n) (f r)"
    by (auto dest!: bchoice)
  then have "map (event_record (n_endian n) \<circ> f) (q_records (node_queue a)) = q_records (node_queue a)"
    by (intro map_idI) simp
  with f show ?thesis by (intro exI [of _ "map f (q_records (node_queue a))"]) auto
qed

end
