(* ===== verification/HandleInvariant.thy ===== *)
theory HandleInvariant
  imports FfiSafety EventShapes
begin

text \<open>
  Programs against the C interface and their invariants. \<open>handle_invariant\<close> is what a property of a handle has to satisfy
  (at start-up, under a command, a turn of the node's thread, a poll) so that it holds of every handle in every run of every
  C program; the functions of the interface are gone through once, inside the locale.
\<close>

section \<open>Programs\<close>

text \<open>
  What the rest of the world owes a call: identifiers are left, libp2p does not repeat its own, and while a call holds the
  queue nobody else changes it.
\<close>

fun env_ok ::
  "'sw net \<Rightarrow> ('sw \<Rightarrow> request_id set) \<Rightarrow> ('sw \<Rightarrow> query_id set) \<Rightarrow> 'sw ffi_call \<Rightarrow> 'sw lp2p \<Rightarrow> bool" where
  "env_ok n iss isq (Poll_call node buf cap timeout_ms now sched) h \<longleftrightarrow> list_all (\<lambda>op. snd op = []) sched"
| "env_ok n iss isq (Topic_peers node key turns) h \<longleftrightarrow>
     (\<forall>c. turns_ok n iss isq turns (snd (send c (l_node h))))"
| "env_ok n iss isq (Routing_sample node buf cap max_peers turns) h \<longleftrightarrow>
     (\<forall>c. turns_ok n iss isq turns (snd (send c (l_node h))))"
| "env_ok n iss isq c h \<longleftrightarrow> ids_left (l_node h)"

definition call_env_ok ::
  "'sw net \<Rightarrow> ('sw \<Rightarrow> request_id set) \<Rightarrow> ('sw \<Rightarrow> query_id set) \<Rightarrow> 'sw ffi_call \<Rightarrow> 'sw ffi \<Rightarrow> bool" where
  "call_env_ok n iss isq c s \<longleftrightarrow>
     (\<forall>h. Option.bind (handle_of c) (f_handles s) = Some h \<longrightarrow> env_ok n iss isq c h) \<and>
     (case c of Start_call opt out box ms built evs \<Rightarrow> list_all (\<lambda>e. grows iss isq (fst e)) evs | _ \<Rightarrow> True)"

text \<open>
  A C program that keeps the contracts: it calls functions in any order, the threads of its nodes take turns in between, and the
  program's own code may do anything to its memory.
\<close>

inductive c_run ::
  "'sw net \<Rightarrow> libs \<Rightarrow> ('sw \<Rightarrow> request_id set) \<Rightarrow> ('sw \<Rightarrow> query_id set) \<Rightarrow> 'sw ffi \<Rightarrow> bool" for n lb iss isq where
  begins: "c_run n lb iss isq \<lparr>f_mem = m, f_handles = Map.empty\<rparr>"
| calls: "c_run n lb iss isq s \<Longrightarrow> contract (n_endian n) c s \<Longrightarrow> call_env_ok n iss isq c s \<Longrightarrow>
    run_call n lb c s = Return (st, s') \<Longrightarrow> c_run n lb iss isq s'"
| works: "c_run n lb iss isq s \<Longrightarrow> f_handles s p = Some h \<Longrightarrow> ids_left (l_node h) \<Longrightarrow> grows iss isq (fst t) \<Longrightarrow>
    c_run n lb iss isq (set_node p h (snd (node_turn n t (l_node h))) s)"
| computes: "c_run n lb iss isq s \<Longrightarrow> c_run n lb iss isq (s\<lparr>f_mem := m\<rparr>)"

section \<open>Properties of handles\<close>

definition handles_ok :: "('sw lp2p \<Rightarrow> bool) \<Rightarrow> 'sw ffi \<Rightarrow> bool" where
  "handles_ok OK s \<longleftrightarrow> (\<forall>p h. f_handles s p = Some h \<longrightarrow> OK h)"

definition returns_ok :: "('sw lp2p \<Rightarrow> bool) \<Rightarrow> 'sw result \<Rightarrow> bool" where
  "returns_ok OK r \<longleftrightarrow> (\<forall>st s'. r = Return (st, s') \<longrightarrow> handles_ok OK s')"

named_theorems keeps_ok \<open>steps of a call that keep a property of the handles\<close>

lemma returns_return: "handles_ok OK s \<Longrightarrow> returns_ok OK (Return (st, s))"
  by (simp add: returns_ok_def)

lemma returns_other [keeps_ok]: "returns_ok OK Blocked" "returns_ok OK Undefined"
  by (simp_all add: returns_ok_def)

lemma returns_attempt [keeps_ok]:
  "handles_ok OK s \<Longrightarrow> (\<And>x. r = Some (Inr x) \<Longrightarrow> returns_ok OK (f x)) \<Longrightarrow> returns_ok OK (attempt s r f)"
  by (auto simp: attempt_def returns_ok_def split: option.split sum.split)

lemma handles_ok_mem [simp]: "handles_ok OK (s\<lparr>f_mem := m\<rparr>) = handles_ok OK s"
  by (simp add: handles_ok_def)

lemma returns_write [keeps_ok]:
  "returns_ok OK (Return r) \<Longrightarrow> returns_ok OK (write_out p bs r)"
  "returns_ok OK (Return r) \<Longrightarrow> returns_ok OK (write_typed p bs r)"
  by (cases r; auto simp: write_typed_def write_out_def returns_ok_def split: option.splits)+

lemma handle_handles: "handle s p = Some (Inr h) \<Longrightarrow> f_handles s p = Some h"
  by (auto simp: handle_def split: if_splits)

lemma handle_handles_ok: "handles_ok OK s \<Longrightarrow> handle s p = Some (Inr h) \<Longrightarrow> OK h"
  by (auto simp: handles_ok_def dest: handle_handles)

lemma handles_ok_set_node: "handles_ok OK s \<Longrightarrow> OK (h\<lparr>l_node := a\<rparr>) \<Longrightarrow> handles_ok OK (set_node p h a s)"
  by (simp add: handles_ok_def set_node_def)

lemma set_queue_same: "set_queue (node_queue a) a = a"
  unfolding set_queue_def node_queue_def
  by (intro node.equality world.equality state.equality shared.equality) simp_all

lemma returns_shutdown: "handles_ok OK s \<Longrightarrow> returns_ok OK (lp2p_shutdown n turns node s)"
  by (auto simp: lp2p_shutdown_def returns_ok_def handles_ok_def split: if_splits option.splits)

lemma returns_mem:
  assumes "handles_ok OK s"
  shows "returns_ok OK (lp2p_options_default e opt s)" "returns_ok OK (lp2p_stats_get e node out s)"
    "returns_ok OK (lp2p_key_from_seed cr seed out s)" "returns_ok OK (lp2p_delegation_sign cr seed key ms out s)"
    "returns_ok OK (lp2p_delegation_verify cr clock deleg len at_ms group_out node_out s)"
proof -
  show "returns_ok OK (lp2p_options_default e opt s)"
    using assms by (auto simp: lp2p_options_default_def intro!: keeps_ok returns_return)
  show "returns_ok OK (lp2p_stats_get e node out s)"
    using assms by (auto simp: lp2p_stats_get_def Let_def intro!: keeps_ok returns_return split: option.split)
  show "returns_ok OK (lp2p_key_from_seed cr seed out s)"
    using assms by (auto simp: lp2p_key_from_seed_def intro!: keeps_ok returns_return)
  show "returns_ok OK (lp2p_delegation_sign cr seed key ms out s)"
    using assms by (auto simp: lp2p_delegation_sign_def intro!: keeps_ok returns_return)
  show "returns_ok OK (lp2p_delegation_verify cr clock deleg len at_ms group_out node_out s)"
    using assms unfolding lp2p_delegation_verify_def
    by (auto simp: Let_def returns_ok_def [of _ "write_opt _ _ _"] write_opt_def write_out_def
        intro!: keeps_ok returns_return split: sum.split outcome.split option.split)
qed

section \<open>Invariants of handles\<close>

locale handle_invariant =
  fixes n :: "'sw net" and iss :: "'sw \<Rightarrow> request_id set" and isq :: "'sw \<Rightarrow> query_id set"
    and OK :: "'sw lp2p \<Rightarrow> bool"
  assumes ok_started: "start n config ms built evs = Inr w \<Longrightarrow> list_all (\<lambda>e. grows iss isq (fst e)) evs \<Longrightarrow>
      OK (lp2p_of config w)"
    and ok_sent: "OK h \<Longrightarrow> \<not> is_rpc c \<Longrightarrow> command_sized c \<Longrightarrow> send c (l_node h) = (st, a) \<Longrightarrow> OK (h\<lparr>l_node := a\<rparr>)"
    and ok_next_id: "OK h \<Longrightarrow> ids_left (l_node h) \<Longrightarrow> next_id (l_node h) = (cid, a) \<Longrightarrow> OK (h\<lparr>l_node := a\<rparr>)"
    and ok_rpc: "OK h \<Longrightarrow> ids_left (l_node h) \<Longrightarrow> next_id (l_node h) = (cid, a) \<Longrightarrow>
      unat protocol < l_rpc_protocol_count h \<Longrightarrow> length grp = 32 \<Longrightarrow>
      send (Rpc cid grp target protocol payload timeout) a = (st, b) \<Longrightarrow> OK (h\<lparr>l_node := b\<rparr>)"
    and ok_turn: "OK h \<Longrightarrow> ids_left (l_node h) \<Longrightarrow> grows iss isq (fst t) \<Longrightarrow>
      OK (h\<lparr>l_node := snd (node_turn n t (l_node h))\<rparr>)"
    and ok_polled: "OK h \<Longrightarrow> poll_locked (n_endian n) buf (node_queue (l_node h)) = (st, buf', q) \<Longrightarrow>
      OK (h\<lparr>l_node := set_queue q (l_node h)\<rparr>)"
begin

lemma ok_await: "OK h \<Longrightarrow> turns_ok n iss isq ts (l_node h) \<Longrightarrow> OK (h\<lparr>l_node := snd (await_reply n ts k (l_node h))\<rparr>)"
proof (induction ts arbitrary: k h)
  case (Cons t ts)
  let ?h = "h\<lparr>l_node := snd (node_turn n t (l_node h))\<rparr>"
  have "OK ?h" using Cons.prems by (intro ok_turn) simp_all
  from Cons.IH [OF this] this Cons.prems(2) show ?case
    by (cases "node_turn n t (l_node h)") (auto split: option.split)
qed simp

lemma returns_send:
  assumes "handles_ok OK s" and "handle s p = Some (Inr h)" and "\<not> is_rpc c" and "command_sized c"
  shows "returns_ok OK (Return (send_to p h c s))"
  using assms ok_sent [OF handle_handles_ok [OF assms(1,2)] assms(3,4)]
  by (auto simp: returns_ok_def send_to_def intro!: handles_ok_set_node split: prod.splits)

lemma returns_query:
  assumes "handles_ok OK s" and "\<And>h. f_handles s p = Some h \<Longrightarrow> ids_left (l_node h)"
    and "\<And>cid. \<not> is_rpc (mk cid) \<and> command_sized (mk cid)"
  shows "returns_ok OK (ffi_query e p query_id mk s)"
proof -
  have send: "returns_ok OK (Return (send_to p (h\<lparr>l_node := a\<rparr>) (mk cid) s))"
    if "handle s p = Some (Inr h)" "next_id (l_node h) = (cid, a)" for h cid a
  proof -
    have "OK (h\<lparr>l_node := a\<rparr>)"
      using ok_next_id [OF handle_handles_ok [OF assms(1) that(1)] assms(2) that(2)] handle_handles [OF that(1)] by blast
    from ok_sent [OF this, of "mk cid"] assms(3) [of cid] show ?thesis
      using assms(1) by (auto simp: returns_ok_def send_to_def set_node_def handles_ok_def split: prod.splits)
  qed
  then show ?thesis
    using assms(1) unfolding ffi_query_def by (auto simp: Let_def intro!: keeps_ok send split: prod.split)
qed

lemma returns_request:
  assumes "handles_ok OK s" and "\<And>h. f_handles s node = Some h \<Longrightarrow> ids_left (l_node h)"
  shows "returns_ok OK (lp2p_rpc_request n node grp node_key protocol dat len timeout_ms request_id s)"
proof -
  have send: "returns_ok OK (Return (send_to node (h\<lparr>l_node := a\<rparr>) (Rpc cid g target protocol payload timeout) s))"
    if lh: "handle s node = Some (Inr h)" and nid: "next_id (l_node h) = (cid, a)" and g: "length g = 32"
      and served: "unat protocol < l_rpc_protocol_count h" for h cid a g target payload timeout
    using ok_rpc [OF handle_handles_ok [OF assms(1) lh] assms(2) nid served g] handle_handles [OF lh] assms(1)
    by (auto simp: returns_ok_def send_to_def set_node_def handles_ok_def split: prod.splits)
  then show ?thesis
    using assms(1) unfolding lp2p_rpc_request_def
    by (auto simp: Let_def ensure_def intro!: keeps_ok send dest: length_ffi_key split: prod.split if_splits)
qed

lemma returns_start:
  assumes "handles_ok OK s" and "list_all (\<lambda>e. grows iss isq (fst e)) evs"
  shows "returns_ok OK (lp2p_start n lb opt out box ms built evs s)"
proof -
  have new: "returns_ok OK (Return (st, s\<lparr>f_handles := (f_handles s)(box \<mapsto> lp2p_of config w)\<rparr>))"
    if "start n config ms (built config) evs = Inr w" for config w st
    using assms(1) ok_started [OF that assms(2)] by (simp add: returns_ok_def handles_ok_def)
  then show ?thesis
    using assms(1) unfolding lp2p_start_def
    by (auto simp: Let_def intro!: keeps_ok new intro: returns_return split: option.split sum.split)
qed

lemma returns_poll:
  assumes "handles_ok OK s" and "\<And>h. f_handles s node = Some h \<Longrightarrow> list_all (\<lambda>op. snd op = []) sched"
  shows "returns_ok OK (lp2p_poll (n_endian n) node buf cap timeout_ms now sched s)"
proof -
  have upd: "returns_ok OK (Return (st, set_node node h (set_queue q (l_node h)) s))"
    if h: "handle s node = Some (Inr h)"
      and p: "poll (n_endian n) b timeout now sched (node_queue (l_node h)) = Returned st b' q" for h b timeout st b' q
  proof -
    have "poll_locked (n_endian n) b (node_queue (l_node h)) = (st, b', q) \<or> q = node_queue (l_node h)"
      using poll_quiet_returned [OF p] assms(2) [OF handle_handles [OF h]] by (auto simp: list_all_iff)
    then have "OK (h\<lparr>l_node := set_queue q (l_node h)\<rparr>)"
      using ok_polled handle_handles_ok [OF assms(1) h] by (auto simp: set_queue_same)
    with assms(1) show ?thesis by (intro returns_return handles_ok_set_node)
  qed
  then show ?thesis
    using assms(1) unfolding lp2p_poll_def by (auto intro!: keeps_ok upd split: option.split poll_result.split)
qed

lemma reply_ok:
  assumes "handles_ok OK s" and "handle s node = Some (Inr h)" and "\<not> is_rpc c" and "command_sized c"
    and "send c (l_node h) = (sent, a)" and "turns_ok n iss isq turns a"
  shows "handles_ok OK (set_node node h a s)"
    and "await_reply n turns i a = (r, b) \<Longrightarrow> handles_ok OK (set_node node h b s)"
proof -
  note h = ok_sent [OF handle_handles_ok [OF assms(1,2)] assms(3-5)]
  show "handles_ok OK (set_node node h a s)" by (rule handles_ok_set_node [OF assms(1) h])
  show "handles_ok OK (set_node node h b s)" if "await_reply n turns i a = (r, b)"
    using ok_await [OF h, of turns i] assms(6) that by (intro handles_ok_set_node [OF assms(1)]) simp
qed

lemma returns_reply:
  assumes "handles_ok OK s" and "\<And>h c. f_handles s node = Some h \<Longrightarrow> turns_ok n iss isq turns (snd (send c (l_node h)))"
  shows "returns_ok OK (lp2p_topic_peers n turns node key s)"
    and "returns_ok OK (lp2p_routing_sample n turns node buf cap max_peers s)"
proof -
  have upd: "handles_ok OK (set_node node h a s)"
      "\<And>i r b. await_reply n turns i a = (r, b) \<Longrightarrow> handles_ok OK (set_node node h b s)"
    if "handle s node = Some (Inr h)" "send c (l_node h) = (sent, a)" "\<not> is_rpc c" "command_sized c" for h c sent a
    using reply_ok [OF assms(1) that(1) that(3,4,2)] assms(2) [OF handle_handles [OF that(1)], of c] that(2) by simp_all
  have quiet: "\<not> is_rpc (TopicPeers k)" "command_sized (TopicPeers k)" "\<not> is_rpc (RoutingSample j)"
    "command_sized (RoutingSample j)" for k j by (simp_all add: is_rpc_def command_sized_def)
  note peers = upd [OF _ _ quiet(1,2)] and sample = upd [OF _ _ quiet(3) [of "unat max_peers"] quiet(4)]
  show "returns_ok OK (lp2p_topic_peers n turns node key s)"
    using assms(1) unfolding lp2p_topic_peers_def
    by (auto intro!: keeps_ok returns_return intro: peers split: prod.split option.split reply.split)
  show "returns_ok OK (lp2p_routing_sample n turns node buf cap max_peers s)"
    using assms(1) sample unfolding lp2p_routing_sample_def
    by (auto intro!: keeps_ok returns_return split: prod.split option.split reply.split)
qed

lemma every_call_returns:
  assumes "handles_ok OK s" and "call_env_ok n iss isq c s"
  shows "returns_ok OK (run_call n lb c s)"
proof (cases c)
  case (Topic_peers node key turns)
  with assms show ?thesis by (auto simp: call_env_ok_def intro!: returns_reply)
next
  case (Routing_sample node buf cap max_peers turns)
  with assms show ?thesis by (auto simp: call_env_ok_def intro!: returns_reply)
next
  case (Poll_call node buf cap timeout_ms now sched)
  with assms show ?thesis by (auto simp: call_env_ok_def intro!: returns_poll)
qed (use assms in \<open>auto simp: call_env_ok_def command_defs lp2p_dht_find_providers_def
    lp2p_dht_bootstrap_def lp2p_dht_random_walk_def Let_def is_rpc_def command_sized_def
    intro!: keeps_ok returns_mem returns_start returns_shutdown returns_request returns_query returns_send returns_return
      length_ffi_key split: option.split\<close>)

lemma every_run: "c_run n lb iss isq s \<Longrightarrow> handles_ok OK s"
proof (induction rule: c_run.induct)
  case (calls s c st s')
  with every_call_returns [OF calls.IH calls.hyps(3), of lb] show ?case by (simp add: returns_ok_def)
next
  case (works s p h t)
  then have "OK h" by (simp add: handles_ok_def)
  from ok_turn [OF this works.hyps(3,4)] works.IH show ?case by (intro handles_ok_set_node)
qed (simp_all add: handles_ok_def)

end

end
