(* ===== verification/FfiRuns.thy ===== *)
theory FfiRuns
  imports HandleInvariant
begin

text \<open>
  The C interface and the node together: every function leads from reachable states of the node to reachable states, so that what
  holds of those holds for a C caller. Then what single functions achieve: a request that is accepted, a poll, a shutdown.
\<close>

section \<open>Handles of reachable nodes\<close>

abbreviation node_protocols :: "'sw node \<Rightarrow> bytes list" where
  "node_protocols a \<equiv> s_rpc_protocols (w_state (n_world a))"

definition handle_ok :: "'sw net \<Rightarrow> ('sw \<Rightarrow> request_id set) \<Rightarrow> ('sw \<Rightarrow> query_id set) \<Rightarrow> 'sw lp2p \<Rightarrow> bool" where
  "handle_ok n iss isq h \<longleftrightarrow> (\<exists>ids. reachable n iss isq (l_node h) ids) \<and>
     l_rpc_protocol_count h = length (node_protocols (l_node h))"

lemma handle_ok_node:
  "handle_ok n iss isq h \<Longrightarrow> reachable n iss isq a ids \<Longrightarrow> node_protocols a = node_protocols (l_node h) \<Longrightarrow>
   handle_ok n iss isq (h\<lparr>l_node := a\<rparr>)"
  by (auto simp: handle_ok_def)

section \<open>Steps\<close>

lemma send_other:
  assumes "handle_ok n iss isq h" and "\<not> is_rpc c" and "send c (l_node h) = (st, a)"
  shows "handle_ok n iss isq (h\<lparr>l_node := a\<rparr>)"
proof -
  obtain ids where r: "reachable n iss isq (l_node h) ids" using assms(1) by (auto simp: handle_ok_def)
  have "a = l_node h \<or> (st = LP2P_OK \<and> node_protocols a = node_protocols (l_node h))"
    using assms(3) by (auto simp: send_def split: if_splits)
  then show ?thesis
    using assms handle_ok_node [OF assms(1) other [OF r assms(2)]] by auto
qed

lemma next_id_ok:
  assumes "handle_ok n iss isq h" and "ids_left (l_node h)" and "next_id (l_node h) = (cid, a)"
  shows "handle_ok n iss isq (h\<lparr>l_node := a\<rparr>)"
proof -
  obtain ids where r: "reachable n iss isq (l_node h) ids" using assms(1) by (auto simp: handle_ok_def)
  have "node_protocols a = node_protocols (l_node h)" using assms(3) by (auto simp: next_id_def bump_id_def)
  then show ?thesis by (rule handle_ok_node [OF assms(1) take_id [OF r assms(2,3)]])
qed

lemma set_queue_ok:
  assumes "handle_ok n iss isq h" and "poll_locked e buf (node_queue (l_node h)) = (st, buf', q)"
  shows "handle_ok n iss isq (h\<lparr>l_node := set_queue q (l_node h)\<rparr>)"
proof -
  obtain ids where r: "reachable n iss isq (l_node h) ids" using assms(1) by (auto simp: handle_ok_def)
  have "node_protocols (set_queue q (l_node h)) = node_protocols (l_node h)" by (simp add: set_queue_def)
  then show ?thesis by (rule handle_ok_node [OF assms(1) polled [OF r assms(2)]])
qed

lemma run_turn_ended:
  "run_turn n inp w = Stopped w' \<or> run_turn n inp w = Panicked w' \<Longrightarrow> w' = w"
  by (cases "(n, inp, w)" rule: run_turn.cases) (auto split: option.splits if_splits)

lemma node_event_protocols: "node_protocols (node_event n inp (arrive m w) a) = s_rpc_protocols (w_state w)"
proof -
  have "s_rpc_protocols (w_state (arrive m w)) = s_rpc_protocols (w_state w)" by (simp add: arrive_def)
  moreover have "s_rpc_protocols (w_state w') = s_rpc_protocols (w_state (arrive m w))"
    if "run_turn n inp (arrive m w) = Stopped w' \<or> run_turn n inp (arrive m w) = Panicked w'" for w'
    using run_turn_ended [OF that] by simp
  ultimately show ?thesis
    using run_turn_settings [of n inp m w]
    by (auto simp: node_event_def node_end_def run_thread_end_def shut_events_def settings_def split: run_result.split)
qed

lemma node_turn_protocols: "node_protocols (snd (node_turn n t a)) = node_protocols a"
  by (auto simp: node_turn_def Let_def node_event_protocols split: input.split list.split)

lemma rpc_ok:
  assumes "reachable n iss isq (l_node h) ids" and "ids_left (l_node h)" and "next_id (l_node h) = (cid, a)"
    and "unat protocol < length (node_protocols (l_node h))" and "send (Rpc cid grp target protocol payload timeout) a = (st, b)"
  shows "node_protocols b = node_protocols (l_node h) \<and>
    (if st = LP2P_OK then reachable n iss isq b (ids @ [cid]) else b = a \<and> reachable n iss isq b ids)"
proof -
  have "node_protocols b = node_protocols (l_node h)" "st \<noteq> LP2P_OK \<Longrightarrow> b = a"
    using assms(3,5) by (auto simp: send_def next_id_def bump_id_def split: if_splits)
  with rpc [OF assms(1-4), of grp target payload timeout b] take_id [OF assms(1-3)] assms(5) show ?thesis by auto
qed

lemma start_handle_ok:
  assumes "start n config ms built evs = Inr w" and "list_all (\<lambda>e. grows iss isq (fst e)) evs"
  shows "handle_ok n iss isq (lp2p_of config w)"
proof -
  obtain p now x where "safe (world_new config p now x) w" using start_safe [OF assms(1)] by blast
  then have "settings (w_state w) = settings (first_state config p)" by (simp add: safe_def settings_new)
  then have "s_rpc_protocols (w_state w) = c_rpc_protocols config"
    by (simp add: settings_def first_state_def state_new_def)
  moreover have "reachable n iss isq \<lparr>n_world = w, n_commands = [], n_receiver_gone = False\<rparr> []"
    using assms by (intro started) (auto simp: list_all_iff)
  ultimately show ?thesis by (auto simp: handle_ok_def lp2p_of_def)
qed

lemma rpc_handle_ok:
  assumes "handle_ok n iss isq h" and "ids_left (l_node h)" and "next_id (l_node h) = (cid, a)"
    and "unat protocol < l_rpc_protocol_count h" and "send (Rpc cid grp target protocol payload timeout) a = (st, b)"
  shows "handle_ok n iss isq (h\<lparr>l_node := b\<rparr>)"
proof -
  obtain ids where r: "reachable n iss isq (l_node h) ids" and k: "unat protocol < length (node_protocols (l_node h))"
    using assms(1,4) by (auto simp: handle_ok_def)
  from rpc_ok [OF r assms(2,3) k assms(5)] handle_ok_node [OF assms(1)] show ?thesis by (auto split: if_splits)
qed

lemma turn_handle_ok:
  assumes "handle_ok n iss isq h" and "ids_left (l_node h)" and "grows iss isq (fst t)"
  shows "handle_ok n iss isq (h\<lparr>l_node := snd (node_turn n t (l_node h))\<rparr>)"
proof -
  obtain ids where "reachable n iss isq (l_node h) ids" using assms(1) by (auto simp: handle_ok_def)
  from node_turn_reachable [OF this assms(2,3)] show ?thesis by (intro handle_ok_node [OF assms(1)] node_turn_protocols)
qed

text \<open>The nodes behind the handles of a program are in reachable states.\<close>

interpretation reach: handle_invariant n iss isq "handle_ok n iss isq" for n iss isq
  by unfold_locales (auto intro: start_handle_ok send_other next_id_ok rpc_handle_ok turn_handle_ok set_queue_ok)

text \<open>And their queues hold records of well-formed events.\<close>

definition handle_sized :: "'sw net \<Rightarrow> 'sw lp2p \<Rightarrow> bool" where
  "handle_sized n h \<longleftrightarrow> (peer_keys_sized (n_crypto n) \<longrightarrow> node_sized n (l_node h))"

interpretation shape: handle_invariant n iss isq "handle_sized n" for n iss isq
proof unfold_locales
  show "handle_sized n h \<Longrightarrow> ids_left (l_node h) \<Longrightarrow> next_id (l_node h) = (cid, a) \<Longrightarrow>
      unat protocol < l_rpc_protocol_count h \<Longrightarrow> length grp = 32 \<Longrightarrow>
      send (Rpc cid grp target protocol payload timeout) a = (st, b) \<Longrightarrow> handle_sized n (h\<lparr>l_node := b\<rparr>)"
    for h cid a protocol grp target payload timeout st b
    using node_sized_send [OF node_sized_next_id, of n "l_node h" cid a "Rpc cid grp target protocol payload timeout" st b]
    by (auto simp: handle_sized_def command_sized_def)
qed (auto simp: handle_sized_def lp2p_of_def intro: node_sized_start node_sized_send node_sized_next_id node_sized_turn
    node_sized_poll)

lemma c_run_ok: "c_run n lb iss isq s \<Longrightarrow> f_handles s p = Some h \<Longrightarrow> handle_ok n iss isq h"
  by (drule reach.every_run) (simp add: handles_ok_def)

lemma c_run_sized:
  "c_run n lb iss isq s \<Longrightarrow> f_handles s p = Some h \<Longrightarrow> peer_keys_sized (n_crypto n) \<Longrightarrow> node_sized n (l_node h)"
  by (drule shape.every_run) (simp add: handles_ok_def handle_sized_def)

section \<open>Bounds of reachable nodes\<close>

lemma world_ok_queue:
  "world_ok w \<Longrightarrow> queue_wf q \<Longrightarrow> world_ok (w_state_update (shared_update (sh_events_update (\<lambda>_. q))) w)"
  by (simp add: world_ok_def ok_defs)

lemma world_ok_bump: "world_ok (bump_id w) = world_ok w"
  by (simp add: world_ok_def ok_defs bump_id_def)

lemma world_ok_closed:
  assumes "world_ok w"
  shows "world_ok (shut_events st w)"
proof -
  have "shut_events st w = w_state_update (shared_update (sh_events_update (\<lambda>_. close st (sh_events (shared (w_state w)))))) w"
    by (intro world.equality state.equality shared.equality) (simp_all add: shut_events_def)
  moreover have "queue_wf (close st (sh_events (shared (w_state w))))"
    using assms by (intro queue_wf_close) (simp add: world_ok_def ok_defs)
  ultimately show ?thesis using world_ok_queue [OF assms] by simp
qed

lemma world_ok_arrive: "world_ok w \<Longrightarrow> world_ok (arrive m w)"
  using safe_arrive [of w m] by (simp add: safe_def)

lemma world_ok_reachable: "reachable n iss isq a ids \<Longrightarrow> world_ok (n_world a)"
proof (induction rule: reachable.induct)
  case (started config ms built evs w)
  obtain p now x where "safe (world_new config p now x) w" using start_safe [OF started(1)] by blast
  then show ?case using world_ok_new [of config p now x] by (simp add: safe_def)
next
  case (rpc a ids cid a1 protocol grp node payload timeout a2)
  then show ?case by (auto simp: next_id_def send_def world_ok_bump split: if_splits)
next
  case (other a ids c a1)
  then show ?case by (auto simp: send_def split: if_splits)
next
  case (take_id a ids cid a1)
  then show ?case by (auto simp: next_id_def world_ok_bump)
next
  case (turn a ids m a1)
  have s: "world_ok w" if "run_turn n inp (arrive m (n_world a)) = Running w" for inp w
    using safe_turn [of "arrive m (n_world a)" n inp] world_ok_arrive [OF turn.IH] that by (simp add: safe_def result_world_def)
  show ?case using turn.hyps(4)
  proof cases
    case (receive c rest w)
    with s show ?thesis by (simp del: run_turn.simps)
  next
    case (event inp w)
    with s show ?thesis by (simp del: run_turn.simps)
  next
    case (stop rest)
    with turn.IH show ?thesis by (simp add: world_ok_closed world_ok_arrive)
  qed
next
  case (polled a ids e buf st buf' q)
  have "queue_wf (node_queue a)" using polled.IH by (simp add: node_queue_def world_ok_def ok_defs)
  then have "queue_wf q" using queue_wf_poll [of "node_queue a" e buf] polled.hyps(2) by simp
  with polled.IH show ?case by (simp add: set_queue_def world_ok_queue)
qed

lemma node_queue_wf: "handle_ok n iss isq h \<Longrightarrow> queue_wf (node_queue (l_node h))"
  using world_ok_reachable by (fastforce simp: handle_ok_def node_queue_def world_ok_def state_ok_def)

lemma node_queue_closed: "handle_ok n iss isq h \<Longrightarrow> q_closed (node_queue (l_node h)) \<in> {None, Some LP2P_ERR_SHUT_DOWN}"
  by (auto simp: handle_ok_def node_queue_def life_ok_def dest!: life_ok_reachable)

section \<open>Programs\<close>

text \<open>
  C7: The guarantees of the node hold for every C program. Whatever functions a program calls in whatever order, as long as it keeps
  their contracts, each of its live handles is a node in a reachable state (so that every call it makes ends exactly once, no
  panic poisons it, and so on), whose protocol count the handle knows, and whose memory and event queue are within bounds.
\<close>

theorem c_programs_reach:
  assumes "c_run n lb iss isq s" and "f_handles s p = Some h"
  shows "(\<exists>ids. reachable n iss isq (l_node h) ids) \<and>
    l_rpc_protocol_count h = length (s_rpc_protocols (w_state (n_world (l_node h)))) \<and>
    \<not> sh_poisoned (shared (w_state (n_world (l_node h)))) \<and>
    world_ok (n_world (l_node h))"
proof -
  have ok: "handle_ok n iss isq h" by (rule c_run_ok [OF assms])
  then show ?thesis
    using life_ok_reachable world_ok_reachable by (fastforce simp: handle_ok_def life_ok_def)
qed

lemma demo_run: "c_run demo_net demo_libs demo_issued demo_issued demo_ffi"
proof -
  have "c_run demo_net demo_libs demo_issued demo_issued demo_blank" unfolding demo_blank_def by (rule begins)
  moreover have "contract (n_endian demo_net) demo_start_call demo_blank"
    using demo_start_contract by (simp add: demo_net_def)
  moreover have "call_env_ok demo_net demo_issued demo_issued demo_start_call demo_blank"
    by (simp add: call_env_ok_def demo_start_call_def demo_blank_def)
  ultimately show ?thesis using demo_starts by (rule calls)
qed

theorem c_programs_reach_witness:
  "\<exists>ids. reachable demo_net demo_issued demo_issued \<lparr>n_world = demo_world, n_commands = [], n_receiver_gone = False\<rparr> ids"
  using c_programs_reach [OF demo_run, of 9000 "lp2p_of demo_config demo_world"] by (simp add: demo_ffi_def lp2p_of_def)

section \<open>An accepted request\<close>

lemma attempt_ok:
  assumes "attempt s r f = Return (LP2P_OK, s')" and "\<And>e. r = Some (Inl e) \<Longrightarrow> e = LP2P_ERR_INVALID_ARGUMENT"
  obtains x where "r = Some (Inr x)" and "f x = Return (LP2P_OK, s')"
  using assms by (auto simp: attempt_def status_defs split: option.splits sum.splits)

lemma refused_invalid:
  "handle s p = Some (Inl e) \<Longrightarrow> e = LP2P_ERR_INVALID_ARGUMENT"
  "ffi_key m p = Some (Inl e) \<Longrightarrow> e = LP2P_ERR_INVALID_ARGUMENT"
  "ffi_bytes m p k = Some (Inl e) \<Longrightarrow> e = LP2P_ERR_INVALID_ARGUMENT"
  "ensure b = Some (Inl e) \<Longrightarrow> e = LP2P_ERR_INVALID_ARGUMENT"
  "target_of m p = Some (Inl e) \<Longrightarrow> e = LP2P_ERR_INVALID_ARGUMENT"
  by (auto simp: handle_def ffi_key_def ffi_bytes_def ensure_def target_of_def bind_fallible_def
      split: if_splits option.splits sum.splits)

lemma request_accepted:
  assumes "lp2p_rpc_request n node grp node_key protocol dat len timeout_ms request_id s = Return (LP2P_OK, s')"
  obtains h g target payload cid a b m where "handle s node = Some (Inr h)" "ffi_key (f_mem s) grp = Some (Inr g)"
    "target_of (f_mem s) node_key = Some (Inr target)" "ffi_bytes (f_mem s) dat len = Some (Inr payload)"
    "unat protocol < l_rpc_protocol_count h" "len \<le> unat (l_rpc_max_request_bytes h)" "next_id (l_node h) = (cid, a)"
    "send (Rpc cid g target protocol payload (if timeout_ms = 0 then l_rpc_timeout h else from_millis (unat timeout_ms))) a =
       (LP2P_OK, b)"
    "store (f_mem s) request_id (wr64 (n_endian n) cid) = Some m"
    "s' = (set_node node (h\<lparr>l_node := a\<rparr>) b s)\<lparr>f_mem := m\<rparr>"
  using assms unfolding lp2p_rpc_request_def
  by (elim attempt_ok refused_invalid)
    (auto simp: Let_def ensure_def not_le not_less send_to_def write_typed_def write_out_def set_node_def
      split: prod.splits if_splits option.splits)

lemma target_value: "target_of m p = Some (Inr t) \<Longrightarrow> t = (if p = 0 then None else load m p 32)"
  by (auto simp: target_of_def ffi_key_def bind_fallible_def split: option.splits sum.splits if_splits)

lemma bytes_value: "ffi_bytes m p k = Some (Inr bs) \<Longrightarrow> load m p k = Some bs"
  by (auto simp: ffi_bytes_def split: if_splits)

lemma key_value: "ffi_key m p = Some (Inr k) \<Longrightarrow> load m p 32 = Some k"
  by (auto simp: ffi_key_def split: if_splits)

text \<open>
  C12: A request that is accepted. When \<open>lp2p_rpc_request\<close> answers \<open>LP2P_OK\<close>, the caller finds in \<open>*request_id\<close> an identifier that no
  accepted call of this node had before, the node has one more accepted call under it, and the command that
  waits at the end of its channel is the request the caller's memory held: the group, the node or none, the protocol, the payload, and
  the timeout that was asked for or the node's own.
\<close>

theorem accepted_request:
  assumes "net_fresh n iss isq" and "c_run n lb iss isq s"
    and "f_handles s node = Some h" and "reachable n iss isq (l_node h) ids" and "ids_left (l_node h)"
    and "lp2p_rpc_request n node grp node_key protocol dat len timeout_ms request_id s = Return (LP2P_OK, s')"
  shows "\<exists>cid g payload h'.
    load (f_mem s') request_id 8 = Some (wr64 (n_endian n) cid) \<and> cid \<notin> set ids \<and>
    f_handles s' node = Some h' \<and> reachable n iss isq (l_node h') (ids @ [cid]) \<and>
    load (f_mem s) grp 32 = Some g \<and> load (f_mem s) dat len = Some payload \<and> len \<le> unat (l_rpc_max_request_bytes h) \<and>
    n_commands (l_node h') = n_commands (l_node h) @
      [Rpc cid g (if node_key = 0 then None else load (f_mem s) node_key 32) protocol payload
         (if timeout_ms = 0 then l_rpc_timeout h else from_millis (unat timeout_ms))]"
  using assms(6)
proof (rule request_accepted)
  fix h1 g target payload cid a b m
  assume acc: "handle s node = Some (Inr h1)" "ffi_key (f_mem s) grp = Some (Inr g)"
    "target_of (f_mem s) node_key = Some (Inr target)" "ffi_bytes (f_mem s) dat len = Some (Inr payload)"
    "unat protocol < l_rpc_protocol_count h1" "len \<le> unat (l_rpc_max_request_bytes h1)" "next_id (l_node h1) = (cid, a)"
    "send (Rpc cid g target protocol payload (if timeout_ms = 0 then l_rpc_timeout h1 else from_millis (unat timeout_ms))) a =
       (LP2P_OK, b)"
    "store (f_mem s) request_id (wr64 (n_endian n) cid) = Some m" "s' = (set_node node (h1\<lparr>l_node := a\<rparr>) b s)\<lparr>f_mem := m\<rparr>"
  have h: "h1 = h" using handle_handles [OF acc(1)] assms(3) by simp
  have "handle_ok n iss isq h" by (rule c_run_ok [OF assms(2,3)])
  then have k: "unat protocol < length (node_protocols (l_node h))" using acc(5) h by (simp add: handle_ok_def)
  have "reachable n iss isq b (ids @ [cid])"
    using rpc_ok [OF assms(4,5) _ k acc(8)] acc(7) h by simp
  moreover have "cid \<notin> set ids"
    using reachable_distinct [OF assms(1) calculation] by simp
  moreover have "n_commands b = n_commands (l_node h) @
      [Rpc cid g target protocol payload (if timeout_ms = 0 then l_rpc_timeout h else from_millis (unat timeout_ms))]"
    using acc(7,8) h by (auto simp: send_def next_id_def status_defs split: if_splits)
  moreover have "load m request_id 8 = Some (wr64 (n_endian n) cid)" using load_store [OF acc(9)] by simp
  ultimately show ?thesis
    using acc(6,10) h target_value [OF acc(3)] bytes_value [OF acc(4)] key_value [OF acc(2)]
    by (intro exI [of _ cid] exI [of _ g] exI [of _ payload] exI [of _ "h\<lparr>l_node := b\<rparr>"]) (simp add: set_node_def)
qed

lemma demo_not_poisoned: "\<not> sh_poisoned (shared (w_state (bump_id demo_world)))"
  by (simp add: bump_id_def demo_world_def provide_def world_new_def state_new_def shared_new_def Let_def)

lemma demo_request_ok: "\<exists>s'. lp2p_rpc_request demo_net 9000 64 0 0 64 1 0 6152 demo_ffi = Return (LP2P_OK, s')"
proof -
  have "load (f_mem demo_ffi) 6152 8 \<noteq> None" using load_prefix [OF demo_room, of 8] by simp
  then have "region 6152 8 \<subseteq> dom (f_mem demo_ffi)" by (simp only: load_mapped)
  then obtain m where m: "store (f_mem demo_ffi) 6152 (wr64 Little 1) = Some m"
    using store_SomeI [of 6152 "wr64 Little 1" "f_mem demo_ffi"] by auto
  have "n_endian demo_net = Little" by (simp add: demo_net_def)
  with m show ?thesis
    by (simp add: lp2p_rpc_request_def demo_live ffi_key_def ffi_bytes_def target_of_def demo_group demo_payload lp2p_of_def
        demo_config_def next_id_def send_to_def send_def demo_not_poisoned demo_state set_node_def write_typed_def aligned_def write_out_def
        del: load.simps store.simps)
qed

theorem accepted_request_witness:
  "\<exists>(s' :: nat ffi) cid h'. load (f_mem s') 6152 8 = Some (wr64 Little cid) \<and> f_handles s' 9000 = Some h' \<and>
     reachable demo_net demo_issued demo_issued (l_node h') [cid] \<and>
     n_commands (l_node h') = [Rpc cid (replicate 32 1) None 0 [1] (from_secs 1)]"
proof -
  obtain s' where s': "lp2p_rpc_request demo_net 9000 64 0 0 64 1 0 6152 demo_ffi = Return (LP2P_OK, s')"
    using demo_request_ok by blast
  let ?h = "lp2p_of demo_config demo_world"
  have "f_handles demo_ffi 9000 = Some ?h" by (simp add: demo_ffi_def)
  moreover have "reachable demo_net demo_issued demo_issued (l_node ?h) []"
    using started [OF demo_start] by (simp add: lp2p_of_def)
  moreover have "ids_left (l_node ?h)" by (simp add: ids_left_def lp2p_of_def demo_state)
  ultimately obtain cid g payload h' where r: "load (f_mem s') 6152 8 = Some (wr64 (n_endian demo_net) cid)"
    "f_handles s' 9000 = Some h'" "reachable demo_net demo_issued demo_issued (l_node h') ([] @ [cid])"
    "load (f_mem demo_ffi) 64 32 = Some g" "load (f_mem demo_ffi) 64 1 = Some payload"
    "n_commands (l_node h') = n_commands (l_node ?h) @ [Rpc cid g None 0 payload (l_rpc_timeout ?h)]"
    using accepted_request [OF demo_net_fresh demo_run _ _ _ s'] unfolding if_P [OF refl] by blast
  have "n_endian demo_net = Little" "n_commands (l_node ?h) = []" "l_rpc_timeout ?h = from_secs 1"
    by (simp_all add: demo_net_def lp2p_of_def demo_config_def)
  moreover have "g = replicate 32 1" "payload = [1]" using r(4,5) demo_group demo_payload by simp_all
  ultimately have "load (f_mem s') 6152 8 = Some (wr64 Little cid) \<and> f_handles s' 9000 = Some h' \<and>
      reachable demo_net demo_issued demo_issued (l_node h') [cid] \<and>
      n_commands (l_node h') = [Rpc cid (replicate 32 1) None 0 [1] (from_secs 1)]"
    using r by (simp del: load.simps)
  then show ?thesis by blast
qed

section \<open>A poll from C\<close>

lemma poll_returned:
  assumes "lp2p_poll e node buf cap timeout_ms now sched s = Return (st, s')" and "st \<noteq> LP2P_ERR_INVALID_ARGUMENT"
  shows "\<exists>h buffer buffer' q' m. f_handles s node = Some h \<and> load (f_mem s) buf cap = Some buffer \<and>
    poll e buffer (from_millis (nat timeout_ms)) now sched (node_queue (l_node h)) = Returned st buffer' q' \<and>
    store (f_mem s) buf buffer' = Some m \<and> s' = (set_node node h (set_queue q' (l_node h)) s)\<lparr>f_mem := m\<rparr>"
  using assms unfolding lp2p_poll_def
  by (auto simp: attempt_def ensure_def write_out_def set_node_def handle_def
      split: option.splits sum.splits if_splits poll_result.splits)

lemma store_same: "load m p k = Some bs \<Longrightarrow> store m p bs = Some m"
proof (induction k arbitrary: p bs)
  case (Suc k)
  then obtain b bs' where "m p = Some b" "bs = b # bs'" "load m (Suc p) k = Some bs'" by (auto split: option.splits)
  with Suc.IH [of "Suc p" bs'] show ?case by (simp add: fun_upd_idem)
qed simp

lemma poll_counts:
  assumes "queue_wf q" and "poll_ready q" and "poll_locked e buf q = (st, buf', q')"
    and "q_closed q \<in> {None, Some LP2P_ERR_SHUT_DOWN}" and "0 \<le> st" and "length buf < 2 ^ 31"
  shows "let out = overflow_part e q @ delivered e (length buf) q;
      rest = drop (length (delivered e (length buf) q)) (q_records q)
    in 0 < total out \<and> st = int (total out) \<and> total out \<le> length buf \<and> length buf' = length buf \<and>
       take (total out) buf' = concat out \<and> q_records q = delivered e (length buf) q @ rest \<and>
       q' = q\<lparr>q_records := rest, q_bytes := total rest, q_dropped := 0\<rparr>"
proof -
  let ?out = "overflow_part e q @ delivered e (length buf) q"
  have big: "\<not> too_small (length buf) q"
    using poll_outcome [OF assms(1,3)] assms(5) by (auto simp: status_defs split: if_splits)
  note outcome = poll_outcome [OF assms(1,3), unfolded if_not_P [OF big] Let_def]
  have "\<not> (?out = [] \<and> q_closed q \<noteq> None)" using outcome assms(4,5) by (auto simp: status_defs)
  moreover have "0 < total ?out" if "q_records q \<noteq> [] \<or> q_dropped q > 0"
    by (rule delivered_some [OF assms(1) big that])
  ultimately have "0 < total ?out" using assms(2) by (cases "q_records q = [] \<and> q_dropped q = 0")
      (auto simp: poll_ready_def overflow_part_def delivered_def word_gt_0)
  then show ?thesis
    using outcome assms(6) by (auto simp: Let_def as_i32_small)
qed

text \<open>
  What a C program finds after \<open>lp2p_poll\<close>. A positive result is a number of bytes of the program's buffer, and these bytes are
  whole event records and nothing else: the overflow record if events were dropped, then the oldest records of the queue, which
  have left it. With a result of zero the buffer is as it was.
\<close>

theorem poll_fills_memory:
  assumes "c_run n lb iss isq s" and "f_handles s node = Some h"
    and "list_all (\<lambda>op. snd op = []) sched" and "cap < 2 ^ 31"
    and "lp2p_poll (n_endian n) node buf cap timeout_ms now sched s = Return (st, s')" and "0 \<le> st"
  shows "\<exists>h'. f_handles s' node = Some h' \<and>
    (if st = 0 then f_mem s' = f_mem s
     else
       let q = node_queue (l_node h);
           out = overflow_part (n_endian n) q @ delivered (n_endian n) cap q;
           rest = drop (length (delivered (n_endian n) cap q)) (q_records q)
       in nat st \<le> cap \<and> load (f_mem s') buf (nat st) = Some (concat out) \<and>
          q_records q = delivered (n_endian n) cap q @ rest \<and>
          node_queue (l_node h') = q\<lparr>q_records := rest, q_bytes := total rest, q_dropped := 0\<rparr>)"
proof -
  obtain buffer buffer' q' m where r: "load (f_mem s) buf cap = Some buffer"
    "poll (n_endian n) buffer (from_millis (nat timeout_ms)) now sched (node_queue (l_node h)) = Returned st buffer' q'"
    "store (f_mem s) buf buffer' = Some m" "s' = (set_node node h (set_queue q' (l_node h)) s)\<lparr>f_mem := m\<rparr>"
    using poll_returned [OF assms(5)] assms(2,6) by (auto simp: status_defs)
  note ok = c_run_ok [OF assms(1,2)]
  note wf = node_queue_wf [OF ok] and closed = node_queue_closed [OF ok]
  have len: "length buffer = cap" by (rule length_load [OF r(1)])
  have f: "f_handles s' node = Some (h\<lparr>l_node := set_queue q' (l_node h)\<rparr>)" "f_mem s' = m"
    by (simp_all add: r(4) set_node_def)
  show ?thesis
  proof (cases "poll_ready (node_queue (l_node h))")
    case False
    with poll_quiet_returned [OF r(2)] assms(3) have "st = 0" "buffer' = buffer" by (auto simp: list_all_iff)
    with store_same [OF r(1)] r(3) f show ?thesis by simp
  next
    case True
    with poll_quiet_returned [OF r(2)] assms(3)
    have p: "poll_locked (n_endian n) buffer (node_queue (l_node h)) = (st, buffer', q')" by (auto simp: list_all_iff)
    let ?out = "overflow_part (n_endian n) (node_queue (l_node h)) @ delivered (n_endian n) cap (node_queue (l_node h))"
    note counts = poll_counts [OF wf True p closed assms(6), unfolded len Let_def, OF assms(4)]
    have st: "nat st = Events.total ?out" "st \<noteq> 0" using counts by (auto simp only: nat_int)
    have "load m buf (nat st) = Some (concat ?out)"
      using load_prefix [OF load_store [OF r(3)], of "nat st"] counts by (simp only: nat_int)
    moreover have "node_queue (set_queue q' (l_node h)) = q'" by (simp add: node_queue_def set_queue_def)
    ultimately show ?thesis
      using f st counts by (intro exI [of _ "h\<lparr>l_node := set_queue q' (l_node h)\<rparr>"]) (simp only: Let_def if_False, simp)
  qed
qed

definition demo_record :: bytes where
  "demo_record = event_data Little ((event_new LP2P_EV_REACHABILITY)\<lparr>ev_reason := ucast (reach_code Unknown)\<rparr>) []"

lemma length_demo_record: "length demo_record = 88"
  by (simp add: demo_record_def length_record_any padded_size_def LP2P_EVENT_HEADER_BYTES_def)

lemma demo_node_queue:
  "node_queue (l_node (lp2p_of demo_config demo_world)) =
     \<lparr>q_records = [demo_record], q_bytes = 88, q_dropped = 0, q_closed = None, q_max_bytes = 100000\<rparr>"
  using length_demo_record
  by (simp add: node_queue_def lp2p_of_def demo_world_def provide_def emit_def world_new_def state_new_def shared_new_def queue_new_def
      push_def Let_def demo_net_def demo_config_def flip: demo_record_def)

lemma demo_poll: "poll_locked Little (replicate 200 0) (node_queue (l_node (lp2p_of demo_config demo_world))) =
    (88, demo_record @ replicate 112 0, (node_queue (l_node (lp2p_of demo_config demo_world)))\<lparr>q_records := [], q_bytes := 0\<rparr>)"
  by (simp add: demo_node_queue poll_locked_def length_demo_record write_at_def as_i32_small)

lemma demo_polled:
  "\<exists>s' h'. lp2p_poll (n_endian demo_net) 9000 6152 200 0 0 [] demo_ffi = Return (88, s') \<and> f_handles s' 9000 = Some h' \<and>
     q_records (node_queue (l_node h')) = []"
proof -
  have room: "load (f_mem demo_ffi) 6152 200 = Some (replicate 200 0)" using load_prefix [OF demo_room, of 200] by simp
  then have "load (f_mem demo_ffi) 6152 200 \<noteq> None" by simp
  then have "region 6152 (length (demo_record @ replicate 112 0)) \<subseteq> dom (f_mem demo_ffi)"
    by (simp only: load_mapped length_append length_demo_record length_replicate) simp
  then obtain m where "store (f_mem demo_ffi) 6152 (demo_record @ replicate 112 0) = Some m"
    using store_SomeI by blast
  with demo_poll room show ?thesis
    by (simp add: lp2p_poll_def demo_live poll_def poll_ready_def demo_node_queue write_out_def set_node_def demo_net_def
        del: load.simps store.simps) (simp add: node_queue_def set_queue_def)
qed

theorem poll_fills_memory_witness:
  "\<exists>s'. lp2p_poll Little 9000 6152 200 0 0 [] demo_ffi = Return (88, s') \<and> load (f_mem s') 6152 88 = Some demo_record"
proof -
  obtain s' where s': "lp2p_poll (n_endian demo_net) 9000 6152 200 0 0 [] demo_ffi = Return (88, s')"
    using demo_polled by blast
  have f: "f_handles demo_ffi 9000 = Some (lp2p_of demo_config demo_world)" by (simp add: demo_ffi_def)
  from poll_fills_memory [OF demo_run f _ _ s'] have "load (f_mem s') 6152 88 = Some demo_record"
    by (auto simp: Let_def overflow_part_def delivered_def demo_node_queue length_demo_record simp del: load.simps)
  with s' show ?thesis by (simp add: demo_net_def del: load.simps)
qed

section \<open>Shutting down\<close>

lemma node_turns_serving:
  assumes "reachable n iss isq a ids" and "turns_ok n iss isq ts a" and "\<not> n_receiver_gone a"
    and "n_commands a = cs @ rest" and "Shutdown \<notin> set cs" and "receives ts \<le> length cs"
  shows "\<not> n_receiver_gone (node_turns n ts a)"
  using assms
proof (induction ts arbitrary: a cs)
  case (Cons t ts)
  let ?b = "snd (node_turn n t a)"
  have r: "reachable n iss isq ?b ids" "turns_ok n iss isq ts ?b"
    using Cons.prems(1,2) by (auto intro: node_turn_reachable)
  show ?case
  proof (cases "snd t")
    case (Receive x)
    with Cons.prems(6) obtain c cs' where cs: "cs = c # cs'" by (cases cs) auto
    have "run_turn n (Receive (Some c)) (arrive (fst t) (n_world a)) \<noteq> Panicked w" for w
      using life_ok_reachable [OF Cons.prems(1)] by (rule no_panic) (simp add: Cons.prems(4) cs)
    from this [of "arrive (fst t) (n_world a)"] obtain w
      where w: "run_turn n (Receive (Some c)) (arrive (fst t) (n_world a)) = Running w"
      using Cons.prems(5) cs by (cases "command n c (arrive (fst t) (n_world a))") auto
    have "\<not> n_receiver_gone ?b" "n_commands ?b = cs' @ rest"
      using Receive Cons.prems(3,4) cs w by (simp_all add: node_turn_def Let_def node_event_def del: run_turn.simps)
    with Cons.IH [OF r, of cs'] Cons.prems(5,6) cs Receive show ?thesis by simp
  next
    case (Swarm ev)
    with Cons.prems(3,4) have "\<not> n_receiver_gone ?b" "n_commands ?b = cs @ rest"
      by (simp_all add: node_turn_def Let_def node_event_def)
    with Cons.IH [OF r, of cs] Cons.prems(5,6) Swarm show ?thesis by simp
  next
    case Tick
    with Cons.prems(3,4) have "\<not> n_receiver_gone ?b" "n_commands ?b = cs @ rest"
      by (simp_all add: node_turn_def Let_def node_event_def)
    with Cons.IH [OF r, of cs] Cons.prems(5,6) Tick show ?thesis by simp
  qed
qed simp

text \<open>
  C14: \<open>lp2p_shutdown\<close> returns, and not too early. It blocks as long as the node's thread has not received every command that was
  accepted before it, and once the thread has received one more it returns \<open>LP2P_OK\<close> with the handle gone, whatever else the network
  and the clock made the thread do in between.
\<close>

theorem shutdown_waits:
  assumes "c_run n lb iss isq s" and "f_handles s node = Some h" and "node \<noteq> 0"
    and "\<not> n_receiver_gone (l_node h)" and "Shutdown \<notin> set (n_commands (l_node h))"
    and "turns_ok n iss isq turns ((l_node h)\<lparr>n_commands := n_commands (l_node h) @ [Shutdown]\<rparr>)"
  shows "lp2p_shutdown n turns node s =
    (if length (n_commands (l_node h)) < receives turns
     then Return (LP2P_OK, s\<lparr>f_handles := (f_handles s)(node := None)\<rparr>)
     else Blocked)"
proof -
  let ?a = "(l_node h)\<lparr>n_commands := n_commands (l_node h) @ [Shutdown]\<rparr>"
  obtain ids where r: "reachable n iss isq (l_node h) ids"
    using c_run_ok [OF assms(1,2)] by (auto simp: handle_ok_def)
  have "\<not> sh_poisoned (shared (w_state (n_world (l_node h))))" using life_ok_reachable [OF r] by (simp add: life_ok_def)
  then have "send Shutdown (l_node h) = (LP2P_OK, ?a)" using assms(4) by (simp add: send_def)
  from other [OF r _ this] have "reachable n iss isq ?a ids" by (simp add: is_rpc_def)
  from node_turns_serving [OF this assms(6), of "n_commands (l_node h)" "[Shutdown]"] assms(4,5)
  have "node_drop n turns (l_node h) = None" if "\<not> length (n_commands (l_node h)) < receives turns"
    using that by (simp add: node_drop_def Let_def)
  with node_drop_returns [of "l_node h" turns n] assms(2,3) show ?thesis
    by (auto simp: lp2p_shutdown_def split: option.split)
qed

theorem shutdown_waits_witness:
  "lp2p_shutdown demo_net [((\<lambda>x. x, []), Receive None)] 9000 demo_ffi =
     Return (LP2P_OK, demo_ffi\<lparr>f_handles := Map.empty\<rparr>)"
proof -
  let ?h = "lp2p_of demo_config demo_world"
  have f: "f_handles demo_ffi 9000 = Some ?h" by (simp add: demo_ffi_def)
  have t: "turns_ok demo_net demo_issued demo_issued [((\<lambda>x. x, []), Receive None)]
      ((l_node ?h)\<lparr>n_commands := n_commands (l_node ?h) @ [Shutdown]\<rparr>)"
    by (simp add: ids_left_def lp2p_of_def demo_state grows_def)
  show ?thesis
    using shutdown_waits [OF demo_run f _ _ _ t] by (simp add: lp2p_of_def demo_ffi_def)
qed

end
