(* ===== verification/PolledEvents.thy ===== *)
theory PolledEvents
  imports FfiRuns
begin

text \<open>
  From the node to the reader of the polled bytes: what a C program finds in its buffer, walked as the examples walk it, are
  the events the node queued.
\<close>

section \<open>What a reader of the buffer sees\<close>

text \<open>
  The bytes of a successful poll are events. In whatever run of a C program, a poll with a positive result leaves bytes in the buffer that the
  record walk of the examples reads without running off the end: the notice of dropped events if there were any, then the oldest
  events of the queue, header and data as the node queued them; keys have 32 bytes and a topic message begins with its topic.
  The queue keeps exactly the events behind them.
\<close>

lemma poll_reads_events:
  assumes "c_run n lb iss isq s" and "f_handles s node = Some h" and "peer_keys_sized (n_crypto n)"
    and "list_all (\<lambda>op. snd op = []) sched" and "cap < 2 ^ 31"
    and "lp2p_poll (n_endian n) node buf cap timeout_ms now sched s = Return (st, s')" and "0 < st"
  shows "\<exists>h' buffer evs k. f_handles s' node = Some h' \<and> load (f_mem s') buf cap = Some buffer \<and>
    q_records (node_queue (l_node h)) = map (event_record (n_endian n)) evs \<and>
    (\<forall>ev \<in> set evs. shaped ev) \<and>
    read_events (n_endian n) buffer st = Some (Inr (map event_seen (overflow_events (node_queue (l_node h)) @ take k evs))) \<and>
    q_records (node_queue (l_node h')) = map (event_record (n_endian n)) (drop k evs) \<and> nat st \<le> cap"
proof -
  let ?q = "node_queue (l_node h)"
  obtain buffer buffer' q' m where r: "load (f_mem s) buf cap = Some buffer"
    "poll (n_endian n) buffer (from_millis (nat timeout_ms)) now sched ?q = Returned st buffer' q'"
    "store (f_mem s) buf buffer' = Some m" "s' = (set_node node h (set_queue q' (l_node h)) s)\<lparr>f_mem := m\<rparr>"
    using poll_returned [OF assms(6)] assms(2,7) by (auto simp: status_defs)
  note ok = c_run_ok [OF assms(1,2)]
  note wf = node_queue_wf [OF ok] and closed = node_queue_closed [OF ok]
  obtain evs where evs: "q_records ?q = map (event_record (n_endian n)) evs" "\<forall>ev \<in> set evs. shaped ev"
    using node_sized_records [OF c_run_sized [OF assms(1-3)]] by blast
  have ready: "poll_ready ?q" and p: "poll_locked (n_endian n) buffer ?q = (st, buffer', q')"
    using poll_quiet_returned [OF r(2)] assms(4,7) by (auto simp: list_all_iff)
  have len: "length buffer = cap" "length buffer' = cap"
    using length_load [OF r(1)] poll_locked_length [OF p] by simp_all
  have big: "\<not> too_small (length buffer) ?q"
    using poll_outcome [OF wf p] assms(7) by (auto simp: status_defs split: if_splits)
  obtain k where k: "delivered (n_endian n) cap ?q = map (event_record (n_endian n)) (take k evs)"
    "q_records q' = map (event_record (n_endian n)) (drop k evs)"
    "read_events (n_endian n) buffer' st = Some (Inr (map event_seen (overflow_events ?q @ take k evs)))"
    using polled_events_read_back [OF wf evs(1) _ _ big _ p assms(7)] evs(2) closed assms(5) len
    by (auto simp: status_defs shaped_def)
  have "nat st \<le> cap"
    using poll_counts [OF wf ready p closed] assms(5,7) len by (auto simp: Let_def)
  moreover have "load (f_mem s') buf cap = Some buffer'" using load_store [OF r(3)] len r(4) by simp
  moreover have "f_handles s' node = Some (h\<lparr>l_node := set_queue q' (l_node h)\<rparr>)" by (simp add: r(4) set_node_def)
  moreover have "node_queue (set_queue q' (l_node h)) = q'" by (simp add: node_queue_def set_queue_def)
  ultimately show ?thesis using evs k by (intro exI conjI) (assumption | simp)+
qed

text \<open>
  C18: The bytes of a successful poll are events. In whatever run of a C program, a poll with a positive result leaves bytes in
  the buffer that the record walk of the examples reads without running off the end: the notice of dropped events if there were any, then
  the oldest events of the queue, header and data as the node queued them, with keys of 32 bytes and topic messages that begin
  with their topic; the queue keeps exactly the events behind them.
\<close>

theorem polled_bytes_are_events:
  assumes "c_run n lb iss isq s" and "f_handles s node = Some h" and "peer_keys_sized (n_crypto n)"
    and "list_all (\<lambda>op. snd op = []) sched" and "cap < 2 ^ 31"
    and "lp2p_poll (n_endian n) node buf cap timeout_ms now sched s = Return (st, s')" and "0 < st"
  shows "\<exists>h' buffer evs k. f_handles s' node = Some h' \<and> load (f_mem s') buf cap = Some buffer \<and>
    q_records (node_queue (l_node h)) = map (event_record (n_endian n)) evs \<and>
    (\<forall>ev \<in> set evs. shaped ev) \<and>
    read_events (n_endian n) buffer st = Some (Inr (map event_seen (overflow_events (node_queue (l_node h)) @ take k evs))) \<and>
    q_records (node_queue (l_node h')) = map (event_record (n_endian n)) (drop k evs) \<and> nat st \<le> cap"
  by (rule poll_reads_events [OF assms])

lemma demo_endian: "n_endian demo_net = Little"
  by (simp add: demo_net_def)

theorem polled_bytes_are_events_witness:
  "\<exists>s' buffer ev. lp2p_poll Little 9000 6152 200 0 0 [] demo_ffi = Return (88, s') \<and>
     load (f_mem s') 6152 200 = Some buffer \<and> shaped ev \<and> event_record Little ev = demo_record \<and>
     read_events Little buffer 88 = Some (Inr [event_seen ev])"
proof -
  obtain s' h' where s': "lp2p_poll (n_endian demo_net) 9000 6152 200 0 0 [] demo_ffi = Return (88, s')"
    and h': "f_handles s' 9000 = Some h'" "q_records (node_queue (l_node h')) = []" using demo_polled by blast
  have f: "f_handles demo_ffi 9000 = Some (lp2p_of demo_config demo_world)" by (simp add: demo_ffi_def)
  have k: "peer_keys_sized (n_crypto demo_net)" by (simp add: peer_keys_sized_def demo_crypto_def)
  have q: "list_all (\<lambda>op. snd op = []) ([] :: (instant \<times> queue_op list) list)" "(200 :: nat) < 2 ^ 31" "(0 :: int) < 88"
    by simp_all
  let ?q = "node_queue (l_node (lp2p_of demo_config demo_world))"
  obtain h'' buffer evs k where r: "f_handles s' 9000 = Some h''" "load (f_mem s') 6152 200 = Some buffer"
    "q_records ?q = map (event_record Little) evs" "\<forall>ev \<in> set evs. shaped ev"
    "read_events Little buffer 88 = Some (Inr (map event_seen (overflow_events ?q @ take k evs)))"
    "q_records (node_queue (l_node h'')) = map (event_record Little) (drop k evs)"
    using polled_bytes_are_events [OF demo_run f k q(1,2) s' q(3)] by (simp only: demo_endian) blast
  have "overflow_events ?q = []" "map (event_record Little) evs = [demo_record]" "drop k evs = []"
    using r(1,3,6) h' by (simp_all add: demo_node_queue overflow_events_def)
  with r(2,4,5) have r: "load (f_mem s') 6152 200 = Some buffer" "map (event_record Little) evs = [demo_record]"
    "\<forall>ev \<in> set evs. shaped ev" "read_events Little buffer 88 = Some (Inr (map event_seen evs))" by simp_all
  then obtain ev where "evs = [ev]" by auto
  with r s' show ?thesis
    by (intro exI [of _ s'] exI [of _ buffer] exI [of _ ev]) (simp add: demo_endian del: load.simps)
qed

end
