(* ===== verification/Strings.thy ===== *)
theory Strings
  imports Wire
begin

text \<open>
  What the example programs use of \<open>std::str\<close> and \<open>std::fmt\<close>, on the bytes of a string: \<open>splitn\<close>, \<open>lines\<close>,
  \<open>from_str_radix\<close>, slicing at character boundaries, decimal and hexadecimal output and \<open>String::from_utf8_lossy\<close>; with
  \<open>hex\<close> and \<open>unhex\<close> of \<open>examples/interop_peer.rs\<close>.
\<close>

section \<open>Splitting\<close>

text \<open>\<open>str::splitn(n, ' ')\<close>: at most \<open>n\<close> parts, the last one with everything that is left. A space is never part of a longer character.\<close>

fun splitn :: "nat \<Rightarrow> bytes \<Rightarrow> bytes list" where
  "splitn 0 s = []"
| "splitn (Suc 0) s = [s]"
| "splitn (Suc (Suc n)) s =
     (if 32 \<in> set s
      then takeWhile (\<lambda>b. b \<noteq> 32) s # splitn (Suc n) (tl (dropWhile (\<lambda>b. b \<noteq> 32) s))
      else [s])"

text \<open>
  \<open>BufRead::lines\<close>: up to each newline or the end of input, without the newline and a carriage return before it. A line that is
  not UTF-8 is an error.
\<close>

definition chomp :: "bytes \<Rightarrow> bytes" where
  "chomp s = (if s \<noteq> [] \<and> last s = 13 then butlast s else s)"

function read_lines :: "bytes \<Rightarrow> bytes option list" where
  "read_lines s =
     (if s = [] then []
      else
        let line = takeWhile (\<lambda>b. b \<noteq> 10) s;
            rest = dropWhile (\<lambda>b. b \<noteq> 10) s
        in (if utf8_valid line then Some (if rest = [] then line else chomp line) else None) # read_lines (tl rest))"
  by pat_completeness auto
termination
proof (relation "measure length", goal_cases)
  case (2 s line rest)
  then have "length rest \<le> length s" "0 < length s" using length_dropWhile_le by auto
  then show ?case by (simp only: in_measure length_tl)
qed simp

section \<open>Numbers\<close>

text \<open>\<open>char::to_digit\<close>.\<close>

definition to_digit :: "nat \<Rightarrow> u8 \<Rightarrow> nat option" where
  "to_digit radix b =
     (let d = (if 48 \<le> b \<and> b \<le> 57 then Some (unat b - 48)
               else if 97 \<le> b \<and> b \<le> 122 then Some (unat b - 87)
               else if 65 \<le> b \<and> b \<le> 90 then Some (unat b - 55)
               else None)
      in case d of Some v \<Rightarrow> if v < radix then Some v else None | None \<Rightarrow> None)"

text \<open>\<open>u8::from_str_radix\<close>, and \<open>str::parse\<close> with radix 10: one leading plus is allowed, an overflow is an error.\<close>

fun digits_value :: "nat \<Rightarrow> bytes \<Rightarrow> nat \<Rightarrow> u8 option" where
  "digits_value radix [] acc = Some (word_of_nat acc)"
| "digits_value radix (b # bs) acc =
     (case to_digit radix b of
        None \<Rightarrow> None
      | Some d \<Rightarrow> if acc * radix + d > 255 then None else digits_value radix bs (acc * radix + d))"

definition from_str_radix :: "nat \<Rightarrow> bytes \<Rightarrow> u8 option" where
  "from_str_radix radix s =
     (if s = [] \<or> s = [43] \<or> s = [45] then None
      else digits_value radix (if hd s = 43 then tl s else s) 0)"

text \<open>\<open>{}\<close> of an integer.\<close>

fun decimal :: "nat \<Rightarrow> bytes" where
  "decimal n = (if n < 10 then [word_of_nat (48 + n)] else decimal (n div 10) @ [word_of_nat (48 + n mod 10)])"

definition show_int :: "int \<Rightarrow> bytes" where
  "show_int i = (if i < 0 then 45 # decimal (nat (- i)) else decimal (nat i))"

declare read_lines.simps [simp del] decimal.simps [simp del]

section \<open>Hexadecimal keys\<close>

definition hex :: "bytes \<Rightarrow> bytes" where
  "hex bs = concat (map hex2 bs)"

text \<open>\<open>str::is_char_boundary\<close>; slicing a string anywhere else panics.\<close>

definition char_boundary :: "bytes \<Rightarrow> nat \<Rightarrow> bool" where
  "char_boundary s i \<longleftrightarrow> i = 0 \<or> i = length s \<or> (i < length s \<and> \<not> cont_byte (s ! i))"

text \<open>\<open>None\<close> is the panic of a slice inside a character, \<open>Some None\<close> a text that names no key.\<close>

fun unhex_from :: "bytes \<Rightarrow> nat \<Rightarrow> nat \<Rightarrow> lp2p_key option option" where
  "unhex_from s i 0 = Some (Some [])"
| "unhex_from s i (Suc k) =
     (if \<not> (char_boundary s (2 * i) \<and> char_boundary s (2 * i + 2)) then None
      else case from_str_radix 16 (slice (2 * i) 2 s) of
          None \<Rightarrow> Some None
        | Some b \<Rightarrow> map_option (map_option (Cons b)) (unhex_from s (Suc i) k))"

definition unhex :: "bytes \<Rightarrow> lp2p_key option option" where
  "unhex s = (if length s \<noteq> 64 then Some None else unhex_from s 0 32)"

section \<open>Lossy UTF-8\<close>

text \<open>
  The length of the well-formed character at the start, or how many bytes of an ill-formed one are replaced together: the
  longest prefix of a character, at least one byte.
\<close>

definition second_ok :: "u8 \<Rightarrow> u8 \<Rightarrow> bool" where
  "second_ok a b \<longleftrightarrow> cont_byte b \<and> (a = 0xe0 \<longrightarrow> 0xa0 \<le> b) \<and> (a = 0xed \<longrightarrow> b \<le> 0x9f) \<and>
     (a = 0xf0 \<longrightarrow> 0x90 \<le> b) \<and> (a = 0xf4 \<longrightarrow> b \<le> 0x8f)"

fun next_char :: "bytes \<Rightarrow> bool \<times> nat" where
  "next_char [] = (True, 0)"
| "next_char (a # r) =
     (if a \<le> 0x7f then (True, 1)
      else if 0xc2 \<le> a \<and> a \<le> 0xdf then
        (case r of b # _ \<Rightarrow> if cont_byte b then (True, 2) else (False, 1) | [] \<Rightarrow> (False, 1))
      else if 0xe0 \<le> a \<and> a \<le> 0xef then
        (case r of
           b # c # _ \<Rightarrow> if \<not> second_ok a b then (False, 1) else if cont_byte c then (True, 3) else (False, 2)
         | [b] \<Rightarrow> if second_ok a b then (False, 2) else (False, 1)
         | [] \<Rightarrow> (False, 1))
      else if 0xf0 \<le> a \<and> a \<le> 0xf4 then
        (case r of
           b # c # d # _ \<Rightarrow> if \<not> second_ok a b then (False, 1) else if \<not> cont_byte c then (False, 2)
             else if cont_byte d then (True, 4) else (False, 3)
         | [b, c] \<Rightarrow> if \<not> second_ok a b then (False, 1) else if cont_byte c then (False, 3) else (False, 2)
         | [b] \<Rightarrow> if second_ok a b then (False, 2) else (False, 1)
         | [] \<Rightarrow> (False, 1))
      else (False, 1))"

text \<open>U+FFFD.\<close>

definition replacement :: bytes where
  "replacement = [0xef, 0xbf, 0xbd]"

lemma next_char_pos: "next_char s = (b, k) \<Longrightarrow> s \<noteq> [] \<Longrightarrow> 0 < k"
  by (cases s) (auto split: list.splits if_splits)

function from_utf8_lossy :: "bytes \<Rightarrow> bytes" where
  "from_utf8_lossy s =
     (if s = [] then []
      else case next_char s of
          (True, k) \<Rightarrow> take k s @ from_utf8_lossy (drop k s)
        | (False, k) \<Rightarrow> replacement @ from_utf8_lossy (drop k s))"
  by pat_completeness auto
termination
  by (relation "measure length") (auto dest!: next_char_pos [OF sym])

declare from_utf8_lossy.simps [simp del]

section \<open>Facts on keys\<close>

lemma length_hex: "length (hex bs) = 2 * length bs"
  by (induction bs) (simp_all add: hex_def hex2_def)

lemma hex_digit_range:
  assumes "d < 16"
  shows "to_digit 16 (hex_digit d) = Some d" and "\<not> cont_byte (hex_digit d)" and "hex_digit d \<noteq> 43"
proof -
  have "d \<in> {0, 1, 2, 3, 4, 5, 6, 7, 8, 9, 10, 11, 12, 13, 14, 15}" using assms by simp presburger
  then have "to_digit 16 (hex_digit d) = Some d \<and> \<not> cont_byte (hex_digit d) \<and> hex_digit d \<noteq> 43"
    by (elim insertE emptyE; simp add: hex_digit_def to_digit_def cont_byte_def)
  then show "to_digit 16 (hex_digit d) = Some d" "\<not> cont_byte (hex_digit d)" "hex_digit d \<noteq> 43" by simp_all
qed

lemma hex2_parts:
  "from_str_radix 16 (hex2 b) = Some b" "\<not> cont_byte (hex2 b ! 0)" "\<not> cont_byte (hex2 b ! 1)" "length (hex2 b) = 2"
proof -
  have b: "unat b < 256" using unsigned_less [of b, where ?'a = nat] by simp
  then have d: "unat b div 16 < 16" "unat b mod 16 < 16" by auto
  have "unat b div 16 * 16 + unat b mod 16 = unat b" by simp
  with b show "from_str_radix 16 (hex2 b) = Some b"
    by (simp add: from_str_radix_def hex2_def hex_digit_range [OF d(1)] hex_digit_range [OF d(2)])
  show "\<not> cont_byte (hex2 b ! 0)" "\<not> cont_byte (hex2 b ! 1)" "length (hex2 b) = 2"
    by (simp_all add: hex2_def hex_digit_range [OF d(1)] hex_digit_range [OF d(2)])
qed

lemma slice_hex: "i < length bs \<Longrightarrow> slice (2 * i) 2 (hex bs) = hex2 (bs ! i)"
proof (induction bs arbitrary: i)
  case (Cons b bs)
  then show ?case
    by (cases i) (simp_all add: hex_def slice_def hex2_def)
qed simp

lemma hex_boundary:
  assumes "i \<le> length bs"
  shows "char_boundary (hex bs) (2 * i)"
proof (cases "i = length bs")
  case False
  then have i: "i < length bs" using assms by simp
  have "hex bs ! (2 * i) = slice (2 * i) 2 (hex bs) ! 0"
    using i by (simp add: slice_def length_hex)
  with i hex2_parts(2) [of "bs ! i"] show ?thesis by (simp add: char_boundary_def slice_hex length_hex)
qed (simp add: char_boundary_def length_hex)

lemma unhex_from_hex: "length bs = i + k \<Longrightarrow> unhex_from (hex bs) i k = Some (Some (drop i bs))"
proof (induction k arbitrary: i)
  case (Suc k)
  have "char_boundary (hex bs) (2 * i + 2)" using hex_boundary [of "Suc i" bs] Suc.prems by simp
  with Suc hex_boundary [of i bs] show ?case
    by (simp add: slice_hex hex2_parts Cons_nth_drop_Suc)
qed simp

lemma unhex_hex: "length k = 32 \<Longrightarrow> unhex (hex k) = Some (Some k)"
  by (simp add: unhex_def length_hex unhex_from_hex)

lemma unhex_from_length: "unhex_from s i k = Some (Some bs) \<Longrightarrow> length bs = k"
  by (induction k arbitrary: i bs) (auto split: if_splits option.splits)

lemma unhex_length: "unhex s = Some (Some k) \<Longrightarrow> length k = 32 \<and> length s = 64"
  by (auto simp: unhex_def dest: unhex_from_length split: if_splits)

text \<open>Texts of single-byte characters never make it panic.\<close>

lemma unhex_from_ascii:
  "\<forall>b \<in> set s. \<not> cont_byte b \<Longrightarrow> 2 * (i + k) = length s \<Longrightarrow> unhex_from s i k \<noteq> None"
proof (induction k arbitrary: i)
  case (Suc k)
  have "char_boundary s (2 * i)" "char_boundary s (2 * i + 2)"
    using Suc.prems by (auto simp: char_boundary_def)
  with Suc.IH [of "Suc i"] Suc.prems show ?case by (auto split: option.split)
qed simp

lemma unhex_ascii: "\<forall>b \<in> set s. \<not> cont_byte b \<Longrightarrow> unhex s \<noteq> None"
  using unhex_from_ascii [of s 0 32] by (auto simp: unhex_def)

section \<open>Facts on lossy decoding\<close>

lemma second_ok_three:
  "a \<le> 0xef \<Longrightarrow> second_ok a b \<longleftrightarrow> cont_byte b \<and> (a = 0xe0 \<longrightarrow> 0xa0 \<le> b) \<and> (a = 0xed \<longrightarrow> b \<le> 0x9f)"
  by (auto simp: second_ok_def)

lemma second_ok_four:
  "0xf0 \<le> a \<Longrightarrow> second_ok a b \<longleftrightarrow> cont_byte b \<and> (a = 0xf0 \<longrightarrow> 0x90 \<le> b) \<and> (a = 0xf4 \<longrightarrow> b \<le> 0x8f)"
  by (auto simp: second_ok_def)

lemma utf8_valid_next:
  "utf8_valid (a # r) \<longleftrightarrow> fst (next_char (a # r)) \<and> utf8_valid (drop (snd (next_char (a # r))) (a # r))"
proof -
  consider "a \<le> 0x7f" | "\<not> a \<le> 0x7f" "0xc2 \<le> a \<and> a \<le> 0xdf"
    | "\<not> a \<le> 0x7f" "\<not> (0xc2 \<le> a \<and> a \<le> 0xdf)" "0xe0 \<le> a \<and> a \<le> 0xef"
    | "\<not> a \<le> 0x7f" "\<not> (0xc2 \<le> a \<and> a \<le> 0xdf)" "\<not> (0xe0 \<le> a \<and> a \<le> 0xef)" "0xf0 \<le> a \<and> a \<le> 0xf4"
    | "\<not> a \<le> 0x7f" "\<not> (0xc2 \<le> a \<and> a \<le> 0xdf)" "\<not> (0xe0 \<le> a \<and> a \<le> 0xef)" "\<not> (0xf0 \<le> a \<and> a \<le> 0xf4)"
    by blast
  then show ?thesis
  proof cases
    case 3
    then show ?thesis by (simp only: utf8_valid.simps next_char.simps if_True if_False)
        (auto simp: second_ok_three eval_nat_numeral split: list.split)
  next
    case 4
    then show ?thesis by (simp only: utf8_valid.simps next_char.simps if_True if_False)
        (auto simp: second_ok_four eval_nat_numeral split: list.split)
  qed (simp_all only: utf8_valid.simps next_char.simps if_True if_False, simp_all add: numeral_2_eq_2 split: list.split)
qed

lemma valid_next: "utf8_valid s \<Longrightarrow> s \<noteq> [] \<Longrightarrow> fst (next_char s) \<and> utf8_valid (drop (snd (next_char s)) s)"
  using utf8_valid_next by (cases s) auto

lemma next_char_prefix:
  assumes "next_char (a # s) = (True, k)"
  shows "next_char (take k (a # s) @ r) = (True, k) \<and> k \<le> length (a # s)"
  using assms unfolding next_char.simps
  by (auto simp: eval_nat_numeral split: if_splits list.splits)

lemma next_valid:
  assumes "next_char s = (True, k)" and "s \<noteq> []" and "utf8_valid r"
  shows "utf8_valid (take k s @ r)"
proof -
  obtain a s' where s: "s = a # s'" using assms(2) by (cases s) auto
  obtain k' where k: "k = Suc k'" using next_char_pos [OF assms(1,2)] by (cases k) auto
  note p = next_char_prefix [OF assms(1) [unfolded s], of r, folded s]
  have "drop k (take k s @ r) = r" using conjunct2 [OF p] by simp
  with utf8_valid_next [of a "take k' s' @ r"] conjunct1 [OF p] assms(3) show ?thesis by (simp add: s k del: utf8_valid.simps)
qed

lemma lossy_valid: "utf8_valid s \<Longrightarrow> from_utf8_lossy s = s"
proof (induction s rule: from_utf8_lossy.induct)
  case (1 s)
  show ?case
  proof (cases "s = []")
    case False
    obtain k where k: "next_char s = (True, k)" "utf8_valid (drop k s)"
      using valid_next [OF 1(3) False] by (cases "next_char s") auto
    with 1(1) [OF False k(1) [symmetric]] False show ?thesis by (subst from_utf8_lossy.simps) simp
  qed (simp add: from_utf8_lossy.simps)
qed

lemma utf8_valid_lossy: "utf8_valid (from_utf8_lossy s)"
proof (induction s rule: from_utf8_lossy.induct)
  case (1 s)
  show ?case
  proof (cases "s = []")
    case False
    obtain b k where k: "next_char s = (b, k)" by fastforce
    show ?thesis
    proof (cases b)
      case True
      with k False 1(1) [OF False k [symmetric]] next_valid [of s k] show ?thesis
        by (subst from_utf8_lossy.simps) simp
    next
      case b: False
      with k False 1(2) [OF False k [symmetric]] show ?thesis
        by (subst from_utf8_lossy.simps) (simp add: replacement_def cont_byte_def)
    qed
  qed (simp add: from_utf8_lossy.simps)
qed

lemma utf8_valid_append: "utf8_valid s \<Longrightarrow> utf8_valid r \<Longrightarrow> utf8_valid (s @ r)"
proof (induction s rule: from_utf8_lossy.induct)
  case (1 s)
  show ?case
  proof (cases "s = []")
    case False
    obtain k where k: "next_char s = (True, k)" "utf8_valid (drop k s)"
      using valid_next [OF 1(3) False] by (cases "next_char s") auto
    have "utf8_valid (take k s @ drop k s @ r)"
      by (rule next_valid [OF k(1) False]) (rule 1(1) [OF False k(1) [symmetric] _ k(2) 1(4)], simp)
    then show ?thesis by (metis append_assoc append_take_drop_id)
  qed (use 1 in simp)
qed

section \<open>Reading keys back\<close>

definition lower :: "u8 \<Rightarrow> u8" where
  "lower b = (if 65 \<le> b \<and> b \<le> 90 then b + 32 else b)"

lemma digit_unique:
  assumes "to_digit 16 b = Some d"
  shows "d < 16 \<and> hex_digit d = lower b"
proof -
  have b: "unat b < 256" using unsigned_less [of b, where ?'a = nat] by simp
  consider "48 \<le> unat b" "unat b \<le> 57" "d = unat b - 48" | "97 \<le> unat b" "unat b \<le> 102" "d = unat b - 87"
    | "65 \<le> unat b" "unat b \<le> 70" "d = unat b - 55"
    using assms by (auto simp: to_digit_def Let_def word_le_nat_alt split: if_splits)
  then show ?thesis
    by cases (auto simp: hex_digit_def lower_def word_le_nat_alt word_unat_eq_iff unat_of_nat unat_word_ariths b)
qed

lemma pair_unique:
  assumes "from_str_radix 16 [x, y] = Some b" and "x \<noteq> 43"
  shows "hex2 b = [lower x, lower y]"
proof -
  obtain d e where d: "to_digit 16 x = Some d" and e: "to_digit 16 y = Some e" and b: "b = word_of_nat (d * 16 + e)"
    using assms by (auto simp: from_str_radix_def split: option.splits if_splits)
  note d' = digit_unique [OF d] and e' = digit_unique [OF e]
  have "unat b = d * 16 + e" unfolding b using d' e' by (simp only: unat_of_nat take_bit_eq_mod) simp
  then have "unat b div 16 = d" "unat b mod 16 = e" using e' by auto
  with d' e' show ?thesis by (simp add: hex2_def)
qed

lemma unhex_from_unique:
  "unhex_from s i k = Some (Some bs) \<Longrightarrow> 43 \<notin> set s \<Longrightarrow> 2 * (i + k) = length s \<Longrightarrow> hex bs = map lower (drop (2 * i) s)"
proof (induction k arbitrary: i bs)
  case 0
  then show ?case by (simp add: hex_def)
next
  case (Suc k)
  obtain b bs' where b: "from_str_radix 16 (slice (2 * i) 2 s) = Some b" "bs = b # bs'"
    and rec: "unhex_from s (Suc i) k = Some (Some bs')"
    using Suc.prems(1) by (auto split: if_splits option.splits)
  let ?x = "s ! (2 * i)" and ?y = "s ! (2 * i + 1)"
  have drop: "drop (2 * i) s = ?x # ?y # drop (2 * Suc i) s"
    using Suc.prems(3) by (simp add: Cons_nth_drop_Suc)
  then have "slice (2 * i) 2 s = [?x, ?y]" by (simp add: slice_def)
  moreover have "?x \<in> set s" using Suc.prems(3) by (intro nth_mem) arith
  then have "?x \<noteq> 43" using Suc.prems(2) by auto
  ultimately have "hex2 b = [lower ?x, lower ?y]" using b(1) pair_unique by simp
  with Suc.IH [OF rec Suc.prems(2)] Suc.prems(3) show ?case by (simp add: b(2) hex_def drop)
qed

text \<open>
  C?: Keys in commands and lines. What \<open>hex\<close> prints, \<open>unhex\<close> reads back; and a text of 64 characters without a plus sign that
  \<open>unhex\<close> accepts is, up to upper case, what \<open>hex\<close> prints of the key it gives.
\<close>

theorem keys_read_back:
  "(length k = 32 \<longrightarrow> unhex (hex k) = Some (Some k)) \<and>
   (unhex s = Some (Some k) \<and> 43 \<notin> set s \<longrightarrow> length k = 32 \<and> hex k = map lower s)"
proof -
  have "hex k = map lower s" if k: "unhex s = Some (Some k)" and "43 \<notin> set s"
  proof -
    have len: "length s = 64" using unhex_length [OF k] by simp
    with k have "unhex_from s 0 32 = Some (Some k)" by (simp only: unhex_def) simp
    from unhex_from_unique [OF this that(2)] len show ?thesis by simp
  qed
  with unhex_hex unhex_length show ?thesis by blast
qed

theorem keys_read_back_witness:
  "unhex (hex (replicate 32 171)) = Some (Some (replicate 32 171)) \<and> hex [171, 5] = ascii ''ab05''"
  using keys_read_back [of "replicate 32 171"] by (simp add: hex_def hex2_def hex_digit_def ascii_def)

section \<open>Lines and words\<close>

lemma splitn_two:
  "32 \<notin> set w \<Longrightarrow> splitn (Suc (Suc n)) (w @ 32 # r) = w # splitn (Suc n) r"
  "32 \<notin> set w \<Longrightarrow> splitn (Suc (Suc n)) w = [w]"
proof -
  show "splitn (Suc (Suc n)) (w @ 32 # r) = w # splitn (Suc n) r" if "32 \<notin> set w"
  proof -
    have "\<And>x. x \<in> set w \<Longrightarrow> x \<noteq> 32" using that by blast
    then show ?thesis by (simp add: takeWhile_append2 dropWhile_append2)
  qed
qed simp

end
