(* ===== verification/Programs.thy ===== *)
theory Programs
  imports PolledEvents Strings
begin

text \<open>
  The programs of \<open>src/examples\<close> call the C interface from Rust. Their code is a state transformer on a process: the memory
  and handles of \<open>ffi\<close> and the lines printed so far. A piece of code goes on with a value, panics or exits; a call that waits
  or has undefined behaviour ends it as it does for a C caller. Where the compiler puts locals is an argument.
\<close>

section \<open>Processes\<close>

record 'sw process =
  p_ffi :: "'sw ffi"
  p_out :: "bytes list"

datatype 'a fate = Goes 'a | Panics | Exits int

type_synonym ('a, 'sw) act = "'sw process \<Rightarrow> ('a fate \<times> 'sw process) outcome"

definition act_return :: "'a \<Rightarrow> ('a, 'sw) act" where
  "act_return x p = Return (Goes x, p)"

definition act_bind :: "('a, 'sw) act \<Rightarrow> ('a \<Rightarrow> ('b, 'sw) act) \<Rightarrow> ('b, 'sw) act" where
  "act_bind m f p =
     (case m p of
        Undefined \<Rightarrow> Undefined
      | Blocked \<Rightarrow> Blocked
      | Return (r, p') \<Rightarrow>
          (case r of Goes x \<Rightarrow> f x p' | Panics \<Rightarrow> Return (Panics, p') | Exits c \<Rightarrow> Return (Exits c, p')))"

definition act_panic :: "('a, 'sw) act" where
  "act_panic p = Return (Panics, p)"

definition act_exit :: "int \<Rightarrow> ('a, 'sw) act" where
  "act_exit c p = Return (Exits c, p)"

definition act_say :: "bytes \<Rightarrow> (unit, 'sw) act" where
  "act_say line p = Return (Goes (), p\<lparr>p_out := p_out p @ [line]\<rparr>)"

text \<open>\<open>assert_eq!(status, LP2P_OK)\<close>, and \<open>unwrap\<close>.\<close>

definition act_assert :: "bool \<Rightarrow> (unit, 'sw) act" where
  "act_assert b = (if b then act_return () else act_panic)"

definition act_unwrap :: "'a option \<Rightarrow> ('a, 'sw) act" where
  "act_unwrap r = (case r of None \<Rightarrow> act_panic | Some x \<Rightarrow> act_return x)"

section \<open>Locals\<close>

definition put_bytes :: "ptr \<Rightarrow> bytes \<Rightarrow> mem \<Rightarrow> mem" where
  "put_bytes p bs m a = (if p \<le> a \<and> a < p + length bs then Some (bs ! (a - p)) else m a)"

type_synonym locals = "(ptr \<times> bytes) list"

fun put_all :: "locals \<Rightarrow> mem \<Rightarrow> mem" where
  "put_all [] m = m"
| "put_all ((p, bs) # ls) m = put_bytes p bs (put_all ls m)"

text \<open>A call with its arguments stored where the code keeps them, and a read of what a call left there.\<close>

definition act_call :: "'sw net \<Rightarrow> libs \<Rightarrow> locals \<Rightarrow> 'sw ffi_call \<Rightarrow> (int, 'sw) act" where
  "act_call n lb ls c p =
     (case run_call n lb c ((p_ffi p)\<lparr>f_mem := put_all ls (f_mem (p_ffi p))\<rparr>) of
        Undefined \<Rightarrow> Undefined
      | Blocked \<Rightarrow> Blocked
      | Return (st, s) \<Rightarrow> Return (Goes st, p\<lparr>p_ffi := s\<rparr>))"

definition act_load :: "ptr \<Rightarrow> nat \<Rightarrow> (bytes, 'sw) act" where
  "act_load q k p =
     (case load (f_mem (p_ffi p)) q k of None \<Rightarrow> Undefined | Some bs \<Rightarrow> Return (Goes bs, p))"

text \<open>Locals that live at the same time lie apart, and none at the null pointer.\<close>

fun apart :: "(ptr \<times> nat) list \<Rightarrow> bool" where
  "apart [] \<longleftrightarrow> True"
| "apart ((p, k) # rs) \<longleftrightarrow> p \<noteq> 0 \<and> list_all (\<lambda>(q, j). p + k \<le> q \<or> q + j \<le> p) rs \<and> apart rs"

abbreviation spans :: "locals \<Rightarrow> (ptr \<times> nat) list" where
  "spans ls \<equiv> map (\<lambda>(p, bs). (p, length bs)) ls"

section \<open>Facts on locals\<close>

lemma load_put_bytes: "load (put_bytes p bs m) p (length bs) = Some bs"
  by (rule load_of_nth) (simp add: put_bytes_def)

lemma load_put_other: "p + length bs \<le> q \<or> q + k \<le> p \<Longrightarrow> load (put_bytes p bs m) q k = load m q k"
  by (rule load_cong) (auto simp: put_bytes_def region_def)

lemma dom_put_all: "dom m \<subseteq> dom (put_all ls m)"
  by (induction ls) (auto simp: put_bytes_def dom_def)

lemma dom_put_mono: "dom (put_all ls Map.empty) \<subseteq> dom (put_all ls m)"
  by (induction ls) (auto simp: put_bytes_def dom_def subset_iff)

lemma load_put_all: "(p, bs) \<in> set ls \<Longrightarrow> apart (spans ls) \<Longrightarrow> load (put_all ls m) p (length bs) = Some bs"
proof (induction ls)
  case (Cons l ls)
  obtain q cs where l: "l = (q, cs)" by fastforce
  show ?case
  proof (cases "(p, bs) = (q, cs)")
    case False
    then have "(p, bs) \<in> set ls" using Cons.prems(1) l by auto
    moreover from this have "q + length cs \<le> p \<or> p + length bs \<le> q"
      using Cons.prems(2) l by (auto simp: list_all_iff)
    ultimately show ?thesis using Cons l by (simp add: load_put_other)
  qed (simp add: l load_put_bytes)
qed simp

lemma load_put_all_other:
  "list_all (\<lambda>(p, bs). p + length bs \<le> q \<or> q + k \<le> p) ls \<Longrightarrow> load (put_all ls m) q k = load m q k"
  by (induction ls) (auto simp: load_put_other)

lemma apart_nonnull: "(p, k) \<in> set rs \<Longrightarrow> apart rs \<Longrightarrow> p \<noteq> 0"
  by (induction rs) auto

section \<open>Reasoning about code\<close>

text \<open>\<open>sure P a Q\<close>: from a process with \<open>P\<close> the code has no undefined behaviour, and if it comes to an end, \<open>Q\<close> holds of how and where.\<close>

definition sure :: "('sw process \<Rightarrow> bool) \<Rightarrow> ('a, 'sw) act \<Rightarrow> ('a fate \<Rightarrow> 'sw process \<Rightarrow> bool) \<Rightarrow> bool" where
  "sure P a Q \<longleftrightarrow> (\<forall>p. P p \<longrightarrow> a p \<noteq> Undefined \<and> (\<forall>r p'. a p = Return (r, p') \<longrightarrow> Q r p'))"

lemma sure_return: "(\<And>p. P p \<Longrightarrow> Q (Goes x) p) \<Longrightarrow> sure P (act_return x) Q"
  by (simp add: sure_def act_return_def)

lemma sure_panic: "(\<And>p. P p \<Longrightarrow> Q Panics p) \<Longrightarrow> sure P act_panic Q"
  by (simp add: sure_def act_panic_def)

lemma sure_exit: "(\<And>p. P p \<Longrightarrow> Q (Exits c) p) \<Longrightarrow> sure P (act_exit c) Q"
  by (simp add: sure_def act_exit_def)

lemma sure_say: "(\<And>p. P p \<Longrightarrow> Q (Goes ()) (p\<lparr>p_out := p_out p @ [line]\<rparr>)) \<Longrightarrow> sure P (act_say line) Q"
  by (simp add: sure_def act_say_def)

lemma sure_say_exit:
  "(\<And>p. P p \<Longrightarrow> Q (Exits c) (p\<lparr>p_out := p_out p @ [line]\<rparr>)) \<Longrightarrow> sure P (act_bind (act_say line) (\<lambda>_. act_exit c)) Q"
  by (simp add: sure_def act_bind_def act_say_def act_exit_def)

lemma sure_load:
  "(\<And>p. P p \<Longrightarrow> load (f_mem (p_ffi p)) q k \<noteq> None) \<Longrightarrow>
   (\<And>p bs. P p \<Longrightarrow> load (f_mem (p_ffi p)) q k = Some bs \<Longrightarrow> Q (Goes bs) p) \<Longrightarrow> sure P (act_load q k) Q"
  by (fastforce simp: sure_def act_load_def split: option.split)

lemma sure_bind:
  assumes "sure P m R" and "\<And>x. sure (R (Goes x)) (f x) Q"
    and "\<And>p. R Panics p \<Longrightarrow> Q Panics p" and "\<And>c p. R (Exits c) p \<Longrightarrow> Q (Exits c) p"
  shows "sure P (act_bind m f) Q"
  using assms unfolding sure_def act_bind_def
  by (auto split: outcome.splits prod.splits fate.splits)

lemma bind_unwrap: "act_bind (act_unwrap (Some x)) f = f x"
  by (rule ext) (simp add: act_bind_def act_unwrap_def act_return_def)

lemma sure_pre: "sure P a Q \<Longrightarrow> (\<And>p. P' p \<Longrightarrow> P p) \<Longrightarrow> sure P' a Q"
  by (auto simp: sure_def)

lemma sure_post: "sure P a Q \<Longrightarrow> (\<And>r p. Q r p \<Longrightarrow> Q' r p) \<Longrightarrow> sure P a Q'"
  by (auto simp: sure_def)

lemma sure_unwrap:
  "(\<And>p. P p \<Longrightarrow> r = None \<Longrightarrow> Q Panics p) \<Longrightarrow> (\<And>p x. P p \<Longrightarrow> r = Some x \<Longrightarrow> Q (Goes x) p) \<Longrightarrow> sure P (act_unwrap r) Q"
  by (cases r) (auto simp: act_unwrap_def intro: sure_panic sure_return)

lemma sure_assert:
  "(\<And>p. P p \<Longrightarrow> \<not> b \<Longrightarrow> Q Panics p) \<Longrightarrow> (\<And>p. P p \<Longrightarrow> b \<Longrightarrow> Q (Goes ()) p) \<Longrightarrow> sure P (act_assert b) Q"
  by (auto simp: act_assert_def intro: sure_panic sure_return)

section \<open>Calls and the rest of the process\<close>

text \<open>No function but \<open>lp2p_shutdown\<close> frees a handle.\<close>

definition grows_handles :: "'sw ffi \<Rightarrow> 'sw result \<Rightarrow> bool" where
  "grows_handles s r \<longleftrightarrow> (\<forall>st s'. r = Return (st, s') \<longrightarrow> dom (f_handles s) \<subseteq> dom (f_handles s'))"

named_theorems grows_intros \<open>steps of a call that free no handle\<close>

lemma grows_same [grows_intros]: "grows_handles s (Return (st, s))" "grows_handles s Blocked" "grows_handles s Undefined"
  by (simp_all add: grows_handles_def)

lemma grows_attempt [grows_intros]: "(\<And>x. r = Some (Inr x) \<Longrightarrow> grows_handles s (f x)) \<Longrightarrow> grows_handles s (attempt s r f)"
  by (auto simp: attempt_def grows_handles_def split: option.split sum.split)

lemma grows_set_node [grows_intros]: "grows_handles s (Return (st, set_node p h a s))"
  by (auto simp: grows_handles_def set_node_def)

lemma grows_mem [simp]: "grows_handles s (Return (st, s'\<lparr>f_mem := m\<rparr>)) = grows_handles s (Return (st, s'))"
  by (simp add: grows_handles_def)

lemma grows_send [grows_intros]: "grows_handles s (Return (send_to p h c s))"
  by (auto simp: send_to_def intro: grows_set_node split: prod.split)

lemma grows_write [grows_intros]:
  "grows_handles s (Return r) \<Longrightarrow> grows_handles s (write_out p bs r)"
  "grows_handles s (Return r) \<Longrightarrow> grows_handles s (write_typed p bs r)"
  "grows_handles s (Return r) \<Longrightarrow> grows_handles s (write_opt p bs r)"
  by (cases r; auto simp: write_typed_def write_opt_def write_out_def intro: grows_intros split: option.splits)+

lemma grows_query [grows_intros]: "grows_handles s (ffi_query e p query_id mk s)"
  unfolding ffi_query_def by (auto simp: Let_def intro!: grows_intros split: prod.split)

lemma grows_start [grows_intros]: "grows_handles s (lp2p_start n lb opt out box ms built evs s)"
  unfolding lp2p_start_def
  by (auto simp: Let_def intro!: grows_intros split: option.split sum.split) (auto simp: grows_handles_def)

lemma grows_verify [grows_intros]: "grows_handles s (lp2p_delegation_verify c clock deleg len at_ms group_out node_out s)"
  unfolding lp2p_delegation_verify_def
  by (auto simp: Let_def write_opt_def write_out_def intro!: grows_intros split: sum.split outcome.split option.split)

lemma every_call_grows:
  assumes "\<And>node turns. c \<noteq> Shutdown_call node turns"
  shows "grows_handles s (run_call n lb c s)"
  using assms
  by (cases c) (auto simp: command_defs lp2p_options_default_def lp2p_poll_def lp2p_rpc_request_def lp2p_topic_peers_def
      lp2p_dht_find_providers_def lp2p_dht_bootstrap_def lp2p_dht_random_walk_def lp2p_routing_sample_def lp2p_stats_get_def
      lp2p_key_from_seed_def lp2p_delegation_sign_def Let_def
      intro!: grows_intros split: option.split prod.split reply.split poll_result.split)

lemma call_effect:
  assumes "contract (n_endian n) c s" and "keys_sized (n_crypto n)" and "\<And>node turns. c \<noteq> Shutdown_call node turns"
    and "run_call n lb c s = Return (st, s')"
  shows "dom (f_mem s') = dom (f_mem s)" and "a \<notin> writes c \<Longrightarrow> f_mem s' a = f_mem s a"
    and "f_handles s p \<noteq> None \<Longrightarrow> f_handles s' p \<noteq> None"
  using every_call_sound [OF assms(1,2), of lb] every_call_grows [OF assms(3), of s n lb] assms(4)
  unfolding sound_def call_handles_def grows_handles_def by (auto dest!: subsetD)

lemma sure_call:
  assumes "\<And>p. P p \<Longrightarrow> contract (n_endian n) c ((p_ffi p)\<lparr>f_mem := put_all ls (f_mem (p_ffi p))\<rparr>)"
    and "keys_sized (n_crypto n)"
    and "\<And>p st s'. P p \<Longrightarrow> run_call n lb c ((p_ffi p)\<lparr>f_mem := put_all ls (f_mem (p_ffi p))\<rparr>) = Return (st, s') \<Longrightarrow>
      Q (Goes st) (p\<lparr>p_ffi := s'\<rparr>)"
  shows "sure P (act_call n lb ls c) Q"
proof -
  have "run_call n lb c ((p_ffi p)\<lparr>f_mem := put_all ls (f_mem (p_ffi p))\<rparr>) \<noteq> Undefined" if "P p" for p
    using every_call_sound [OF assms(1) [OF that] assms(2), of lb] by (auto simp: sound_def)
  with assms(3) show ?thesis by (auto simp: sure_def act_call_def split: outcome.split prod.split)
qed

end
