(* ===== verification/InteropPeer.thy ===== *)
theory InteropPeer
  imports Programs
begin

text \<open>
  \<open>src/examples/interop_peer.rs\<close>: a node driven line by line. \<open>interop_start\<close> is \<open>main\<close> up to the line \<open>READY\<close>; from
  there two threads share the handle, one that polls and prints events (\<open>main_step\<close>) and one that reads commands
  (\<open>reader_step\<close>). Environment variables, the base58 text of a peer id and the places of locals are arguments.
\<close>

section \<open>Lines\<close>

definition PROTOCOLS :: "bytes list" where
  "PROTOCOLS = [ascii ''/interop/echo/1'', ascii ''/interop/other/1'']"

definition ok_line :: "int \<Rightarrow> bytes" where
  "ok_line status = (if status = LP2P_OK then ascii ''OK'' else ascii ''ERROR '' @ show_int status)"

definition usage_line :: bytes where
  "usage_line = ascii ''ERROR usage''"

definition peers_line :: "int \<Rightarrow> bytes" where
  "peers_line count = (if count \<ge> 0 then ascii ''PEERS '' @ show_int count else ascii ''ERROR '' @ show_int count)"

definition id_line :: "bytes \<Rightarrow> int \<Rightarrow> u64 \<Rightarrow> bytes" where
  "id_line word status ident =
     (if status = LP2P_OK then word @ ascii '' '' @ decimal (unat ident) else ascii ''ERROR '' @ show_int status)"

text \<open>What an event prints: nothing for a type the program does not know, a panic for a topic message without a topic.\<close>

definition event_line :: "event \<Rightarrow> bytes option option" where
  "event_line ev =
     (let e = fst ev; dat = snd ev; text = from_utf8_lossy dat; sp = ascii '' '' in
      if ev_type e = LP2P_EV_LISTENING then Some (Some (ascii ''LISTENING '' @ text))
      else if ev_type e = LP2P_EV_PEER_CONNECTED then Some (Some (ascii ''CONNECTED '' @ hex (ev_node e) @ sp @ text))
      else if ev_type e = LP2P_EV_RPC_REQUEST then
        Some (Some (ascii ''REQUEST '' @ decimal (unat (ev_id e)) @ sp @ hex (ev_group e) @ sp @ hex (ev_node e) @ sp @
          decimal (unat (ev_protocol e)) @ sp @ text))
      else if ev_type e = LP2P_EV_RPC_RESPONSE then
        Some (Some (ascii ''RESPONSE '' @ decimal (unat (ev_id e)) @ sp @ hex (ev_group e) @ sp @ hex (ev_node e) @ sp @ text))
      else if ev_type e = LP2P_EV_RPC_FAILED then
        Some (Some (ascii ''FAILED '' @ decimal (unat (ev_id e)) @ sp @ decimal (unat (ev_reason e))))
      else if ev_type e = LP2P_EV_ANNOUNCEMENT then
        Some (Some (ascii ''ANNOUNCEMENT '' @ hex (ev_group e) @ sp @ hex (ev_node e) @ sp @ text))
      else if ev_type e = LP2P_EV_TOPIC_MESSAGE then
        (if length dat < 32 then None
         else Some (Some (ascii ''TOPIC '' @ hex (take 32 dat) @ sp @ hex (ev_group e) @ sp @ hex (ev_node e) @ sp @
           from_utf8_lossy (drop 32 dat))))
      else if ev_type e = LP2P_EV_DHT_RESULT then
        Some (Some (ascii ''DHT '' @ decimal (unat (ev_id e)) @ sp @ decimal (unat (ev_reason e))))
      else if ev_type e = LP2P_EV_REACHABILITY then
        Some (Some (ascii ''REACHABILITY '' @ decimal (unat (ev_reason e))))
      else if ev_type e = LP2P_EV_HOLE_PUNCH then
        Some (Some (ascii ''HOLE_PUNCH '' @ hex (ev_node e) @ sp @ decimal (unat (ev_reason e)) @ sp @ text))
      else Some None)"

section \<open>Start-up\<close>

definition byte_env :: "(bytes \<Rightarrow> bytes option) \<Rightarrow> bytes \<Rightarrow> u8 \<Rightarrow> u8" where
  "byte_env env name dflt =
     (case Option.bind (env name) (from_str_radix 10) of Some v \<Rightarrow> v | None \<Rightarrow> dflt)"

text \<open>The key of a seed; both arrays are locals.\<close>

definition key_of_seed :: "'sw net \<Rightarrow> libs \<Rightarrow> ptr \<Rightarrow> ptr \<Rightarrow> bytes \<Rightarrow> (lp2p_key, 'sw) act" where
  "key_of_seed n lb seed_at key_at seed =
     act_bind (act_call n lb [(seed_at, seed), (key_at, replicate 32 0)] (Key_from_seed seed_at key_at)) (\<lambda>status.
     act_bind (act_assert (status = LP2P_OK)) (\<lambda>_. act_load key_at 32))"

text \<open>\<open>CString::new\<close>: a NUL inside is an error.\<close>

definition cstring_new :: "bytes \<Rightarrow> bytes option" where
  "cstring_new s = (if 0 \<in> set s then None else Some (s @ [0]))"

text \<open>Where \<open>main\<close> keeps its locals.\<close>

record main_locals =
  m_seed :: ptr
  m_group_seed :: ptr
  m_key :: ptr
  m_group :: ptr
  m_delegation :: ptr
  m_listen :: ptr
  m_listen_list :: ptr
  m_dht :: ptr
  m_echo :: ptr
  m_other :: ptr
  m_protocol_list :: ptr
  m_options :: ptr
  m_raw :: ptr

definition reach_env :: "bytes option \<Rightarrow> u8" where
  "reach_env v =
     (if v = Some (ascii ''private'') then LP2P_REACH_PRIVATE
      else if v = Some (ascii ''unknown'') then LP2P_REACH_UNKNOWN
      else LP2P_REACH_PUBLIC)"

definition interop_options ::
  "(bytes \<Rightarrow> bytes option) \<Rightarrow> main_locals \<Rightarrow> bytes \<Rightarrow> lp2p_key \<Rightarrow> lp2p_options \<Rightarrow> lp2p_options" where
  "interop_options env L seed grp opt = opt\<lparr>
     node_seed := seed,
     o_delegation := word_of_nat (m_delegation L),
     o_delegation_len := LP2P_DELEGATION_BYTES,
     o_group := grp,
     listen_addrs := word_of_nat (m_listen_list L),
     listen_addr_count := 1,
     o_dht_protocol := word_of_nat (m_dht L),
     o_rpc_protocols := word_of_nat (m_protocol_list L),
     o_rpc_protocol_count := length PROTOCOLS,
     o_autonat := 0,
     o_dcutr := 0,
     o_relay := (o_relay opt)\<lparr>ro_server := (if env (ascii ''RELAY_SERVER'') = Some (ascii ''1'') then 1 else 0)\<rparr>,
     o_reachability := reach_env (env (ascii ''REACHABILITY''))\<rparr>"

definition or_text :: "bytes option \<Rightarrow> string \<Rightarrow> bytes" where
  "or_text v dflt = (case v of Some s \<Rightarrow> s | None \<Rightarrow> ascii dflt)"

definition interop_locals :: "endian \<Rightarrow> main_locals \<Rightarrow> bytes \<Rightarrow> bytes \<Rightarrow> bytes \<Rightarrow> lp2p_options \<Rightarrow> locals" where
  "interop_locals e L deleg listen dht opt =
     [(m_delegation L, deleg), (m_listen L, listen), (m_listen_list L, ne_bytes e 8 (m_listen L)), (m_dht L, dht),
      (m_echo L, PROTOCOLS ! 0 @ [0]), (m_other L, PROTOCOLS ! 1 @ [0]),
      (m_protocol_list L, ne_bytes e 8 (m_echo L) @ ne_bytes e 8 (m_other L)),
      (m_options L, options_bytes e opt), (m_raw L, ne_bytes e 8 0)]"

definition interop_start ::
  "'sw net \<Rightarrow> libs \<Rightarrow> (peer_id \<Rightarrow> bytes) \<Rightarrow> (bytes \<Rightarrow> bytes option) \<Rightarrow> main_locals \<Rightarrow> ptr \<Rightarrow> u64 \<Rightarrow>
   (config \<Rightarrow> int + 'sw) \<Rightarrow> ('sw meantime \<times> swarm_ev) list \<Rightarrow> (ptr, 'sw) act" where
  "interop_start n lb show_peer env L box ms built evs =
     (let e = n_endian n;
          seed = replicate 32 (byte_env env (ascii ''SEED'') 7);
          group_seed = replicate 32 (byte_env env (ascii ''GROUP_SEED'') 0x70) in
      act_bind (key_of_seed n lb (m_seed L) (m_key L) seed) (\<lambda>key.
      act_bind (key_of_seed n lb (m_group_seed L) (m_group L) group_seed) (\<lambda>grp.
      act_bind (act_call n lb [(m_group_seed L, group_seed), (m_key L, key), (m_delegation L, replicate LP2P_DELEGATION_BYTES 0)]
        (Delegation_sign (m_group_seed L) (m_key L) 0 (m_delegation L))) (\<lambda>status.
      act_bind (act_assert (status = LP2P_OK)) (\<lambda>_.
      act_bind (act_load (m_delegation L) LP2P_DELEGATION_BYTES) (\<lambda>deleg.
      act_bind (act_unwrap (cstring_new (or_text (env (ascii ''LISTEN'')) ''/ip4/127.0.0.1/tcp/0''))) (\<lambda>listen.
      act_bind (act_unwrap (cstring_new (or_text (env (ascii ''DHT_PROTOCOL'')) ''/interop/kad/1''))) (\<lambda>dht.
      act_bind (act_call n lb [(m_options L, replicate 272 0)] (Options_default (m_options L))) (\<lambda>_.
      act_bind (act_load (m_options L) 272) (\<lambda>bs.
      let options = interop_options env L seed grp (options_of_bytes e bs) in
      act_bind (act_call n lb (interop_locals e L deleg listen dht options)
        (Start_call (m_options L) (m_raw L) box ms built evs)) (\<lambda>status.
      if status \<noteq> LP2P_OK then act_bind (act_say (ascii ''ERROR '' @ show_int status)) (\<lambda>_. act_exit 1)
      else
        act_bind (act_load (m_raw L) 8) (\<lambda>raw.
        act_bind (act_unwrap (peer_id (n_crypto n) key)) (\<lambda>peer.
        act_bind (act_say (ascii ''READY '' @ show_peer peer @ ascii '' '' @ hex key @ ascii '' '' @ hex grp)) (\<lambda>_.
          act_return (rdsize e 0 raw)))))))))))))))"

section \<open>Commands\<close>

text \<open>Where the command thread keeps the arguments of a call.\<close>

record reader_locals =
  r_key :: ptr
  r_target :: ptr
  r_text :: ptr
  r_id :: ptr

text \<open>\<open>args.next().and_then(unhex)\<close>: the panic of \<open>unhex\<close> is one of the thread.\<close>

definition act_unhex :: "bytes \<Rightarrow> (lp2p_key option, 'sw) act" where
  "act_unhex s = act_unwrap (unhex s)"

definition read_id :: "endian \<Rightarrow> ptr \<Rightarrow> (u64, 'sw) act" where
  "read_id e q = act_bind (act_load q 8) (\<lambda>bs. act_return (rd64 e 0 bs))"

definition say_usage :: "(unit, 'sw) act" where
  "say_usage = act_say usage_line"

definition cmd_announce :: "'sw net \<Rightarrow> libs \<Rightarrow> reader_locals \<Rightarrow> ptr \<Rightarrow> bytes \<Rightarrow> (unit, 'sw) act" where
  "cmd_announce n lb L node rest =
     act_bind (act_call n lb [(r_text L, rest)] (Announce_set_payload node (r_text L) (length rest))) (\<lambda>status.
       act_say (ok_line status))"

definition cmd_subscribe :: "'sw net \<Rightarrow> libs \<Rightarrow> reader_locals \<Rightarrow> ptr \<Rightarrow> bool \<Rightarrow> bytes \<Rightarrow> (unit, 'sw) act" where
  "cmd_subscribe n lb L node follow rest =
     act_bind (act_unhex rest) (\<lambda>key.
       case key of
         None \<Rightarrow> say_usage
       | Some topic \<Rightarrow>
           act_bind (act_call n lb [(r_key L, topic)]
             ((if follow then Topic_subscribe else Topic_unsubscribe) node (r_key L))) (\<lambda>status. act_say (ok_line status)))"

definition cmd_publish :: "'sw net \<Rightarrow> libs \<Rightarrow> reader_locals \<Rightarrow> ptr \<Rightarrow> bytes \<Rightarrow> (unit, 'sw) act" where
  "cmd_publish n lb L node rest =
     (let args = splitn 2 rest in
      act_bind (act_unhex (hd args)) (\<lambda>key.
        case (key, tl args) of
          (Some topic, text # _) \<Rightarrow>
            act_bind (act_call n lb [(r_key L, topic), (r_text L, text)]
              (Topic_publish node (r_key L) (r_text L) (length text))) (\<lambda>status. act_say (ok_line status))
        | _ \<Rightarrow> say_usage))"

definition cmd_peers :: "'sw net \<Rightarrow> libs \<Rightarrow> reader_locals \<Rightarrow> 'sw turn list \<Rightarrow> ptr \<Rightarrow> bytes \<Rightarrow> (unit, 'sw) act" where
  "cmd_peers n lb L turns node rest =
     act_bind (act_unhex rest) (\<lambda>key.
       case key of
         None \<Rightarrow> say_usage
       | Some topic \<Rightarrow>
           act_bind (act_call n lb [(r_key L, topic)] (Topic_peers node (r_key L) turns)) (\<lambda>count.
             act_say (peers_line count)))"

text \<open>\<open>call\<close>: a target that is no key, not only a dash, means any node of the group.\<close>

definition call_locals :: "endian \<Rightarrow> reader_locals \<Rightarrow> lp2p_key \<Rightarrow> lp2p_key option \<Rightarrow> bytes \<Rightarrow> locals" where
  "call_locals e L grp target text =
     [(r_key L, grp), (r_text L, text), (r_id L, wr64 e 0)] @
     (case target of None \<Rightarrow> [] | Some k \<Rightarrow> [(r_target L, k)])"

definition cmd_call :: "'sw net \<Rightarrow> libs \<Rightarrow> reader_locals \<Rightarrow> ptr \<Rightarrow> bytes \<Rightarrow> (unit, 'sw) act" where
  "cmd_call n lb L node rest =
     (let args = splitn 3 rest in
      act_bind (act_unhex (hd args)) (\<lambda>key.
        case (key, tl args) of
          (Some grp, target_text # text # _) \<Rightarrow>
            act_bind (act_unhex target_text) (\<lambda>target.
            act_bind (act_call n lb (call_locals (n_endian n) L grp target text)
              (Rpc_request node (r_key L) (case target of None \<Rightarrow> 0 | Some _ \<Rightarrow> r_target L) 0 (r_text L) (length text) 0 (r_id L)))
              (\<lambda>status.
            act_bind (read_id (n_endian n) (r_id L)) (\<lambda>ident. act_say (id_line (ascii ''CALLED'') status ident))))
        | _ \<Rightarrow> say_usage))"

definition cmd_add :: "'sw net \<Rightarrow> libs \<Rightarrow> reader_locals \<Rightarrow> ptr \<Rightarrow> bytes \<Rightarrow> (unit, 'sw) act" where
  "cmd_add n lb L node rest =
     (let args = splitn 2 rest in
      act_bind (act_unhex (hd args)) (\<lambda>key.
        case (key, tl args) of
          (Some target, address # _) \<Rightarrow>
            act_bind (act_unwrap (cstring_new address)) (\<lambda>address.
            act_bind (act_call n lb [(r_key L, target), (r_text L, address)] (Add_address node (r_key L) (r_text L))) (\<lambda>status.
              act_say (ok_line status)))
        | _ \<Rightarrow> say_usage))"

definition cmd_bootstrap :: "'sw net \<Rightarrow> libs \<Rightarrow> reader_locals \<Rightarrow> ptr \<Rightarrow> (unit, 'sw) act" where
  "cmd_bootstrap n lb L node =
     act_bind (act_call n lb [(r_id L, wr64 (n_endian n) 0)] (Dht_bootstrap node (r_id L))) (\<lambda>status.
     act_bind (read_id (n_endian n) (r_id L)) (\<lambda>ident. act_say (id_line (ascii ''BOOTSTRAP'') status ident)))"

text \<open>One line; the result says whether it was \<open>quit\<close>.\<close>

definition stdin_line :: "'sw net \<Rightarrow> libs \<Rightarrow> reader_locals \<Rightarrow> 'sw turn list \<Rightarrow> ptr \<Rightarrow> bytes \<Rightarrow> (bool, 'sw) act" where
  "stdin_line n lb L turns node line =
     (let parts = splitn 2 line;
          cmd = hd parts;
          rest = (case tl parts of [] \<Rightarrow> [] | r # _ \<Rightarrow> r);
          go = (\<lambda>a. act_bind a (\<lambda>_. act_return False))
      in if cmd = ascii ''announce'' then go (cmd_announce n lb L node rest)
         else if cmd = ascii ''subscribe'' \<or> cmd = ascii ''unsubscribe''
         then go (cmd_subscribe n lb L node (cmd = ascii ''subscribe'') rest)
         else if cmd = ascii ''publish'' then go (cmd_publish n lb L node rest)
         else if cmd = ascii ''peers'' then go (cmd_peers n lb L turns node rest)
         else if cmd = ascii ''call'' then go (cmd_call n lb L node rest)
         else if cmd = ascii ''add'' then go (cmd_add n lb L node rest)
         else if cmd = ascii ''bootstrap'' then go (cmd_bootstrap n lb L node)
         else if cmd = ascii ''quit'' then act_return True
         else go (act_say (ascii ''ERROR unknown command '' @ cmd)))"

section \<open>The two threads\<close>

datatype main_pc = At_poll | Walking nat nat

datatype reader_pc = Reading "bytes option list" | Quitting | Leaving | Stopped_short

record 'sw peer_state =
  x_proc :: "'sw process"
  x_main :: main_pc
  x_reader :: reader_pc
  x_over :: "int option"

definition POLL_BUFFER :: nat where
  "POLL_BUFFER = 2 ^ 20"

text \<open>The code of a thread, run in the process: an exit ends it, and so does a panic of the main thread.\<close>

definition run_act ::
  "('a, 'sw) act \<Rightarrow> ('a \<Rightarrow> 'sw peer_state \<Rightarrow> 'sw peer_state) \<Rightarrow> ('sw peer_state \<Rightarrow> 'sw peer_state) \<Rightarrow>
   'sw peer_state \<Rightarrow> 'sw peer_state outcome" where
  "run_act a go panicked x =
     (case a (x_proc x) of
        Undefined \<Rightarrow> Undefined
      | Blocked \<Rightarrow> Blocked
      | Return (r, p) \<Rightarrow>
          (let x = x\<lparr>x_proc := p\<rparr> in
           case r of
             Goes v \<Rightarrow> Return (go v x)
           | Panics \<Rightarrow> Return (panicked x)
           | Exits c \<Rightarrow> Return (x\<lparr>x_over := Some c\<rparr>)))"

definition main_panicked :: "'sw peer_state \<Rightarrow> 'sw peer_state" where
  "main_panicked x = x\<lparr>x_over := Some 101\<rparr>"

definition act_poll :: "'sw net \<Rightarrow> libs \<Rightarrow> ptr \<Rightarrow> ptr \<Rightarrow> instant \<Rightarrow> (instant \<times> queue_op list) list \<Rightarrow> (nat, 'sw) act" where
  "act_poll n lb node buf now sched =
     act_bind (act_call n lb [] (Poll_call node buf POLL_BUFFER 1000 now sched)) (\<lambda>count.
       if count = LP2P_ERR_SHUT_DOWN then act_exit 0
       else if count < 0 then act_bind (act_say (ascii ''ERROR '' @ show_int count)) (\<lambda>_. act_exit 1)
       else act_return (nat count))"

text \<open>
  One round of the inner loop, at an offset with room for a header: the event that is read there, unless a slice runs over the
  buffer. The header is read through a pointer.
\<close>

definition act_record :: "'sw net \<Rightarrow> ptr \<Rightarrow> nat \<Rightarrow> (event, 'sw) act" where
  "act_record n buf offset =
     act_bind (act_assert (offset \<le> POLL_BUFFER)) (\<lambda>_.
     act_bind (act_load (buf + offset) LP2P_EVENT_HEADER_BYTES) (\<lambda>bs.
     let header = read_header (n_endian n) bs;
         start = offset + LP2P_EVENT_HEADER_BYTES in
     act_bind (act_assert (start + unat (ev_data_len header) \<le> POLL_BUFFER)) (\<lambda>_.
     act_bind (act_load (buf + start) (unat (ev_data_len header))) (\<lambda>dat. act_return (header, dat)))))"

definition act_event :: "'sw net \<Rightarrow> libs \<Rightarrow> ptr \<Rightarrow> ptr \<Rightarrow> event \<Rightarrow> (unit, 'sw) act" where
  "act_event n lb answer_at node ev =
     act_bind (act_unwrap (event_line ev)) (\<lambda>line.
     act_bind (case line of None \<Rightarrow> act_return () | Some l \<Rightarrow> act_say l) (\<lambda>_.
       if ev_type (fst ev) = LP2P_EV_RPC_REQUEST then
         let answer = ascii ''rust:'' @ from_utf8_lossy (snd ev) in
         act_bind (act_call n lb [(answer_at, answer)] (Rpc_respond node (ev_id (fst ev)) answer_at (length answer)))
           (\<lambda>_. act_return ())
       else act_return ()))"

definition main_step ::
  "'sw net \<Rightarrow> libs \<Rightarrow> ptr \<Rightarrow> ptr \<Rightarrow> ptr \<Rightarrow> instant \<Rightarrow> (instant \<times> queue_op list) list \<Rightarrow> 'sw peer_state \<Rightarrow> 'sw peer_state outcome" where
  "main_step n lb buf answer_at node now sched x =
     (case x_main x of
        At_poll \<Rightarrow> run_act (act_poll n lb node buf now sched) (\<lambda>count y. y\<lparr>x_main := Walking count 0\<rparr>) main_panicked x
      | Walking count offset \<Rightarrow>
          if offset + LP2P_EVENT_HEADER_BYTES \<le> count then
            run_act (act_bind (act_record n buf offset) (\<lambda>ev.
                act_bind (act_event n lb answer_at node ev) (\<lambda>_. act_return (unat (ev_size (fst ev))))))
              (\<lambda>size y. y\<lparr>x_main := Walking count (offset + size)\<rparr>) main_panicked x
          else Return (x\<lparr>x_main := At_poll\<rparr>))"

text \<open>
  The command thread. The end of input, a line that is not text and \<open>quit\<close> all lead to the same two calls: the node is shut
  down, and then the process exits. A panic ends this thread only.
\<close>

definition act_shutdown :: "'sw net \<Rightarrow> libs \<Rightarrow> 'sw turn list \<Rightarrow> ptr \<Rightarrow> (unit, 'sw) act" where
  "act_shutdown n lb turns node = act_bind (act_call n lb [] (Shutdown_call node turns)) (\<lambda>_. act_return ())"

definition reader_step ::
  "'sw net \<Rightarrow> libs \<Rightarrow> reader_locals \<Rightarrow> 'sw turn list \<Rightarrow> ptr \<Rightarrow> 'sw peer_state \<Rightarrow> 'sw peer_state outcome" where
  "reader_step n lb L turns node x =
     (let stopped = (\<lambda>y. y\<lparr>x_reader := Stopped_short\<rparr>)
      in case x_reader x of
           Reading (Some line # rest) \<Rightarrow>
             run_act (stdin_line n lb L turns node line)
               (\<lambda>quit y. y\<lparr>x_reader := (if quit then Quitting else Reading rest)\<rparr>) stopped x
         | Reading _ \<Rightarrow> Return (x\<lparr>x_reader := Quitting\<rparr>)
         | Quitting \<Rightarrow> run_act (act_shutdown n lb turns node) (\<lambda>_ y. y\<lparr>x_reader := Leaving\<rparr>) stopped x
         | Leaving \<Rightarrow> run_act (act_exit 0) (\<lambda>(_ :: unit) y. y) stopped x
         | Stopped_short \<Rightarrow> Blocked)"

end
