(* ===== verification/InteropRuns.thy ===== *)
theory InteropRuns
  imports InteropPeer
begin

text \<open>
  The interop peer in every interleaving of its two threads with the thread of the node. Until it has shut the node down none of
  its calls has undefined behaviour, whatever lines it is given and whatever the network sends, and the thread that prints
  the events never panics.
\<close>

section \<open>Runs\<close>

text \<open>Strings are on the heap, above the buffer and the arrays.\<close>

definition layout_ok :: "reader_locals \<Rightarrow> ptr \<Rightarrow> ptr \<Rightarrow> bool" where
  "layout_ok L buf answer_at \<longleftrightarrow>
     apart [(buf, POLL_BUFFER), (r_id L, 8), (r_key L, 32), (r_target L, 32)] \<and> aligned 8 (r_id L) \<and>
     list_all (\<lambda>(p, k). p + k \<le> r_text L) [(buf, POLL_BUFFER), (r_id L, 8), (r_key L, 32), (r_target L, 32)] \<and>
     buf + POLL_BUFFER \<le> answer_at"

text \<open>What the rest of the world owes a step: identifiers are left and libp2p does not repeat its own.\<close>

definition fair_at :: "'sw net \<Rightarrow> ('sw \<Rightarrow> request_id set) \<Rightarrow> ('sw \<Rightarrow> query_id set) \<Rightarrow> 'sw turn list \<Rightarrow> ptr \<Rightarrow> 'sw ffi \<Rightarrow> bool" where
  "fair_at n iss isq turns node s \<longleftrightarrow> (\<forall>h. f_handles s node = Some h \<longrightarrow>
     ids_left (l_node h) \<and> (\<forall>c. turns_ok n iss isq turns (snd (send c (l_node h)))))"

inductive interop_run ::
  "'sw net \<Rightarrow> libs \<Rightarrow> ('sw \<Rightarrow> request_id set) \<Rightarrow> ('sw \<Rightarrow> query_id set) \<Rightarrow> reader_locals \<Rightarrow> ptr \<Rightarrow> ptr \<Rightarrow> ptr \<Rightarrow> 'sw peer_state \<Rightarrow> bool"
  for n lb iss isq L buf answer_at node where
  ready: "c_run n lb iss isq (p_ffi p) \<Longrightarrow> f_handles (p_ffi p) node \<noteq> None \<Longrightarrow>
    load (f_mem (p_ffi p)) buf POLL_BUFFER \<noteq> None \<Longrightarrow>
    interop_run n lb iss isq L buf answer_at node \<lparr>x_proc = p, x_main = At_poll, x_reader = Reading lines, x_over = None\<rparr>"
| prints: "interop_run n lb iss isq L buf answer_at node x \<Longrightarrow> x_over x = None \<Longrightarrow>
    fair_at n iss isq [] node (p_ffi (x_proc x)) \<Longrightarrow> list_all (\<lambda>op. snd op = []) sched \<Longrightarrow>
    main_step n lb buf answer_at node now sched x = Return y \<Longrightarrow> interop_run n lb iss isq L buf answer_at node y"
| reads: "interop_run n lb iss isq L buf answer_at node x \<Longrightarrow> x_over x = None \<Longrightarrow>
    fair_at n iss isq turns node (p_ffi (x_proc x)) \<Longrightarrow>
    reader_step n lb L turns node x = Return y \<Longrightarrow> interop_run n lb iss isq L buf answer_at node y"
| serves: "interop_run n lb iss isq L buf answer_at node x \<Longrightarrow> x_over x = None \<Longrightarrow>
    f_handles (p_ffi (x_proc x)) q = Some h \<Longrightarrow> ids_left (l_node h) \<Longrightarrow> grows iss isq (fst t) \<Longrightarrow>
    interop_run n lb iss isq L buf answer_at node
      (x_proc_update (p_ffi_update (set_node q h (snd (node_turn n t (l_node h))))) x)"

section \<open>The invariant\<close>

text \<open>The process between two steps, with what stands in the poll buffer.\<close>

definition alive ::
  "'sw net \<Rightarrow> libs \<Rightarrow> ('sw \<Rightarrow> request_id set) \<Rightarrow> ('sw \<Rightarrow> query_id set) \<Rightarrow> ptr \<Rightarrow> ptr \<Rightarrow> bytes \<Rightarrow> 'sw process \<Rightarrow> bool" where
  "alive n lb iss isq buf node buffer p \<longleftrightarrow> c_run n lb iss isq (p_ffi p) \<and> f_handles (p_ffi p) node \<noteq> None \<and>
     load (f_mem (p_ffi p)) buf POLL_BUFFER = Some buffer"

text \<open>What is left to walk are events.\<close>

definition walk_ok :: "endian \<Rightarrow> bytes \<Rightarrow> main_pc \<Rightarrow> bool" where
  "walk_ok e buffer pc \<longleftrightarrow> (case pc of
     At_poll \<Rightarrow> True
   | Walking count offset \<Rightarrow> count \<le> POLL_BUFFER \<and>
       (\<exists>acc evs. read_loop e buffer count offset acc = Some (Inr (acc @ evs)) \<and> (\<forall>ev \<in> set evs. shaped ev)))"

definition peer_ok ::
  "'sw net \<Rightarrow> libs \<Rightarrow> ('sw \<Rightarrow> request_id set) \<Rightarrow> ('sw \<Rightarrow> query_id set) \<Rightarrow> ptr \<Rightarrow> ptr \<Rightarrow> 'sw peer_state \<Rightarrow> bool" where
  "peer_ok n lb iss isq buf node x \<longleftrightarrow> x_reader x = Leaving \<or>
     (x_over x \<noteq> Some 101 \<and>
      (x_over x = None \<longrightarrow>
        (\<exists>buffer. alive n lb iss isq buf node buffer (x_proc x) \<and> walk_ok (n_endian n) buffer (x_main x))))"

section \<open>Calls\<close>

text \<open>The functions that neither start nor end a node nor poll, with the turns the loop takes while they wait.\<close>

definition plain :: "'sw turn list \<Rightarrow> 'sw ffi_call \<Rightarrow> bool" where
  "plain turns c \<longleftrightarrow> (case c of
     Start_call _ _ _ _ _ _ \<Rightarrow> False | Shutdown_call _ _ \<Rightarrow> False | Poll_call _ _ _ _ _ _ \<Rightarrow> False
   | Topic_peers _ _ ts \<Rightarrow> ts = turns | Routing_sample _ _ _ _ ts \<Rightarrow> ts = turns | _ \<Rightarrow> True)"

lemma fair_env:
  assumes "fair_at n iss isq turns node s" and "handle_of c = Some node" and "plain turns c"
  shows "call_env_ok n iss isq c s"
  using assms by (cases c) (auto simp: fair_at_def plain_def call_env_ok_def)

lemma fair_mem [simp]: "fair_at n iss isq turns node (s\<lparr>f_mem := m\<rparr>) = fair_at n iss isq turns node s"
  by (simp add: fair_at_def)

lemma alive_call:
  assumes "keys_sized (n_crypto n)" and "handle_of c = Some node" and "plain turns c"
    and "\<And>s. f_handles s node \<noteq> None \<Longrightarrow> contract (n_endian n) c (s\<lparr>f_mem := put_all ls (f_mem s)\<rparr>)"
    and "list_all (\<lambda>(p, bs). p + length bs \<le> buf \<or> buf + POLL_BUFFER \<le> p) ls"
    and "writes c \<inter> region buf POLL_BUFFER = {}"
  shows "sure (\<lambda>p. alive n lb iss isq buf node buffer p \<and> fair_at n iss isq turns node (p_ffi p)) (act_call n lb ls c)
    (\<lambda>r p. alive n lb iss isq buf node buffer p \<and> (\<exists>st. r = Goes st) \<and>
       (\<forall>q k. load (put_all ls Map.empty) q k \<noteq> None \<longrightarrow> load (f_mem (p_ffi p)) q k \<noteq> None))"
proof (rule sure_call)
  fix p :: "'a process" and st s'
  let ?s = "(p_ffi p)\<lparr>f_mem := put_all ls (f_mem (p_ffi p))\<rparr>"
  assume p: "alive n lb iss isq buf node buffer p \<and> fair_at n iss isq turns node (p_ffi p)"
    and r: "run_call n lb c ?s = Return (st, s')"
  have contract: "contract (n_endian n) c ?s" using p assms(4) by (simp add: alive_def)
  have other: "\<And>node turns. c \<noteq> Shutdown_call node turns" using assms(3) by (auto simp: plain_def)
  note effect = call_effect [OF contract assms(1) other r]
  have "c_run n lb iss isq ?s" using p by (auto simp: alive_def intro: computes)
  moreover have "call_env_ok n iss isq c ?s" using p assms(2,3) by (intro fair_env) simp_all
  ultimately have "c_run n lb iss isq s'" by (rule calls [OF _ contract _ r])
  moreover have "load (f_mem s') buf POLL_BUFFER = load (f_mem ?s) buf POLL_BUFFER"
    by (rule load_cong) (use assms(6) effect(2) in blast)
  then have "load (f_mem s') buf POLL_BUFFER = Some buffer"
    using p load_put_all_other [OF assms(5)] by (simp add: alive_def del: load.simps)
  moreover have "load (f_mem s') q k \<noteq> None" if "load (put_all ls Map.empty) q k \<noteq> None" for q k
    using that effect(1) dom_put_mono [of ls "f_mem (p_ffi p)"] unfolding load_mapped by auto
  ultimately show "alive n lb iss isq buf node buffer (p\<lparr>p_ffi := s'\<rparr>) \<and> (\<exists>x. Goes st = Goes x) \<and>
      (\<forall>q k. load (put_all ls Map.empty) q k \<noteq> None \<longrightarrow> load (f_mem (p_ffi (p\<lparr>p_ffi := s'\<rparr>))) q k \<noteq> None)"
    using p effect(3) [of node] by (simp add: alive_def)
qed (use assms in \<open>auto simp: alive_def\<close>)

section \<open>Commands\<close>

lemma placed_mapped:
  "apart (spans ((p, bs) # ls)) \<Longrightarrow> length bs = k \<Longrightarrow> mapped (put_all ((p, bs) # ls) m) p k"
  "apart (spans (l1 # (p, bs) # ls)) \<Longrightarrow> length bs = k \<Longrightarrow> mapped (put_all (l1 # (p, bs) # ls) m) p k"
  "apart (spans (l1 # l2 # l3 # (p, bs) # ls)) \<Longrightarrow> length bs = k \<Longrightarrow> mapped (put_all (l1 # l2 # l3 # (p, bs) # ls) m) p k"
  using load_put_all [of p bs] by (auto simp: mapped_def simp del: put_all.simps apart.simps)

lemma placed_typed:
  "apart (spans ((p, bs) # ls)) \<Longrightarrow> length bs = k \<Longrightarrow> aligned 8 p \<Longrightarrow> mapped_typed (put_all ((p, bs) # ls) m) p k"
  "apart (spans (l1 # l2 # (p, bs) # ls)) \<Longrightarrow> length bs = k \<Longrightarrow> aligned 8 p \<Longrightarrow> mapped_typed (put_all (l1 # l2 # (p, bs) # ls) m) p k"
  using load_put_all [of p bs] by (auto simp: mapped_typed_def simp del: put_all.simps apart.simps)

lemma placed_string:
  assumes "apart (spans (l1 # (p, bs) # ls))" and "cstring_new s = Some bs"
  shows "str_ok (put_all (l1 # (p, bs) # ls) m) p"
  using cstr_terminates [of "put_all (l1 # (p, bs) # ls) m" p s] load_put_all [OF _ assms(1), of p bs m] assms(2)
  by (auto simp: str_ok_def cstring_new_def split: if_splits simp del: put_all.simps apart.simps load.simps)

text \<open>The locals of a command lie apart from each other and from the buffer.\<close>

definition placed :: "ptr \<Rightarrow> locals \<Rightarrow> bool" where
  "placed buf ls \<longleftrightarrow> apart (spans ls) \<and> list_all (\<lambda>(p, bs). p + length bs \<le> buf \<or> buf + POLL_BUFFER \<le> p) ls"

lemma placed_locals:
  assumes "layout_ok L buf answer_at"
  shows "placed buf [(r_text L, msg)]" and "placed buf [(answer_at, msg)]"
    and "length k = 32 \<Longrightarrow> placed buf [(r_key L, k)]"
    and "length k = 32 \<Longrightarrow> placed buf [(r_key L, k), (r_text L, msg)]"
    and "placed buf [(r_id L, wr64 e i)]"
    and "length k = 32 \<Longrightarrow> (\<And>t. target = Some t \<Longrightarrow> length t = 32) \<Longrightarrow> placed buf (call_locals e L k target msg)"
  using assms by (auto simp: layout_ok_def placed_def call_locals_def split: option.split)

lemma id_clear: "layout_ok L buf answer_at \<Longrightarrow> region (r_id L) 8 \<inter> region buf POLL_BUFFER = {}"
  by (auto simp: layout_ok_def region_def)

lemma layout_aligned: "layout_ok L buf answer_at \<Longrightarrow> aligned 8 (r_id L)"
  by (simp add: layout_ok_def)

text \<open>A command keeps the process alive and goes on, or panics.\<close>

definition obeys ::
  "'sw net \<Rightarrow> libs \<Rightarrow> ('sw \<Rightarrow> request_id set) \<Rightarrow> ('sw \<Rightarrow> query_id set) \<Rightarrow> 'sw turn list \<Rightarrow> ptr \<Rightarrow> ptr \<Rightarrow> bytes \<Rightarrow>
   ('a, 'sw) act \<Rightarrow> bool" where
  "obeys n lb iss isq turns buf node buffer a \<longleftrightarrow>
     sure (\<lambda>p. alive n lb iss isq buf node buffer p \<and> fair_at n iss isq turns node (p_ffi p)) a
       (\<lambda>r p. alive n lb iss isq buf node buffer p \<and> (\<forall>c. r \<noteq> Exits c))"

lemma alive_out [simp]: "alive n lb iss isq buf node buffer (p\<lparr>p_out := out\<rparr>) = alive n lb iss isq buf node buffer p"
  by (simp add: alive_def)

lemma obeys_say: "obeys n lb iss isq turns buf node buffer (act_say l)"
  by (auto simp: obeys_def intro!: sure_say)

lemma obeys_unhex:
  assumes "\<And>k. (\<And>key. k = Some key \<Longrightarrow> length key = 32) \<Longrightarrow> obeys n lb iss isq turns buf node buffer (f k)"
  shows "obeys n lb iss isq turns buf node buffer (act_bind (act_unhex s) f)"
  unfolding obeys_def act_unhex_def
proof (rule sure_bind)
  let ?I = "\<lambda>p. alive n lb iss isq buf node buffer p \<and> fair_at n iss isq turns node (p_ffi p)"
  show "sure ?I (act_unwrap (unhex s)) (\<lambda>r p. ?I p \<and> (\<forall>c. r \<noteq> Exits c) \<and> (\<forall>k. r = Goes k \<longrightarrow> unhex s = Some k))"
    by (rule sure_unwrap) auto
  show "sure (\<lambda>p. ?I p \<and> (\<forall>c. Goes k \<noteq> Exits c) \<and> (\<forall>k'. Goes k = Goes k' \<longrightarrow> unhex s = Some k')) (f k)
      (\<lambda>r p. alive n lb iss isq buf node buffer p \<and> (\<forall>c. r \<noteq> Exits c))" for k
  proof (cases "unhex s = Some k")
    case True
    then have "obeys n lb iss isq turns buf node buffer (f k)" using unhex_length by (intro assms) auto
    then show ?thesis unfolding obeys_def by (rule sure_pre) simp
  qed (simp add: sure_def)
qed auto

lemma obeys_call:
  assumes "keys_sized (n_crypto n)" and "handle_of c = Some node" and "plain turns c"
    and "\<And>s. f_handles s node \<noteq> None \<Longrightarrow> contract (n_endian n) c (s\<lparr>f_mem := put_all ls (f_mem s)\<rparr>)"
    and "placed buf ls" and "writes c \<inter> region buf POLL_BUFFER = {}"
  shows "obeys n lb iss isq turns buf node buffer (act_bind (act_call n lb ls c) (\<lambda>st. act_say (f st)))"
  unfolding obeys_def
  by (rule sure_bind [OF alive_call [OF assms(1-4) conjunct2 [OF assms(5) [unfolded placed_def]] assms(6)]]) (auto intro!: sure_say)

text \<open>The same for the two functions that report an identifier, which is read back afterwards.\<close>

lemma obeys_id_call:
  assumes "keys_sized (n_crypto n)" and "handle_of c = Some node" and "plain turns c"
    and "\<And>s. f_handles s node \<noteq> None \<Longrightarrow> contract (n_endian n) c (s\<lparr>f_mem := put_all ls (f_mem s)\<rparr>)"
    and "placed buf ls" and "writes c \<inter> region buf POLL_BUFFER = {}" and "load (put_all ls Map.empty) q 8 \<noteq> None"
  shows "obeys n lb iss isq turns buf node buffer
    (act_bind (act_call n lb ls c) (\<lambda>st. act_bind (read_id e q) (\<lambda>i. act_say (f st i))))"
  unfolding obeys_def read_id_def
proof (rule sure_bind [OF alive_call [OF assms(1-4) conjunct2 [OF assms(5) [unfolded placed_def]] assms(6)]])
  let ?I = "alive n lb iss isq buf node buffer"
  fix st
  show "sure (\<lambda>p. ?I p \<and> (\<exists>x. Goes st = Goes x) \<and>
        (\<forall>q k. load (put_all ls Map.empty) q k \<noteq> None \<longrightarrow> load (f_mem (p_ffi p)) q k \<noteq> None))
      (act_bind (act_bind (act_load q 8) (\<lambda>bs. act_return (rd64 e 0 bs))) (\<lambda>i. act_say (f st i)))
      (\<lambda>r p. ?I p \<and> (\<forall>c. r \<noteq> Exits c))"
  proof (rule sure_bind [where R = "\<lambda>r p. ?I p \<and> (\<forall>c. r \<noteq> Exits c)"])
    show "sure (\<lambda>p. ?I p \<and> (\<exists>x. Goes st = Goes x) \<and>
          (\<forall>q k. load (put_all ls Map.empty) q k \<noteq> None \<longrightarrow> load (f_mem (p_ffi p)) q k \<noteq> None))
        (act_bind (act_load q 8) (\<lambda>bs. act_return (rd64 e 0 bs))) (\<lambda>r p. ?I p \<and> (\<forall>c. r \<noteq> Exits c))"
      by (rule sure_bind [where R = "\<lambda>r p. ?I p \<and> (\<forall>c. r \<noteq> Exits c)"], rule sure_load)
        (use assms(7) in \<open>auto intro!: sure_return simp del: load.simps\<close>)
  qed (auto intro!: sure_say)
qed auto

lemma live_put [simp]: "live_handle (s\<lparr>f_mem := m\<rparr>) p = live_handle s p"
  by (simp add: live_handle_def)

lemma region_disjoint: "p + k \<le> q \<or> q + j \<le> p \<Longrightarrow> region p k \<inter> region q j = {}"
  by (auto simp: region_def)

lemma placed_apart: "placed buf ls \<Longrightarrow> apart (spans ls)"
  by (simp add: placed_def)

lemma obeys_announce:
  assumes "keys_sized (n_crypto n)" and "layout_ok L buf answer_at"
  shows "obeys n lb iss isq turns buf node buffer (cmd_announce n lb L node rest)"
proof -
  note p = placed_locals(1) [OF assms(2), of rest]
  show ?thesis
    unfolding cmd_announce_def
    by (rule obeys_call [OF assms(1) _ _ _ p])
      (simp_all add: plain_def live_handle_def placed_mapped(1) [OF placed_apart [OF p]] del: put_all.simps)
qed

lemma obeys_topic:
  assumes "keys_sized (n_crypto n)" and "layout_ok L buf answer_at" and "length k = 32" and "handle_of c = Some node"
    and "plain turns c" and "writes c = {}"
    and "\<And>s. contract (n_endian n) c s \<longleftrightarrow> live_handle s node \<and> mapped (f_mem s) (r_key L) 32"
  shows "obeys n lb iss isq turns buf node buffer (act_bind (act_call n lb [(r_key L, k)] c) (\<lambda>st. act_say (f st)))"
proof -
  note p = placed_locals(3) [OF assms(2,3)]
  show ?thesis
    by (rule obeys_call [OF assms(1,4,5) _ p])
      (simp_all add: assms(3,6,7) live_handle_def placed_mapped(1) [OF placed_apart [OF p]] del: put_all.simps)
qed

lemma obeys_subscribe:
  assumes "keys_sized (n_crypto n)" and "layout_ok L buf answer_at"
  shows "obeys n lb iss isq turns buf node buffer (cmd_subscribe n lb L node follow rest)"
  unfolding cmd_subscribe_def say_usage_def
  by (rule obeys_unhex) (auto split: option.split intro!: obeys_say obeys_topic [OF assms] simp: plain_def)

lemma obeys_peers:
  assumes "keys_sized (n_crypto n)" and "layout_ok L buf answer_at"
  shows "obeys n lb iss isq turns buf node buffer (cmd_peers n lb L turns node rest)"
  unfolding cmd_peers_def say_usage_def
  by (rule obeys_unhex) (auto split: option.split intro!: obeys_say obeys_topic [OF assms] simp: plain_def)

lemma obeys_publish:
  assumes "keys_sized (n_crypto n)" and "layout_ok L buf answer_at"
  shows "obeys n lb iss isq turns buf node buffer (cmd_publish n lb L node rest)"
proof -
  have "obeys n lb iss isq turns buf node buffer (act_bind (act_call n lb [(r_key L, k), (r_text L, msg)]
      (Topic_publish node (r_key L) (r_text L) (length msg))) (\<lambda>st. act_say (ok_line st)))" if "length k = 32" for k msg
  proof -
    note p = placed_locals(4) [OF assms(2) that, of msg]
    show ?thesis
      by (rule obeys_call [OF assms(1) _ _ _ p])
        (simp_all add: plain_def live_handle_def that placed_mapped(1,2) [OF placed_apart [OF p]] del: put_all.simps)
  qed
  then show ?thesis
    unfolding cmd_publish_def say_usage_def Let_def
    by (intro obeys_unhex) (auto split: option.split list.split intro!: obeys_say)
qed

lemma obeys_add:
  assumes "keys_sized (n_crypto n)" and "layout_ok L buf answer_at"
  shows "obeys n lb iss isq turns buf node buffer (cmd_add n lb L node rest)"
proof -
  have "obeys n lb iss isq turns buf node buffer (act_bind (act_call n lb [(r_key L, k), (r_text L, s)]
      (Add_address node (r_key L) (r_text L))) (\<lambda>st. act_say (ok_line st)))"
    if "length k = 32" "cstring_new a = Some s" for k a s
  proof -
    note p = placed_locals(4) [OF assms(2) that(1), of s]
    show ?thesis
      by (rule obeys_call [OF assms(1) _ _ _ p])
        (simp_all add: plain_def live_handle_def that placed_mapped(1,2) [OF placed_apart [OF p]]
          placed_string [OF placed_apart [OF p] that(2)] del: put_all.simps)
  qed
  then have "obeys n lb iss isq turns buf node buffer (act_bind (act_unwrap (cstring_new a)) (\<lambda>s.
      act_bind (act_call n lb [(r_key L, k), (r_text L, s)] (Add_address node (r_key L) (r_text L))) (\<lambda>st. act_say (ok_line st))))"
    if "length k = 32" for k a
    using that by (cases "cstring_new a")
      (simp_all add: obeys_def act_unwrap_def sure_def act_bind_def act_panic_def act_return_def)
  then show ?thesis
    unfolding cmd_add_def say_usage_def Let_def
    by (intro obeys_unhex) (auto split: option.split list.split intro!: obeys_say)
qed

lemma obeys_bootstrap:
  assumes "keys_sized (n_crypto n)" and "layout_ok L buf answer_at"
  shows "obeys n lb iss isq turns buf node buffer (cmd_bootstrap n lb L node)"
proof -
  let ?ls = "[(r_id L, wr64 (n_endian n) 0)]"
  note p = placed_locals(5) [OF assms(2), of "n_endian n" 0]
  have "load (put_all ?ls Map.empty) (r_id L) 8 \<noteq> None"
    using load_put_all [OF _ placed_apart [OF p], of "r_id L"] by (auto simp del: put_all.simps load.simps apart.simps)
  then show ?thesis
    unfolding cmd_bootstrap_def
    by (intro obeys_id_call [OF assms(1) _ _ _ p])
      (simp_all add: plain_def live_handle_def placed_typed(1) [OF placed_apart [OF p]] layout_aligned [OF assms(2)]
        id_clear [OF assms(2)] del: put_all.simps load.simps)
qed

lemma obeys_request:
  assumes "keys_sized (n_crypto n)" and "layout_ok L buf answer_at"
    and "length k = 32" and "\<And>t. target = Some t \<Longrightarrow> length t = 32"
  shows "obeys n lb iss isq turns buf node buffer
    (act_bind (act_call n lb (call_locals (n_endian n) L k target msg)
      (Rpc_request node (r_key L) (case target of None \<Rightarrow> 0 | Some _ \<Rightarrow> r_target L) 0 (r_text L) (length msg) 0 (r_id L)))
      (\<lambda>status. act_bind (read_id (n_endian n) (r_id L)) (\<lambda>ident. act_say (f status ident))))"
proof -
  let ?ls = "call_locals (n_endian n) L k target msg"
  have p: "placed buf ?ls" by (rule placed_locals(6) [OF assms(2,3)]) (rule assms(4))
  note a = placed_apart [OF p, unfolded call_locals_def append.simps]
  have id: "load (put_all ?ls Map.empty) (r_id L) 8 \<noteq> None"
    using load_put_all [OF _ placed_apart [OF p], of "r_id L" "wr64 (n_endian n) 0"]
    by (simp add: call_locals_def del: put_all.simps load.simps apart.simps)
  have "mapped (put_all ?ls m) (case target of None \<Rightarrow> 0 | Some _ \<Rightarrow> r_target L) 32" for m
  proof (cases target)
    case (Some t)
    then show ?thesis
      using placed_mapped(3) [OF a [unfolded Some option.case]] assms(4) by (simp add: call_locals_def del: put_all.simps)
  qed (simp add: mapped_def)
  then show ?thesis
    by (intro obeys_id_call [OF assms(1) _ _ _ p _ id])
      (simp_all add: plain_def live_handle_def assms(3) layout_aligned [OF assms(2)] id_clear [OF assms(2)] call_locals_def
        placed_mapped(1,2) [OF a] placed_typed(2) [OF a] del: put_all.simps load.simps)
qed

lemma obeys_cmd_call:
  assumes "keys_sized (n_crypto n)" and "layout_ok L buf answer_at"
  shows "obeys n lb iss isq turns buf node buffer (cmd_call n lb L node rest)"
  unfolding cmd_call_def say_usage_def Let_def
  by (intro obeys_unhex)
    (auto split: option.split list.split intro!: obeys_say obeys_unhex obeys_request [OF assms])

lemma obeys_go: "obeys n lb iss isq turns buf node buffer a \<Longrightarrow>
    obeys n lb iss isq turns buf node buffer (act_bind a (\<lambda>_. act_return b))"
  unfolding obeys_def by (erule sure_bind) (auto intro!: sure_return)

lemma obeys_line:
  assumes "keys_sized (n_crypto n)" and "layout_ok L buf answer_at"
  shows "obeys n lb iss isq turns buf node buffer (stdin_line n lb L turns node line)"
  unfolding stdin_line_def Let_def
  by (auto intro!: obeys_go obeys_say obeys_announce [OF assms] obeys_subscribe [OF assms] obeys_publish [OF assms]
      obeys_peers [OF assms] obeys_cmd_call [OF assms] obeys_add [OF assms] obeys_bootstrap [OF assms])
    (auto simp: obeys_def intro!: sure_return)

section \<open>Walking the buffer\<close>

lemma read_loop_extends:
  assumes "read_loop e buffer count offset acc = Some (Inr r)"
  shows "\<exists>evs. r = acc @ evs"
proof -
  have "\<forall>r. res = Inr r \<longrightarrow> (\<exists>evs. r = acc @ evs)" if "read_loop e buffer count offset acc = Some res" for res
    by (rule read_loop.raw_induct [OF _ that]) (fastforce simp: Let_def split: if_splits)
  with assms show ?thesis by blast
qed

lemma load_sub:
  assumes "load m p k = Some bs" and "i + j \<le> k"
  shows "load m (p + i) j = Some (slice i j bs)"
proof -
  have "length (slice i j bs) = j" using length_load [OF assms(1)] assms(2) by (simp add: slice_def)
  moreover have "load m (p + i) (length (slice i j bs)) = Some (slice i j bs)"
    using load_nth [OF assms(1), of "i + x" for x] assms(2) length_load [OF assms(1)]
    by (intro load_of_nth) (auto simp: slice_def add.assoc)
  ultimately show ?thesis by simp
qed

lemma slice_slice: "a + b \<le> 88 \<Longrightarrow> slice a b (slice off 88 bs) = slice a b (drop off bs)"
  by (simp add: slice_def drop_take add.commute min_def)

lemma read_header_slice: "read_header e (slice off 88 bs) = read_header e (drop off bs)"
  by (simp add: read_header_def slice_slice)

lemma walk_record:
  assumes "walk_ok e buffer (Walking count offset)" and "offset + 88 \<le> count" and "length buffer = POLL_BUFFER"
  shows "let h = read_header e (drop offset buffer); d = slice (offset + 88) (unat (ev_data_len h)) buffer
    in offset \<le> POLL_BUFFER \<and> offset + 88 + unat (ev_data_len h) \<le> POLL_BUFFER \<and> shaped (h, d) \<and>
       walk_ok e buffer (Walking count (offset + unat (ev_size h)))"
proof -
  let ?h = "read_header e (drop offset buffer)"
  let ?d = "slice (offset + 88) (unat (ev_data_len ?h)) buffer"
  obtain acc evs where r: "read_loop e buffer count offset acc = Some (Inr (acc @ evs))" "\<forall>ev \<in> set evs. shaped ev"
    and c: "count \<le> POLL_BUFFER" using assms(1) by (auto simp: walk_ok_def)
  have s: "offset + 88 + unat (ev_data_len ?h) \<le> length buffer"
    "read_loop e buffer count (offset + unat (ev_size ?h)) (acc @ [(?h, ?d)]) = Some (Inr (acc @ evs))"
    using r(1) assms(2) by (subst (asm) read_loop.simps, simp add: Let_def LP2P_EVENT_HEADER_BYTES_def split: if_splits)+
  then obtain rest where "evs = (?h, ?d) # rest" using read_loop_extends [OF s(2)] by auto
  with r(2) s c assms(2,3) show ?thesis
    unfolding Let_def walk_ok_def main_pc.case
    by (intro conjI exI [of _ "acc @ [(?h, ?d)]"] exI [of _ rest]) auto
qed

text \<open>A record with room in the buffer is read as the walk reads it.\<close>

lemma act_record_reads:
  assumes "load (f_mem (p_ffi p)) buf POLL_BUFFER = Some buffer"
    and "h = read_header (n_endian n) (drop offset buffer)" and "d = slice (offset + 88) (unat (ev_data_len h)) buffer"
    and "offset + 88 + unat (ev_data_len h) \<le> POLL_BUFFER"
  shows "act_record n buf offset p = Return (Goes (h, d), p)"
proof -
  have "load (f_mem (p_ffi p)) (buf + offset) 88 = Some (slice offset 88 buffer)"
    "load (f_mem (p_ffi p)) (buf + (offset + 88)) (unat (ev_data_len h)) = Some d"
    using load_sub [OF assms(1)] assms(3,4) by simp_all
  then show ?thesis
    using assms(2,4)
    by (simp add: act_record_def act_bind_def act_assert_def act_load_def act_return_def LP2P_EVENT_HEADER_BYTES_def
        read_header_slice Let_def add.assoc del: load.simps)
qed

lemma event_line_shaped: "shaped ev \<Longrightarrow> event_line ev \<noteq> None"
  by (auto simp: event_line_def shaped_def Let_def)

lemma sure_event:
  assumes "keys_sized (n_crypto n)" and "layout_ok L buf answer_at" and "shaped ev"
  shows "sure (\<lambda>p. alive n lb iss isq buf node buffer p \<and> fair_at n iss isq [] node (p_ffi p)) (act_event n lb answer_at node ev)
    (\<lambda>r p. alive n lb iss isq buf node buffer p \<and> r = Goes ())"
proof -
  let ?I = "\<lambda>p. alive n lb iss isq buf node buffer p \<and> fair_at n iss isq [] node (p_ffi p)"
  define a where "a = ascii ''rust:'' @ from_utf8_lossy (snd ev)"
  note p = placed_locals(2) [OF assms(2), of a]
  have c: "contract (n_endian n) (Rpc_respond node (ev_id (fst ev)) answer_at (length a))
      (s\<lparr>f_mem := put_all [(answer_at, a)] (f_mem s)\<rparr>)" if "f_handles s node \<noteq> None" for s :: "'a ffi"
    using that by (simp add: live_handle_def placed_mapped(1) [OF placed_apart [OF p]] del: put_all.simps)
  have respond: "sure ?I (act_bind (act_call n lb [(answer_at, a)] (Rpc_respond node (ev_id (fst ev)) answer_at (length a)))
      (\<lambda>_. act_return ())) (\<lambda>r p. alive n lb iss isq buf node buffer p \<and> r = Goes ())"
    by (rule sure_bind [OF alive_call [OF assms(1) _ _ c conjunct2 [OF p [unfolded placed_def]]]])
      (auto simp: plain_def intro!: sure_return)
  obtain line where line: "event_line ev = Some line" using event_line_shaped [OF assms(3)] by blast
  have say: "sure ?I (case line of None \<Rightarrow> act_return () | Some l \<Rightarrow> act_say l) (\<lambda>r p. ?I p \<and> r = Goes ())"
    by (cases line) (auto intro!: sure_return sure_say)
  have "sure ?I (act_bind (case line of None \<Rightarrow> act_return () | Some l \<Rightarrow> act_say l) (\<lambda>_.
      if ev_type (fst ev) = LP2P_EV_RPC_REQUEST then
        act_bind (act_call n lb [(answer_at, a)] (Rpc_respond node (ev_id (fst ev)) answer_at (length a))) (\<lambda>_. act_return ())
      else act_return ())) (\<lambda>r p. alive n lb iss isq buf node buffer p \<and> r = Goes ())"
    by (rule sure_bind [OF say]) (auto intro!: sure_return intro: sure_pre [OF respond])
  then show ?thesis unfolding act_event_def line bind_unwrap Let_def a_def [symmetric] .
qed

section \<open>Steps\<close>

lemma overflow_shaped: "ev \<in> set (overflow_events q) \<Longrightarrow> shaped ev"
  using event_wf_overflow [of ev q] by (auto simp: shaped_def overflow_events_def event_new_def event_type_defs split: if_splits)

lemma shaped_seen: "shaped ev \<Longrightarrow> shaped (event_seen ev)"
  by (simp add: shaped_def event_seen_def event_header_def event_wf_def)

lemma seen_shaped:
  "\<forall>ev \<in> set evs. shaped ev \<Longrightarrow> \<forall>ev \<in> set (map event_seen (overflow_events q @ take k evs)). shaped ev"
  using shaped_seen overflow_shaped by (fastforce dest: in_set_takeD)

lemma walk_start:
  "read_loop e buffer count 0 [] = Some (Inr evs) \<Longrightarrow> \<forall>ev \<in> set evs. shaped ev \<Longrightarrow> count \<le> POLL_BUFFER \<Longrightarrow>
   walk_ok e buffer (Walking count 0)"
  unfolding walk_ok_def main_pc.case by (intro conjI exI [of _ "[]"] exI [of _ evs]) simp_all

text \<open>A poll leaves events to walk, nothing, or the end of the process.\<close>

lemma sure_poll:
  assumes "keys_sized (n_crypto n)" and "peer_keys_sized (n_crypto n)" and "list_all (\<lambda>op. snd op = []) sched"
  shows "sure (\<lambda>p. (\<exists>buffer. alive n lb iss isq buf node buffer p) \<and> buf \<noteq> 0) (act_poll n lb node buf now sched)
    (\<lambda>r p. (\<exists>buffer. alive n lb iss isq buf node buffer p \<and>
       (\<forall>count. r = Goes count \<longrightarrow> walk_ok (n_endian n) buffer (Walking count 0))) \<and> r \<noteq> Panics \<and> r \<noteq> Exits 101)"
  unfolding act_poll_def
proof (rule sure_bind [where R = "\<lambda>r p. \<exists>buffer. alive n lb iss isq buf node buffer p \<and>
    (\<exists>st. r = Goes st \<and> (0 \<le> st \<longrightarrow> walk_ok (n_endian n) buffer (Walking (nat st) 0)))"])
  let ?c = "Poll_call node buf POLL_BUFFER 1000 now sched"
  show "sure (\<lambda>p. (\<exists>buffer. alive n lb iss isq buf node buffer p) \<and> buf \<noteq> 0) (act_call n lb [] ?c)
    (\<lambda>r p. \<exists>buffer. alive n lb iss isq buf node buffer p \<and>
      (\<exists>st. r = Goes st \<and> (0 \<le> st \<longrightarrow> walk_ok (n_endian n) buffer (Walking (nat st) 0))))"
  proof (rule sure_call)
    fix p :: "'a process" and st s'
    assume p: "(\<exists>buffer. alive n lb iss isq buf node buffer p) \<and> buf \<noteq> 0"
      and "run_call n lb ?c ((p_ffi p)\<lparr>f_mem := put_all [] (f_mem (p_ffi p))\<rparr>) = Return (st, s')"
    then have r: "lp2p_poll (n_endian n) node buf POLL_BUFFER 1000 now sched (p_ffi p) = Return (st, s')" by simp
    obtain h where h: "f_handles (p_ffi p) node = Some h" using p by (auto simp: alive_def)
    have run: "c_run n lb iss isq (p_ffi p)" using p by (auto simp: alive_def)
    have contract: "contract (n_endian n) ?c (p_ffi p)" using p by (auto simp: alive_def live_handle_def mapped_def)
    have env: "call_env_ok n iss isq ?c (p_ffi p)" using assms(3) by (simp add: call_env_ok_def)
    have r': "run_call n lb ?c (p_ffi p) = Return (st, s')" using r by simp
    have "?c \<noteq> Shutdown_call x y" for x y by simp
    note effect = call_effect [OF contract assms(1) this r']
    have "load (f_mem (p_ffi p)) buf POLL_BUFFER \<noteq> None" using p by (auto simp: alive_def)
    then have "load (f_mem s') buf POLL_BUFFER \<noteq> None" using effect(1) by (simp only: load_mapped)
    then obtain buffer where b: "load (f_mem s') buf POLL_BUFFER = Some buffer" by blast
    have "walk_ok (n_endian n) buffer (Walking (nat st) 0)" if "0 \<le> st"
    proof (cases "st = 0")
      case True
      then show ?thesis
        by (auto simp: walk_ok_def intro!: exI [of _ "[]"]) (subst read_loop.simps, simp add: LP2P_EVENT_HEADER_BYTES_def)
    next
      case False
      with that have pos: "0 < st" by simp
      have cap: "POLL_BUFFER < 2 ^ 31" by (simp add: POLL_BUFFER_def)
      obtain evs k where evs: "\<forall>ev \<in> set evs. shaped ev" "nat st \<le> POLL_BUFFER"
        "read_loop (n_endian n) buffer (nat st) 0 [] = Some (Inr (map event_seen (overflow_events (node_queue (l_node h)) @ take k evs)))"
        using poll_reads_events [OF run h assms(2,3) cap r pos] b pos by (auto simp: read_events_def)
      show ?thesis by (rule walk_start [OF evs(3) seen_shaped [OF evs(1)] evs(2)])
    qed
    moreover have "alive n lb iss isq buf node buffer (p\<lparr>p_ffi := s'\<rparr>)"
      using calls [OF run contract env r'] b effect(3) [of node] h by (simp add: alive_def)
    ultimately show "\<exists>buffer. alive n lb iss isq buf node buffer (p\<lparr>p_ffi := s'\<rparr>) \<and>
        (\<exists>x. Goes st = Goes x \<and> (0 \<le> x \<longrightarrow> walk_ok (n_endian n) buffer (Walking (nat x) 0)))" by auto
  qed (use assms(1) in \<open>auto simp: alive_def live_handle_def mapped_def\<close>)
qed (auto intro!: sure_exit sure_return sure_say_exit)

lemma run_act_sure:
  assumes "sure P a Q" and "P (x_proc x)"
  shows "run_act a go panicked x \<noteq> Undefined"
    and "run_act a go panicked x = Return y \<Longrightarrow> \<exists>r p. Q r p \<and>
      y = (case r of Goes v \<Rightarrow> go v (x\<lparr>x_proc := p\<rparr>) | Panics \<Rightarrow> panicked (x\<lparr>x_proc := p\<rparr>)
             | Exits c \<Rightarrow> x\<lparr>x_proc := p, x_over := Some c\<rparr>)"
  using assms unfolding run_act_def sure_def
  by (fastforce split: outcome.splits prod.splits fate.splits simp: Let_def)+

text \<open>A step of a thread in a state that is not yet being left: nothing undefined, and the state stays good.\<close>

definition steps_well ::
  "'sw net \<Rightarrow> libs \<Rightarrow> ('sw \<Rightarrow> request_id set) \<Rightarrow> ('sw \<Rightarrow> query_id set) \<Rightarrow> ptr \<Rightarrow> ptr \<Rightarrow> 'sw peer_state outcome \<Rightarrow> bool" where
  "steps_well n lb iss isq buf node r \<longleftrightarrow> r \<noteq> Undefined \<and> (\<forall>y. r = Return y \<longrightarrow> peer_ok n lb iss isq buf node y)"

lemma main_steps_well:
  assumes "keys_sized (n_crypto n)" and "peer_keys_sized (n_crypto n)" and "layout_ok L buf answer_at"
    and "peer_ok n lb iss isq buf node x" and "x_over x = None" and "x_reader x \<noteq> Leaving"
    and "fair_at n iss isq [] node (p_ffi (x_proc x))" and "list_all (\<lambda>op. snd op = []) sched"
  shows "steps_well n lb iss isq buf node (main_step n lb buf answer_at node now sched x)"
proof -
  obtain buffer where a: "alive n lb iss isq buf node buffer (x_proc x)" and w: "walk_ok (n_endian n) buffer (x_main x)"
    using assms(4-6) by (auto simp: peer_ok_def)
  show ?thesis
  proof (cases "x_main x")
    case At_poll
    have "buf \<noteq> 0" using assms(3) by (simp add: layout_ok_def)
    with a have "(\<exists>buffer. alive n lb iss isq buf node buffer (x_proc x)) \<and> buf \<noteq> 0" by blast
    note r = run_act_sure [OF sure_poll [OF assms(1,2,8)] this]
    show ?thesis
      unfolding steps_well_def main_step_def At_poll main_pc.case
      using r assms(5,6) by (fastforce simp: peer_ok_def split: fate.splits)
  next
    case (Walking count offset)
    show ?thesis
    proof (cases "offset + 88 \<le> count")
      case True
      let ?h = "read_header (n_endian n) (drop offset buffer)"
      let ?d = "slice (offset + 88) (unat (ev_data_len ?h)) buffer"
      have l: "load (f_mem (p_ffi (x_proc x))) buf POLL_BUFFER = Some buffer" using a by (simp add: alive_def)
      have rec: "offset + 88 + unat (ev_data_len ?h) \<le> POLL_BUFFER" "shaped (?h, ?d)"
        "walk_ok (n_endian n) buffer (Walking count (offset + unat (ev_size ?h)))"
        using walk_record [OF w [unfolded Walking] True length_load [OF l]] by (simp_all add: Let_def)
      have "sure (\<lambda>p. p = x_proc x) (act_bind (act_record n buf offset) (\<lambda>ev.
          act_bind (act_event n lb answer_at node ev) (\<lambda>_. act_return (unat (ev_size (fst ev))))))
        (\<lambda>r p. alive n lb iss isq buf node buffer p \<and> r = Goes (unat (ev_size ?h)))"
      proof (rule sure_bind [where R = "\<lambda>r p. r = Goes (?h, ?d) \<and> p = x_proc x"])
        fix ev
        show "sure (\<lambda>p. Goes ev = Goes (?h, ?d) \<and> p = x_proc x)
            (act_bind (act_event n lb answer_at node ev) (\<lambda>_. act_return (unat (ev_size (fst ev)))))
            (\<lambda>r p. alive n lb iss isq buf node buffer p \<and> r = Goes (unat (ev_size ?h)))"
        proof (cases "ev = (?h, ?d)")
          case True
          show ?thesis unfolding True
            by (rule sure_bind, rule sure_pre [OF sure_event [OF assms(1,3) rec(2)]]) (use a assms(7) in \<open>auto intro!: sure_return\<close>)
        qed (simp add: sure_def)
      qed (auto simp: sure_def act_record_reads [OF l refl refl rec(1)])
      note r = run_act_sure [OF this refl]
      show ?thesis
        unfolding steps_well_def main_step_def Walking main_pc.case LP2P_EVENT_HEADER_BYTES_def if_P [OF True]
        using r assms(5,6) rec(3) by (fastforce simp: peer_ok_def split: fate.splits)
    next
      case False
      then show ?thesis
        using a assms(5) by (auto simp: steps_well_def main_step_def Walking LP2P_EVENT_HEADER_BYTES_def peer_ok_def walk_ok_def)
    qed
  qed
qed

lemma sure_shutdown:
  assumes "keys_sized (n_crypto n)"
  shows "sure (\<lambda>p. alive n lb iss isq buf node buffer p) (act_shutdown n lb turns node) (\<lambda>r p. r = Goes ())"
  unfolding act_shutdown_def
  by (rule sure_bind [where R = "\<lambda>r p. \<exists>st. r = Goes st"], rule sure_call)
    (use assms in \<open>auto simp: alive_def live_handle_def intro!: sure_return\<close>)

lemma reader_steps_well:
  assumes "keys_sized (n_crypto n)" and "layout_ok L buf answer_at"
    and "peer_ok n lb iss isq buf node x" and "x_over x = None" and "x_reader x \<noteq> Leaving"
    and "fair_at n iss isq turns node (p_ffi (x_proc x))"
  shows "steps_well n lb iss isq buf node (reader_step n lb L turns node x)"
proof -
  obtain buffer where a: "alive n lb iss isq buf node buffer (x_proc x)" and w: "walk_ok (n_endian n) buffer (x_main x)"
    using assms(3-5) by (auto simp: peer_ok_def)
  have line: "steps_well n lb iss isq buf node (run_act (stdin_line n lb L turns node line)
      (\<lambda>quit y. y\<lparr>x_reader := (if quit then Quitting else Reading rest)\<rparr>) (\<lambda>y. y\<lparr>x_reader := Stopped_short\<rparr>) x)" for line rest
    using run_act_sure [OF obeys_line [OF assms(1,2), unfolded obeys_def] conjI [OF a assms(6)]] w assms(4)
    unfolding steps_well_def by (fastforce simp: peer_ok_def split: fate.splits)
  have quit: "steps_well n lb iss isq buf node (run_act (act_shutdown n lb turns node)
      (\<lambda>_ y. y\<lparr>x_reader := Leaving\<rparr>) (\<lambda>y. y\<lparr>x_reader := Stopped_short\<rparr>) x)"
    using run_act_sure [OF sure_shutdown [OF assms(1)] a] unfolding steps_well_def by (fastforce simp: peer_ok_def)
  show ?thesis
  proof (cases "x_reader x")
    case (Reading lines)
    then show ?thesis
      using a w assms(4) line
      by (cases lines) (auto simp: reader_step_def Let_def steps_well_def peer_ok_def split: option.split)
  qed (use assms(5) quit in \<open>auto simp: reader_step_def Let_def steps_well_def\<close>)
qed

lemma leaving_stays: "x_reader x = Leaving \<Longrightarrow> main_step n lb buf answer_at node now sched x = Return y \<Longrightarrow> x_reader y = Leaving"
  by (auto simp: main_step_def run_act_def main_panicked_def Let_def
      split: main_pc.splits outcome.splits prod.splits fate.splits if_splits)

lemma leaving_leaves: "x_reader x = Leaving \<Longrightarrow> reader_step n lb L turns node x = Return y \<Longrightarrow> x_reader y = Leaving"
  by (auto simp: reader_step_def run_act_def act_exit_def Let_def)

lemma interop_run_ok:
  assumes "interop_run n lb iss isq L buf answer_at node x"
    and "keys_sized (n_crypto n)" and "peer_keys_sized (n_crypto n)" and "layout_ok L buf answer_at"
  shows "peer_ok n lb iss isq buf node x"
  using assms(1)
proof induction
  case (ready p lines)
  then show ?case by (auto simp: peer_ok_def alive_def walk_ok_def)
next
  case (prints x sched now y)
  then show ?case
    using main_steps_well [OF assms(2-4), of lb iss isq node x sched now] leaving_stays [OF _ prints.hyps(5)]
    by (auto simp: steps_well_def peer_ok_def [of _ _ _ _ _ _ y])
next
  case (reads x turns y)
  then show ?case
    using reader_steps_well [OF assms(2,4), of lb iss isq node x turns] leaving_leaves [OF _ reads.hyps(4)]
    by (auto simp: steps_well_def peer_ok_def [of _ _ _ _ _ _ y])
next
  case (serves x q h t)
  then show ?case by (auto simp: peer_ok_def alive_def set_node_def intro: works [unfolded set_node_def])
qed

end
