(* ===== verification/InteropProps.thy ===== *)
theory InteropProps
  imports InteropRuns
begin

text \<open>What the interop peer promises whoever drives it: no undefined behaviour before it quits, and calls that go out as typed.\<close>

section \<open>A call as typed\<close>

lemma hex_no_space: "32 \<notin> set (hex k)"
proof -
  have "to_digit 16 32 = None" by (simp add: to_digit_def)
  then have d: "hex_digit d \<noteq> 32" if "d < 16" for d using hex_digit_range(1) [OF that] by auto
  have "unat b div 16 < 16" "unat b mod 16 < 16" for b :: u8 using unsigned_less [of b, where ?'a = nat] by auto
  then have "32 \<notin> set (hex2 b)" for b using d [symmetric] by (simp add: hex2_def)
  then show ?thesis by (simp add: hex_def)
qed

lemma call_arguments:
  assumes "32 \<notin> set target_text"
  shows "splitn 2 (ascii ''call '' @ rest) = [ascii ''call'', rest]"
    and "splitn 3 (hex grp @ 32 # target_text @ 32 # msg) = [hex grp, target_text, msg]"
proof -
  have "ascii ''call '' = ascii ''call'' @ [32]" "32 \<notin> set (ascii ''call'')" by (simp_all add: ascii_def)
  then show "splitn 2 (ascii ''call '' @ rest) = [ascii ''call'', rest]"
    using splitn_two(1) [of "ascii ''call''" 0 rest] by (simp add: numeral_2_eq_2)
  show "splitn 3 (hex grp @ 32 # target_text @ 32 # msg) = [hex grp, target_text, msg]"
    using splitn_two(1) [OF hex_no_space] splitn_two(1) [OF assms] by (simp add: numeral_3_eq_3)
qed

lemma call_locals_read:
  assumes "apart (spans (call_locals e L grp target msg))" and "length grp = 32"
    and "\<And>t. target = Some t \<Longrightarrow> length t = 32"
  shows "ffi_key (put_all (call_locals e L grp target msg) m) (r_key L) = Some (Inr grp)"
    and "target_of (put_all (call_locals e L grp target msg) m) (case target of None \<Rightarrow> 0 | Some _ \<Rightarrow> r_target L) = Some (Inr target)"
    and "ffi_bytes (put_all (call_locals e L grp target msg) m) (r_text L) (length msg) = Some (Inr msg)"
    and "load (put_all (call_locals e L grp target msg) m) (r_id L) 8 = Some (wr64 e 0)"
    and "r_id L \<noteq> 0"
proof -
  let ?m = "put_all (call_locals e L grp target msg) m"
  have ins: "(r_key L, grp) \<in> set (call_locals e L grp target msg)" "(r_text L, msg) \<in> set (call_locals e L grp target msg)"
    "(r_id L, wr64 e 0) \<in> set (call_locals e L grp target msg)"
    "\<And>t. target = Some t \<Longrightarrow> (r_target L, t) \<in> set (call_locals e L grp target msg)"
    by (simp_all add: call_locals_def)
  note at = load_put_all [OF _ assms(1), of _ _ m]
  have nonnull: "p \<noteq> 0" if "(p, bs) \<in> set (call_locals e L grp target msg)" for p bs
    using apart_nonnull [OF _ assms(1), of p "length bs"] that by force
  show "ffi_key ?m (r_key L) = Some (Inr grp)"
    using at [OF ins(1)] nonnull [OF ins(1)] assms(2) by (simp add: ffi_key_def)
  show "target_of ?m (case target of None \<Rightarrow> 0 | Some _ \<Rightarrow> r_target L) = Some (Inr target)"
    using at [OF ins(4)] nonnull [OF ins(4)] assms(3)
    by (cases target) (simp_all add: target_of_def ffi_key_def bind_fallible_def)
  show "ffi_bytes ?m (r_text L) (length msg) = Some (Inr msg)"
    using at [OF ins(2)] nonnull [OF ins(2)] by (simp add: ffi_bytes_def)
  show "load ?m (r_id L) 8 = Some (wr64 e 0)" "r_id L \<noteq> 0" using at [OF ins(3)] nonnull [OF ins(3)] by simp_all
qed

text \<open>
  C21: The command \<open>call\<close> does what it says: whatever else is in memory, the line \<open>call group target text\<close> queues
  one call with the next identifier to the node, to that group and target (to any node when the target is no key), and the
  line printed carries that identifier, which the call wrote through the out pointer, or the status the node answered with.
\<close>

theorem call_command:
  assumes "layout_ok L buf answer_at" and "node \<noteq> 0" and "f_handles (p_ffi p) node = Some h"
    and "length grp = 32" and "32 \<notin> set target_text" and "unhex target_text = Some target"
    and "0 < l_rpc_protocol_count h" and "length msg \<le> unat (l_rpc_max_request_bytes h)"
    and "\<And>t. target = Some t \<Longrightarrow> peer_id (n_crypto n) t \<noteq> None"
    and "next_id (l_node h) = (cid, a)" and "send (Rpc cid grp target 0 msg (l_rpc_timeout h)) a = (st, b)"
  shows "\<exists>p'. stdin_line n lb L turns node (ascii ''call '' @ hex grp @ ascii '' '' @ target_text @ ascii '' '' @ msg) p =
      Return (Goes False, p') \<and>
    p_out p' = p_out p @ [if st = LP2P_OK then ascii ''CALLED '' @ decimal (unat cid) else ascii ''ERROR '' @ show_int st] \<and>
    f_handles (p_ffi p') = (f_handles (p_ffi p))(node \<mapsto> h\<lparr>l_node := b\<rparr>)"
proof -
  let ?e = "n_endian n"
  let ?m = "put_all (call_locals ?e L grp target msg) (f_mem (p_ffi p))"
  let ?s = "(p_ffi p)\<lparr>f_mem := ?m\<rparr>"
  let ?c = "Rpc_request node (r_key L) (case target of None \<Rightarrow> 0 | Some _ \<Rightarrow> r_target L) 0 (r_text L) (length msg) 0 (r_id L)"
  have t: "\<And>t. target = Some t \<Longrightarrow> length t = 32" using unhex_length assms(6) by auto
  have "placed buf (call_locals ?e L grp target msg)" by (rule placed_locals(6) [OF assms(1,4)]) (rule t)
  note read = call_locals_read [OF placed_apart [OF this] assms(4) t]
  have al: "aligned 8 (r_id L)" by (rule layout_aligned [OF assms(1)])
  have "load ?m (r_id L) 8 \<noteq> None" using read(4) by simp
  then have "region (r_id L) (length (wr64 ?e cid)) \<subseteq> dom ?m" by (simp only: load_mapped layout_simps)
  then obtain m' where m': "store ?m (r_id L) (wr64 ?e cid) = Some m'" using store_SomeI by blast
  have id: "load m' (r_id L) 8 = Some (wr64 ?e cid)" using load_store [OF m'] by simp
  have ok: "(case target of None \<Rightarrow> True | Some t \<Rightarrow> peer_id (n_crypto n) t \<noteq> None)"
    using assms(9) by (simp split: option.split)
  have "\<exists>s'. run_call n lb ?c ?s = Return (st, s') \<and> f_handles s' = (f_handles (p_ffi p))(node \<mapsto> h\<lparr>l_node := b\<rparr>) \<and>
      (\<exists>i. load (f_mem s') (r_id L) 8 = Some (wr64 ?e i) \<and> (st = LP2P_OK \<longrightarrow> i = cid))"
    using assms(2,3,7,8,10,11) m' id read al ok
    by (simp add: lp2p_rpc_request_def handle_def send_to_def write_typed_def write_out_def set_node_def Let_def
        del: load.simps store.simps) blast
  then show ?thesis
    using call_arguments [OF assms(5)] unhex_hex [OF assms(4)] assms(6)
    by (auto simp: stdin_line_def cmd_call_def act_bind_def act_unhex_def act_unwrap_def act_return_def act_call_def act_say_def
        read_id_def act_load_def id_line_def ascii_def rd64_def slice_all simp del: load.simps put_all.simps run_call.simps)
qed

definition demo_locals :: reader_locals where
  "demo_locals = \<lparr>r_key = 32, r_target = 64, r_text = 4000000, r_id = 8\<rparr>"

definition demo_process :: "nat process" where
  "demo_process = \<lparr>p_ffi = demo_ffi\<lparr>f_mem := \<lambda>_. Some 0\<rparr>, p_out = []\<rparr>"

lemma demo_layout: "layout_ok demo_locals 100 4000000"
  by (simp add: layout_ok_def demo_locals_def POLL_BUFFER_def aligned_def)

theorem call_command_witness:
  "\<exists>p'. stdin_line demo_net demo_libs demo_locals [] 9000
      (ascii ''call '' @ hex (replicate 32 1) @ ascii '' '' @ ascii ''-'' @ ascii '' '' @ ascii ''ping'') demo_process =
      Return (Goes False, p') \<and> p_out p' = [ascii ''CALLED '' @ decimal 1]"
proof -
  let ?h = "lp2p_of demo_config demo_world"
  have u: "unhex (ascii ''-'') = Some None" by (simp add: unhex_def ascii_def)
  have "32 \<notin> set (ascii ''-'')" by (simp add: ascii_def)
  moreover have "f_handles (p_ffi demo_process) 9000 = Some ?h" by (simp add: demo_process_def demo_ffi_def)
  moreover have "0 < l_rpc_protocol_count ?h" "length (ascii ''ping'') \<le> unat (l_rpc_max_request_bytes ?h)"
    by (simp_all add: lp2p_of_def demo_config_def ascii_def)
  moreover obtain a where "next_id (l_node ?h) = (1, a)"
    "send (Rpc 1 (replicate 32 1) None 0 (ascii ''ping'') (l_rpc_timeout ?h)) a =
      (LP2P_OK, snd (send (Rpc 1 (replicate 32 1) None 0 (ascii ''ping'') (l_rpc_timeout ?h)) a))"
    by (simp add: next_id_def send_def lp2p_of_def demo_state demo_not_poisoned)
  ultimately show ?thesis
    using call_command [OF demo_layout _ _ _ _ u, of 9000 demo_process ?h "replicate 32 1" "ascii ''ping''" demo_net 1 a LP2P_OK _ demo_libs "[]"]
    by (auto simp: demo_process_def)
qed

section \<open>No undefined behaviour\<close>

text \<open>
  C4: Until it has shut its node down, the interop peer is memory safe. In every interleaving of its two threads with the
  thread of the node, whatever lines it reads and whatever the network sends, no call of either thread and no read of the
  poll buffer is undefined, and the thread that prints events does not panic: the walk over the polled bytes stays in the
  buffer and a topic message is long enough to hold its topic.
\<close>

theorem interop_peer_safe:
  assumes "interop_run n lb iss isq L buf answer_at node x"
    and "keys_sized (n_crypto n)" and "peer_keys_sized (n_crypto n)" and "layout_ok L buf answer_at"
    and "x_reader x \<noteq> Leaving"
  shows "x_over x \<noteq> Some 101 \<and>
    (x_over x = None \<and> fair_at n iss isq [] node (p_ffi (x_proc x)) \<and> list_all (\<lambda>op. snd op = []) sched \<longrightarrow>
       main_step n lb buf answer_at node now sched x \<noteq> Undefined) \<and>
    (x_over x = None \<and> fair_at n iss isq turns node (p_ffi (x_proc x)) \<longrightarrow>
       reader_step n lb L turns node x \<noteq> Undefined)"
proof (intro conjI impI)
  note ok = interop_run_ok [OF assms(1-4)]
  show "x_over x \<noteq> Some 101" using ok assms(5) by (simp add: peer_ok_def)
  show "main_step n lb buf answer_at node now sched x \<noteq> Undefined"
    if "x_over x = None \<and> fair_at n iss isq [] node (p_ffi (x_proc x)) \<and> list_all (\<lambda>op. snd op = []) sched"
    using main_steps_well [OF assms(2-4) ok _ assms(5)] that by (simp add: steps_well_def)
  show "reader_step n lb L turns node x \<noteq> Undefined"
    if "x_over x = None \<and> fair_at n iss isq turns node (p_ffi (x_proc x))"
    using reader_steps_well [OF assms(2,4) ok _ assms(5)] that by (simp add: steps_well_def)
qed

definition demo_interop :: "nat peer_state" where
  "demo_interop = \<lparr>x_proc = demo_process, x_main = At_poll, x_reader = Reading [Some (ascii ''bootstrap'')], x_over = None\<rparr>"

lemma load_total: "load (\<lambda>_. Some 0) p k \<noteq> None"
  by (simp only: load_mapped) auto

lemma demo_peer_alive:
  "c_run demo_net demo_libs demo_issued demo_issued (p_ffi demo_process)" "f_handles (p_ffi demo_process) 9000 \<noteq> None"
  "load (f_mem (p_ffi demo_process)) 100 POLL_BUFFER \<noteq> None"
  unfolding demo_process_def
  by (simp_all add: computes [OF demo_run] load_total del: load.simps, simp add: demo_ffi_def)

lemma demo_peer_run: "interop_run demo_net demo_libs demo_issued demo_issued demo_locals 100 4000000 9000 demo_interop"
  unfolding demo_interop_def by (rule ready [OF demo_peer_alive])

theorem interop_peer_safe_witness:
  "main_step demo_net demo_libs 100 4000000 9000 0 [] demo_interop \<noteq> Undefined \<and>
   reader_step demo_net demo_libs demo_locals [] 9000 demo_interop \<noteq> Undefined"
proof -
  have r: "x_reader demo_interop \<noteq> Leaving" and o: "x_over demo_interop = None" by (simp_all add: demo_interop_def)
  have "peer_keys_sized (n_crypto demo_net)" by (simp add: peer_keys_sized_def demo_net_def demo_crypto_def)
  note safe = interop_peer_safe [OF demo_peer_run demo_keys_sized this demo_layout r, where sched = "[]" and now = 0 and turns = "[]"]
  have f: "fair_at demo_net demo_issued demo_issued [] 9000 (p_ffi (x_proc demo_interop))"
    by (simp add: fair_at_def demo_interop_def demo_process_def demo_ffi_def ids_left_def lp2p_of_def demo_state)
  with safe o show ?thesis by simp
qed

section \<open>Leaving\<close>

text \<open>
  C22: Quitting races with the poll. On \<open>quit\<close> or at the end of input the command thread shuts the node down, which frees
  the handle, and only then ends the process. If the main thread is about to poll when the shutdown returns, the
  run goes on and that poll uses the freed handle, whatever the scheduler does next in this thread.
\<close>

theorem quit_races_poll:
  assumes "interop_run n lb iss isq L buf answer_at node x" and "node \<noteq> 0"
    and "x_over x = None" and "x_main x = At_poll" and "x_reader x = Quitting"
    and "fair_at n iss isq turns node (p_ffi (x_proc x))" and "reader_step n lb L turns node x = Return y"
  shows "interop_run n lb iss isq L buf answer_at node y \<and> x_over y = None \<and>
    main_step n lb buf answer_at node now sched y = Undefined"
proof -
  have "interop_run n lb iss isq L buf answer_at node y" by (rule reads [OF assms(1,3,6,7)])
  moreover have "x_over y = None" "x_main y = At_poll" "f_handles (p_ffi (x_proc y)) node = None"
    using assms(2-5,7)
    by (auto simp: reader_step_def run_act_def act_shutdown_def act_bind_def act_call_def act_return_def lp2p_shutdown_def Let_def
        split: outcome.splits option.splits)
  moreover from this have "lp2p_poll (n_endian n) node buf POLL_BUFFER 1000 now sched (p_ffi (x_proc y)) = Undefined"
    using assms(2) by (simp add: lp2p_poll_def attempt_def handle_def)
  ultimately show ?thesis
    by (simp add: main_step_def run_act_def act_poll_def act_bind_def act_call_def)
qed

theorem quit_races_poll_witness:
  "\<exists>y. interop_run demo_net demo_libs demo_issued demo_issued demo_locals 100 4000000 9000 y \<and>
     x_over y = None \<and> main_step demo_net demo_libs 100 4000000 9000 0 [] y = Undefined"
proof -
  let ?x = "demo_interop\<lparr>x_reader := Reading []\<rparr>" and ?y = "demo_interop\<lparr>x_reader := Quitting\<rparr>"
  let ?ts = "[((\<lambda>x. x, []), Receive None)] :: nat turn list"
  have x: "interop_run demo_net demo_libs demo_issued demo_issued demo_locals 100 4000000 9000 ?x"
    using ready [OF demo_peer_alive, where lines = "[]"] by (simp add: demo_interop_def)
  have over: "x_over ?x = None" "x_over ?y = None" "x_main ?y = At_poll" "x_reader ?y = Quitting" by (simp_all add: demo_interop_def)
  have fair: "fair_at demo_net demo_issued demo_issued ts 9000 (p_ffi (x_proc ?y))" if "ts \<in> {[], ?ts}" for ts
    using that by (auto simp: fair_at_def demo_interop_def demo_process_def demo_ffi_def ids_left_def lp2p_of_def demo_state send_def
        grows_def)
  have y: "interop_run demo_net demo_libs demo_issued demo_issued demo_locals 100 4000000 9000 ?y"
    by (rule reads [OF x over(1), of "[]"]) (use fair in \<open>simp_all add: reader_step_def\<close>)
  have f: "f_handles demo_ffi 9000 = Some (lp2p_of demo_config demo_world)" by (simp add: demo_ffi_def)
  have "node_drop demo_net ?ts (l_node (lp2p_of demo_config demo_world)) \<noteq> None"
    by (rule node_drop_returns) (simp add: lp2p_of_def receives_def)
  then obtain z where z: "reader_step demo_net demo_libs demo_locals ?ts 9000 ?y = Return z"
    using f by (auto simp: reader_step_def run_act_def act_shutdown_def act_bind_def act_call_def act_return_def lp2p_shutdown_def
        demo_interop_def demo_process_def Let_def)
  have "(9000 :: nat) \<noteq> 0" by simp
  from quit_races_poll [OF y this over(2-4) fair z, of "0" "[]"] show ?thesis by blast
qed

end
