(* ===== verification/HolePunch.thy ===== *)
theory HolePunch
  imports InteropPeer
begin

text \<open>
  \<open>src/examples/holepunch.rs\<close>: one node of the hole-punching test, in one of four roles. Its loops run by the clock; what
  the clock, the thread of the node and a poll see in each round is a list of beats, and a loop that is out of beats
  waits. Environment variables, the base58 text of a peer id and the places of locals are arguments.
\<close>

section \<open>Texts\<close>

definition PORT :: nat where
  "PORT = 4001"

definition HP_PROTOCOL :: bytes where
  "HP_PROTOCOL = ascii ''/holepunch/echo/1''"

definition hp_say :: "bytes \<Rightarrow> bytes \<Rightarrow> (unit, 'sw) act" where
  "hp_say role msg = act_say (role @ ascii '': '' @ msg)"

definition hp_addresses :: "bytes \<Rightarrow> bytes \<Rightarrow> bytes" where
  "hp_addresses transport ip =
     (if transport = ascii ''quic'' then ascii ''/ip4/'' @ ip @ ascii ''/udp/'' @ decimal PORT @ ascii ''/quic-v1''
      else ascii ''/ip4/'' @ ip @ ascii ''/tcp/'' @ decimal PORT)"

text \<open>The line for an event, if it has one; a key that is no point makes \<open>peer_id\<close> panic.\<close>

definition describe :: "crypto \<Rightarrow> (peer_id \<Rightarrow> bytes) \<Rightarrow> event \<Rightarrow> bytes option option" where
  "describe c show_peer ev =
     (let e = fst ev; dat = from_utf8_lossy (snd ev) in
      if ev_type e = LP2P_EV_LISTENING then Some (Some (ascii ''listening '' @ dat))
      else if ev_type e = LP2P_EV_PEER_CONNECTED then
        map_option (\<lambda>peer. Some (ascii ''connected '' @ show_peer peer @ ascii '' over '' @ dat)) (peer_id c (ev_node e))
      else if ev_type e = LP2P_EV_HOLE_PUNCH \<and> ev_reason e = 0 then Some (Some (ascii ''hole punched, direct '' @ dat))
      else if ev_type e = LP2P_EV_HOLE_PUNCH then Some (Some (ascii ''hole punch failed: '' @ dat))
      else if ev_type e = LP2P_EV_RPC_FAILED then Some (Some (ascii ''call failed, reason '' @ decimal (unat (ev_reason e))))
      else if ev_type e = LP2P_EV_REACHABILITY then Some (Some (ascii ''reachability '' @ decimal (unat (ev_reason e))))
      else Some None)"

text \<open>\<open>str::contains\<close>.\<close>

definition contains :: "bytes \<Rightarrow> bytes \<Rightarrow> bool" where
  "contains s pat \<longleftrightarrow> list_ex (\<lambda>i. take (length pat) (drop i s) = pat) [0..<Suc (length s)]"

section \<open>Start-up\<close>

definition hp_options :: "main_locals \<Rightarrow> bytes \<Rightarrow> lp2p_key \<Rightarrow> u8 \<Rightarrow> bytes \<Rightarrow> bool \<Rightarrow> lp2p_options \<Rightarrow> lp2p_options" where
  "hp_options L seed grp reach transport autonat opt = opt\<lparr>
     node_seed := seed,
     o_delegation := word_of_nat (m_delegation L),
     o_delegation_len := LP2P_DELEGATION_BYTES,
     o_group := grp,
     listen_addrs := word_of_nat (m_listen_list L),
     listen_addr_count := 1,
     o_dht_protocol := word_of_nat (m_dht L),
     o_rpc_protocols := word_of_nat (m_protocol_list L),
     o_rpc_protocol_count := 1,
     o_quic := (if transport = ascii ''quic'' then 1 else 0),
     o_dcutr := 1,
     o_autonat := (if autonat then 1 else 0),
     o_announce := (o_announce opt)\<lparr>ao_enabled := 0\<rparr>,
     o_reachability := reach\<rparr>"

definition hp_start_locals :: "endian \<Rightarrow> main_locals \<Rightarrow> bytes \<Rightarrow> bytes \<Rightarrow> bytes \<Rightarrow> lp2p_options \<Rightarrow> locals" where
  "hp_start_locals e L deleg listen dht opt =
     [(m_delegation L, deleg), (m_listen L, listen), (m_listen_list L, ne_bytes e 8 (m_listen L)), (m_dht L, dht),
      (m_echo L, HP_PROTOCOL @ [0]), (m_protocol_list L, ne_bytes e 8 (m_echo L)),
      (m_options L, options_bytes e opt), (m_raw L, ne_bytes e 8 0)]"

definition hp_start ::
  "'sw net \<Rightarrow> libs \<Rightarrow> main_locals \<Rightarrow> ptr \<Rightarrow> u64 \<Rightarrow> (config \<Rightarrow> int + 'sw) \<Rightarrow> ('sw meantime \<times> swarm_ev) list \<Rightarrow>
   bytes \<Rightarrow> bytes \<Rightarrow> u8 \<Rightarrow> bytes \<Rightarrow> bool \<Rightarrow> (ptr \<times> lp2p_key, 'sw) act" where
  "hp_start n lb L box ms built evs seed group_seed reach transport autonat =
     (let e = n_endian n in
      act_bind (key_of_seed n lb (m_seed L) (m_key L) seed) (\<lambda>key.
      act_bind (act_call n lb [(m_group_seed L, group_seed), (m_key L, key), (m_delegation L, replicate LP2P_DELEGATION_BYTES 0)]
        (Delegation_sign (m_group_seed L) (m_key L) 0 (m_delegation L))) (\<lambda>status.
      act_bind (act_assert (status = LP2P_OK)) (\<lambda>_.
      act_bind (act_load (m_delegation L) LP2P_DELEGATION_BYTES) (\<lambda>deleg.
      act_bind (act_unwrap (cstring_new (hp_addresses transport (ascii ''0.0.0.0'')))) (\<lambda>listen.
      act_bind (act_unwrap (cstring_new (ascii ''/holepunch/kad/1''))) (\<lambda>dht.
      act_bind (act_call n lb [(m_options L, replicate 272 0)] (Options_default (m_options L))) (\<lambda>_.
      act_bind (act_load (m_options L) 272) (\<lambda>bs.
      act_bind (key_of_seed n lb (m_group_seed L) (m_group L) group_seed) (\<lambda>grp.
      let options = hp_options L seed grp reach transport autonat (options_of_bytes e bs) in
      act_bind (act_call n lb (hp_start_locals e L deleg listen dht options)
        (Start_call (m_options L) (m_raw L) box ms built evs)) (\<lambda>status.
      act_bind (act_assert (status = LP2P_OK)) (\<lambda>_.
      act_bind (act_load (m_raw L) 8) (\<lambda>raw. act_return (rdsize e 0 raw, key))))))))))))))"

section \<open>Methods of the node\<close>

record hp_locals =
  h_buf :: ptr
  h_group :: ptr
  h_key :: ptr
  h_text :: ptr
  h_id :: ptr

definition HP_BUFFER :: nat where
  "HP_BUFFER = 2 ^ 16"

definition act_wait :: "('a, 'sw) act" where
  "act_wait p = Blocked"

text \<open>\<open>Node::poll\<close>: a fresh buffer, and the records in it if the result is positive.\<close>

definition hp_poll ::
  "'sw net \<Rightarrow> libs \<Rightarrow> hp_locals \<Rightarrow> ptr \<Rightarrow> int \<Rightarrow> instant \<Rightarrow> (instant \<times> queue_op list) list \<Rightarrow> (event list, 'sw) act" where
  "hp_poll n lb H node timeout_ms now sched =
     act_bind (act_call n lb [(h_buf H, replicate HP_BUFFER 0)] (Poll_call node (h_buf H) HP_BUFFER timeout_ms now sched)) (\<lambda>count.
     act_bind (act_load (h_buf H) HP_BUFFER) (\<lambda>bs.
       case read_events (n_endian n) bs count of
         None \<Rightarrow> act_wait
       | Some (Inl _) \<Rightarrow> act_panic
       | Some (Inr events) \<Rightarrow> act_return events))"

definition hp_add_address :: "'sw net \<Rightarrow> libs \<Rightarrow> hp_locals \<Rightarrow> ptr \<Rightarrow> lp2p_key \<Rightarrow> bytes \<Rightarrow> (unit, 'sw) act" where
  "hp_add_address n lb H node key address =
     act_bind (act_unwrap (cstring_new address)) (\<lambda>address.
     act_bind (act_call n lb [(h_key H, key), (h_text H, address)] (Add_address node (h_key H) (h_text H))) (\<lambda>status.
       act_assert (status = LP2P_OK)))"

definition hp_call :: "'sw net \<Rightarrow> libs \<Rightarrow> hp_locals \<Rightarrow> ptr \<Rightarrow> lp2p_key \<Rightarrow> lp2p_key \<Rightarrow> (u64, 'sw) act" where
  "hp_call n lb H node grp key =
     act_bind (act_call n lb [(h_group H, grp), (h_key H, key), (h_text H, ascii ''ping''), (h_id H, wr64 (n_endian n) 0)]
       (Rpc_request node (h_group H) (h_key H) 0 (h_text H) 4 10000 (h_id H))) (\<lambda>status.
     act_bind (act_assert (status = LP2P_OK)) (\<lambda>_. read_id (n_endian n) (h_id H)))"

definition hp_bootstrap :: "'sw net \<Rightarrow> libs \<Rightarrow> hp_locals \<Rightarrow> ptr \<Rightarrow> (unit, 'sw) act" where
  "hp_bootstrap n lb H node =
     act_bind (act_call n lb [(h_id H, wr64 (n_endian n) 0)] (Dht_bootstrap node (h_id H))) (\<lambda>_. act_return ())"

definition hp_log :: "'sw net \<Rightarrow> (peer_id \<Rightarrow> bytes) \<Rightarrow> bytes \<Rightarrow> event \<Rightarrow> (unit, 'sw) act" where
  "hp_log n show_peer role ev =
     act_bind (act_unwrap (describe (n_crypto n) show_peer ev)) (\<lambda>line.
       case line of None \<Rightarrow> act_return () | Some l \<Rightarrow> hp_say role l)"

section \<open>Rounds\<close>

text \<open>
  A round of a loop: the time its condition reads, what the thread of the node does until the poll, and the time and wake-ups of
  the poll.
\<close>

record 'sw beat =
  b_clock :: instant
  b_turns :: "'sw turn list"
  b_now :: instant
  b_sched :: "(instant \<times> queue_op list) list"

definition act_turns :: "'sw net \<Rightarrow> ptr \<Rightarrow> 'sw turn list \<Rightarrow> (unit, 'sw) act" where
  "act_turns n node ts p =
     (case f_handles (p_ffi p) node of
        None \<Rightarrow> Return (Goes (), p)
      | Some h \<Rightarrow> Return (Goes (), p\<lparr>p_ffi := set_node node h (node_turns n ts (l_node h)) (p_ffi p)\<rparr>))"

definition hp_round :: "'sw net \<Rightarrow> libs \<Rightarrow> hp_locals \<Rightarrow> ptr \<Rightarrow> int \<Rightarrow> 'sw beat \<Rightarrow> (event list, 'sw) act" where
  "hp_round n lb H node timeout_ms b =
     act_bind (act_turns n node (b_turns b)) (\<lambda>_. hp_poll n lb H node timeout_ms (b_now b) (b_sched b))"

fun act_each :: "('e \<Rightarrow> 's \<Rightarrow> ('s, 'sw) act) \<Rightarrow> 'e list \<Rightarrow> 's \<Rightarrow> ('s, 'sw) act" where
  "act_each f [] s = act_return s"
| "act_each f (x # xs) s = act_bind (f x s) (act_each f xs)"

text \<open>\<open>while result.is_none() && Instant::now() < deadline\<close> around a poll and a loop over its events.\<close>

fun poll_until ::
  "'sw net \<Rightarrow> libs \<Rightarrow> hp_locals \<Rightarrow> ptr \<Rightarrow> int \<Rightarrow> (event \<Rightarrow> 'v option \<Rightarrow> ('v option, 'sw) act) \<Rightarrow> instant \<Rightarrow> 'sw beat list \<Rightarrow>
   'v option \<Rightarrow> ('v option, 'sw) act" where
  "poll_until n lb H node timeout_ms f deadline beats (Some v) = act_return (Some v)"
| "poll_until n lb H node timeout_ms f deadline [] None = act_wait"
| "poll_until n lb H node timeout_ms f deadline (b # bs) None =
     (if b_clock b < deadline then
        act_bind (hp_round n lb H node timeout_ms b) (\<lambda>events.
        act_bind (act_each f events None) (poll_until n lb H node timeout_ms f deadline bs))
      else act_return None)"

section \<open>Relay and listener\<close>

fun relay_loop :: "'sw net \<Rightarrow> libs \<Rightarrow> (peer_id \<Rightarrow> bytes) \<Rightarrow> hp_locals \<Rightarrow> bytes \<Rightarrow> ptr \<Rightarrow> 'sw beat list \<Rightarrow> (unit, 'sw) act" where
  "relay_loop n lb show_peer H role node [] = act_wait"
| "relay_loop n lb show_peer H role node (b # bs) =
     act_bind (hp_round n lb H node 1000 b) (\<lambda>events.
     act_bind (act_each (\<lambda>ev _. hp_log n show_peer role ev) events ()) (\<lambda>_. relay_loop n lb show_peer H role node bs))"

definition listener_event :: "'sw net \<Rightarrow> libs \<Rightarrow> (peer_id \<Rightarrow> bytes) \<Rightarrow> hp_locals \<Rightarrow> bytes \<Rightarrow> ptr \<Rightarrow> event \<Rightarrow> (unit, 'sw) act" where
  "listener_event n lb show_peer H role node ev =
     act_bind
       (if ev_type (fst ev) = LP2P_EV_RPC_REQUEST then
          act_bind (act_call n lb [(h_text H, ascii ''pong'')] (Rpc_respond node (ev_id (fst ev)) (h_text H) 4)) (\<lambda>_. act_return ())
        else act_return ())
       (\<lambda>_. hp_log n show_peer role ev)"

fun listener_loop :: "'sw net \<Rightarrow> libs \<Rightarrow> (peer_id \<Rightarrow> bytes) \<Rightarrow> hp_locals \<Rightarrow> bytes \<Rightarrow> ptr \<Rightarrow> 'sw beat list \<Rightarrow> (unit, 'sw) act" where
  "listener_loop n lb show_peer H role node [] = act_wait"
| "listener_loop n lb show_peer H role node (b # bs) =
     act_bind (hp_round n lb H node 1000 b) (\<lambda>events.
     act_bind (act_each (\<lambda>ev _. listener_event n lb show_peer H role node ev) events ()) (\<lambda>_.
       listener_loop n lb show_peer H role node bs))"

section \<open>AutoNAT client\<close>

definition autonat_event ::
  "'sw net \<Rightarrow> (peer_id \<Rightarrow> bytes) \<Rightarrow> bytes \<Rightarrow> event \<Rightarrow> u16 option \<Rightarrow> (u16 option, 'sw) act" where
  "autonat_event n show_peer role ev verdict =
     act_bind (hp_log n show_peer role ev) (\<lambda>_. act_return
       (if ev_type (fst ev) = LP2P_EV_REACHABILITY \<and> ev_reason (fst ev) \<noteq> ucast LP2P_REACH_UNKNOWN
        then Some (ev_reason (fst ev)) else verdict))"

definition autonat_loop ::
  "'sw net \<Rightarrow> libs \<Rightarrow> (peer_id \<Rightarrow> bytes) \<Rightarrow> hp_locals \<Rightarrow> bytes \<Rightarrow> ptr \<Rightarrow> instant \<Rightarrow> 'sw beat list \<Rightarrow> u16 option \<Rightarrow>
   (u16 option, 'sw) act" where
  "autonat_loop n lb show_peer H role node = poll_until n lb H node 500 (autonat_event n show_peer role)"

definition reachability_text :: "u16 option \<Rightarrow> bytes \<times> int" where
  "reachability_text verdict =
     (case verdict of
        Some r \<Rightarrow> if r = ucast LP2P_REACH_PUBLIC then (ascii ''public'', 0) else (ascii ''private'', 1)
      | None \<Rightarrow> (ascii ''unknown'', 2))"

definition hp_shutdown :: "'sw net \<Rightarrow> libs \<Rightarrow> ptr \<Rightarrow> 'sw turn list \<Rightarrow> int \<Rightarrow> (unit, 'sw) act" where
  "hp_shutdown n lb node turns code = act_bind (act_call n lb [] (Shutdown_call node turns)) (\<lambda>_. act_exit code)"

definition autonat_client ::
  "'sw net \<Rightarrow> libs \<Rightarrow> (peer_id \<Rightarrow> bytes) \<Rightarrow> hp_locals \<Rightarrow> bytes \<Rightarrow> bytes \<Rightarrow> ptr \<Rightarrow> instant \<Rightarrow> 'sw beat list \<Rightarrow> 'sw turn list \<Rightarrow>
   (unit, 'sw) act" where
  "autonat_client n lb show_peer H role transport node began beats turns =
     act_bind (autonat_loop n lb show_peer H role node (began + from_secs 60) beats None) (\<lambda>verdict.
     case reachability_text verdict of (word, code) \<Rightarrow>
     act_bind (hp_say role (ascii ''RESULT impl=rust transport='' @ transport @ ascii '' reachability='' @ word)) (\<lambda>_.
       hp_shutdown n lb node turns code))"

section \<open>Dialer\<close>

record dialer =
  d_answered :: bool
  d_first_connection :: bytes
  d_punched :: "(bytes + bytes) option"

definition punch_result :: "event \<Rightarrow> bytes + bytes" where
  "punch_result ev =
     (let dat = from_utf8_lossy (snd ev) in if ev_reason (fst ev) = 0 then Inr dat else Inl dat)"

text \<open>The events of a poll while a call is open; the first component says that \<open>break 'call\<close> was reached.\<close>

fun dial_events ::
  "'sw net \<Rightarrow> (peer_id \<Rightarrow> bytes) \<Rightarrow> bytes \<Rightarrow> lp2p_key \<Rightarrow> u64 \<Rightarrow> event list \<Rightarrow> dialer \<Rightarrow> (bool \<times> dialer, 'sw) act" where
  "dial_events n show_peer role listener_key cid [] d = act_return (False, d)"
| "dial_events n show_peer role listener_key cid (ev # evs) d =
     act_bind (hp_log n show_peer role ev) (\<lambda>_.
       let e = fst ev in
       if ev_type e = LP2P_EV_PEER_CONNECTED \<and> ev_node e = listener_key then
         dial_events n show_peer role listener_key cid evs (d\<lparr>d_first_connection := from_utf8_lossy (snd ev)\<rparr>)
       else if ev_type e = LP2P_EV_HOLE_PUNCH \<and> ev_node e = listener_key then
         dial_events n show_peer role listener_key cid evs (d\<lparr>d_punched := Some (punch_result ev)\<rparr>)
       else if ev_type e = LP2P_EV_RPC_RESPONSE \<and> ev_id e = cid then act_return (True, d\<lparr>d_answered := True\<rparr>)
       else if ev_type e = LP2P_EV_RPC_FAILED \<and> ev_id e = cid then act_return (True, d)
       else dial_events n show_peer role listener_key cid evs d)"

text \<open>
  The two nested loops in one recursion over the beats: with no call open the outer condition is next, with one open the inner.
  The two seconds of sleep pass between two beats.
\<close>

fun dialing_loop ::
  "'sw net \<Rightarrow> libs \<Rightarrow> (peer_id \<Rightarrow> bytes) \<Rightarrow> hp_locals \<Rightarrow> bytes \<Rightarrow> ptr \<Rightarrow> lp2p_key \<Rightarrow> lp2p_key \<Rightarrow> instant \<Rightarrow>
   'sw beat list \<Rightarrow> (u64 \<times> instant) option \<Rightarrow> dialer \<Rightarrow> (dialer \<times> 'sw beat list, 'sw) act" where
  "dialing_loop n lb show_peer H role node grp key deadline [] calling d = act_wait"
| "dialing_loop n lb show_peer H role node grp key deadline (b # bs) None d =
     (if b_clock b < deadline then
        act_bind (hp_call n lb H node grp key) (\<lambda>cid.
          dialing_loop n lb show_peer H role node grp key deadline bs (Some (cid, b_now b + from_secs 12)) d)
      else act_return (d, bs))"
| "dialing_loop n lb show_peer H role node grp key deadline (b # bs) (Some (cid, until)) d =
     (if b_clock b < until then
        act_bind (hp_round n lb H node 200 b) (\<lambda>events.
        act_bind (dial_events n show_peer role key cid events d) (\<lambda>(broke, d).
          if d_answered d then act_return (d, bs)
          else dialing_loop n lb show_peer H role node grp key deadline bs (if broke then None else Some (cid, until)) d))
      else dialing_loop n lb show_peer H role node grp key deadline bs None d)"

definition punch_event ::
  "'sw net \<Rightarrow> (peer_id \<Rightarrow> bytes) \<Rightarrow> bytes \<Rightarrow> lp2p_key \<Rightarrow> event \<Rightarrow> (bytes + bytes) option \<Rightarrow> ((bytes + bytes) option, 'sw) act" where
  "punch_event n show_peer role listener_key ev punched =
     act_bind (hp_log n show_peer role ev) (\<lambda>_. act_return
       (if ev_type (fst ev) = LP2P_EV_HOLE_PUNCH \<and> ev_node (fst ev) = listener_key
        then Some (punch_result ev) else punched))"

definition punch_loop ::
  "'sw net \<Rightarrow> libs \<Rightarrow> (peer_id \<Rightarrow> bytes) \<Rightarrow> hp_locals \<Rightarrow> bytes \<Rightarrow> ptr \<Rightarrow> lp2p_key \<Rightarrow> instant \<Rightarrow> 'sw beat list \<Rightarrow>
   (bytes + bytes) option \<Rightarrow> ((bytes + bytes) option, 'sw) act" where
  "punch_loop n lb show_peer H role node key = poll_until n lb H node 200 (punch_event n show_peer role key)"

definition punch_text :: "(bytes + bytes) option \<Rightarrow> bytes \<times> int" where
  "punch_text punched =
     (case punched of
        Some (Inr address) \<Rightarrow> (ascii ''hole_punch=direct address='' @ address, 0)
      | Some (Inl err) \<Rightarrow> (ascii ''hole_punch=failed error='' @ err, 1)
      | None \<Rightarrow> (ascii ''hole_punch=none'', 1))"

definition bool_text :: "bool \<Rightarrow> bytes" where
  "bool_text b = (if b then ascii ''true'' else ascii ''false'')"

definition dialer_run ::
  "'sw net \<Rightarrow> libs \<Rightarrow> (peer_id \<Rightarrow> bytes) \<Rightarrow> hp_locals \<Rightarrow> bytes \<Rightarrow> bytes \<Rightarrow> ptr \<Rightarrow> lp2p_key \<Rightarrow> lp2p_key \<Rightarrow> instant \<Rightarrow>
   'sw beat list \<Rightarrow> 'sw turn list \<Rightarrow> (unit, 'sw) act" where
  "dialer_run n lb show_peer H role transport node grp key began beats turns =
     act_bind (dialing_loop n lb show_peer H role node grp key (began + from_secs 60) beats None
       \<lparr>d_answered = False, d_first_connection = [], d_punched = None\<rparr>) (\<lambda>(d, beats).
     if \<not> d_answered d then
       act_bind (hp_say role (ascii ''RESULT impl=rust transport='' @ transport @ ascii '' rpc=failed'')) (\<lambda>_. act_exit 2)
     else
       case beats of
         [] \<Rightarrow> act_wait
       | b # bs \<Rightarrow>
           act_bind (punch_loop n lb show_peer H role node key (b_clock b + from_secs 30) bs (d_punched d)) (\<lambda>punched.
           case punch_text punched of (outcome, code) \<Rightarrow>
           act_bind (hp_say role (ascii ''RESULT impl=rust transport='' @ transport @ ascii '' rpc=ok first_connection_relayed='' @
             bool_text (contains (d_first_connection d) (ascii ''/p2p-circuit'')) @ ascii '' '' @ outcome)) (\<lambda>_.
             hp_shutdown n lb node turns code)))"

section \<open>Roles\<close>

definition hp_main ::
  "'sw net \<Rightarrow> libs \<Rightarrow> (peer_id \<Rightarrow> bytes) \<Rightarrow> (bytes \<Rightarrow> bytes option) \<Rightarrow> main_locals \<Rightarrow> hp_locals \<Rightarrow> ptr \<Rightarrow> u64 \<Rightarrow>
   (config \<Rightarrow> int + 'sw) \<Rightarrow> ('sw meantime \<times> swarm_ev) list \<Rightarrow> instant \<Rightarrow> 'sw beat list \<Rightarrow> 'sw turn list \<Rightarrow> (unit, 'sw) act" where
  "hp_main n lb show_peer env L H box ms built evs began beats turns =
     (let role = or_text (env (ascii ''ROLE'')) ''dialer'';
          transport = or_text (env (ascii ''TRANSPORT'')) ''tcp'';
          relay_ip = or_text (env (ascii ''RELAY_IP'')) ''11.99.0.10'';
          relay_address = hp_addresses transport relay_ip;
          start = hp_start n lb L box ms built evs
      in act_bind (key_of_seed n lb (m_seed L) (m_key L) (replicate 32 1)) (\<lambda>relay_key.
         if role = ascii ''relay'' then
           act_bind (start (replicate 32 1) (replicate 32 0x11) LP2P_REACH_PUBLIC transport True) (\<lambda>(node, key).
           act_bind (act_unwrap (peer_id (n_crypto n) key)) (\<lambda>peer.
           act_bind (hp_say role (ascii ''peer '' @ show_peer peer)) (\<lambda>_. relay_loop n lb show_peer H role node beats)))
         else if role = ascii ''listener'' then
           act_bind (start (replicate 32 2) (replicate 32 0x22) LP2P_REACH_PRIVATE transport False) (\<lambda>(node, _).
           act_bind (hp_add_address n lb H node relay_key relay_address) (\<lambda>_.
           act_bind (hp_bootstrap n lb H node) (\<lambda>_. listener_loop n lb show_peer H role node beats)))
         else if role = ascii ''autonat-client'' then
           (let seed = byte_env env (ascii ''SEED'') 4 in
            act_bind (start (replicate 32 seed) (replicate 32 (seed + 0x40)) LP2P_REACH_UNKNOWN transport True) (\<lambda>(node, _).
            act_bind (hp_add_address n lb H node relay_key relay_address) (\<lambda>_.
            act_bind (hp_bootstrap n lb H node) (\<lambda>_.
              autonat_client n lb show_peer H role transport node began beats turns))))
         else
           act_bind (start (replicate 32 3) (replicate 32 0x33) LP2P_REACH_PRIVATE transport False) (\<lambda>(node, _).
           act_bind (hp_add_address n lb H node relay_key relay_address) (\<lambda>_.
           act_bind (key_of_seed n lb (m_seed L) (m_key L) (replicate 32 2)) (\<lambda>listener_key.
           act_bind (act_unwrap (peer_id (n_crypto n) relay_key)) (\<lambda>peer.
           act_bind (hp_add_address n lb H node listener_key
             (relay_address @ ascii ''/p2p/'' @ show_peer peer @ ascii ''/p2p-circuit'')) (\<lambda>_.
           act_bind (key_of_seed n lb (m_seed L) (m_key L) (replicate 32 0x22)) (\<lambda>listener_group_key.
             dialer_run n lb show_peer H role transport node listener_group_key listener_key began beats turns))))))))"

end
