(* ===== verification/FfiConfigProps.thy ===== *)
theory FfiConfigProps
  imports FfiSafety
begin

text \<open>
  What \<open>config_from\<close> accepts, how a rate becomes libp2p's token bucket, and the functions on keys and delegations that need no node.
\<close>

section \<open>Accepted values\<close>

lemma bind_Inr:
  assumes "bind_fallible r f = Some (Inr y)"
  obtains x where "r = Some (Inr x)" and "f x = Some (Inr y)"
  using assms by (auto simp: bind_fallible_def split: option.splits sum.splits)

lemma ensure_Inr: "ensure b = Some (Inr u) \<longleftrightarrow> b"
  by (simp add: ensure_def)

lemma or_invalid_Inr: "or_invalid r = Some (Inr x) \<longleftrightarrow> r = Some x"
  by (cases r) simp_all

lemma ffi_string_Inr: "ffi_string m p = Some (Inr s) \<longleftrightarrow> p \<noteq> 0 \<and> cstr m p = Some s \<and> utf8_valid s"
  by (auto simp: ffi_string_def split: option.splits)

lemma collect_Inr: "collect_fallible rs = Some (Inr xs) \<Longrightarrow> list_all2 (\<lambda>r x. r = Some (Inr x)) rs xs"
  by (induction rs arbitrary: xs) (auto elim!: bind_Inr)

lemma ffi_strings_Inr:
  assumes "ffi_strings e m p count = Some (Inr ss)"
  shows "length ss = count \<and> (\<forall>s \<in> set ss. utf8_valid s \<and> 0 \<notin> set s)"
proof (cases "count = 0")
  case False
  then obtain bs where "collect_fallible (map (ffi_string m) (ptrs_of e count bs)) = Some (Inr ss)"
    using assms by (auto simp: ffi_strings_def split: if_splits option.splits)
  from collect_Inr [OF this] have l: "list_all2 (\<lambda>q s. ffi_string m q = Some (Inr s)) (ptrs_of e count bs) ss"
    by (simp add: list_all2_map1)
  moreover have "\<exists>q. ffi_string m q = Some (Inr s)" if "s \<in> set ss" for s
    using l that by (auto simp: list_all2_conv_all_nth in_set_conv_nth)
  ultimately show ?thesis
    using cstr_sound by (fastforce simp: ptrs_of_def ffi_string_Inr dest: list_all2_lengthD)
qed (use assms in \<open>simp add: ffi_strings_def\<close>)

section \<open>Refusals\<close>

definition only_invalid :: "'a fallible \<Rightarrow> bool" where
  "only_invalid r \<longleftrightarrow> (\<forall>e. r = Some (Inl e) \<longrightarrow> e = LP2P_ERR_INVALID_ARGUMENT)"

lemma only_invalid_bind:
  "only_invalid r \<Longrightarrow> (\<And>x. only_invalid (f x)) \<Longrightarrow> only_invalid (bind_fallible r f)"
  by (auto simp: only_invalid_def bind_fallible_def split: option.split sum.split)

lemma only_invalid_basic:
  "only_invalid (Some (Inr x))" "only_invalid (Some (Inl LP2P_ERR_INVALID_ARGUMENT))" "only_invalid (ensure b)"
  "only_invalid (or_invalid y)" "only_invalid (parse_ok_or_invalid bs)" "only_invalid (ffi_bytes m p k)"
  "only_invalid (ffi_string m p)"
  by (auto simp: only_invalid_def ensure_def or_invalid_def parse_ok_or_invalid_def ffi_bytes_def ffi_string_def
      split: option.splits if_splits)

lemma only_invalid_collect: "(\<And>r. r \<in> set rs \<Longrightarrow> only_invalid r) \<Longrightarrow> only_invalid (collect_fallible rs)"
  by (induction rs) (auto intro!: only_invalid_bind only_invalid_basic)

lemma only_invalid_strings: "only_invalid (ffi_strings e m p count)"
  unfolding ffi_strings_def
  by (auto intro!: only_invalid_basic only_invalid_collect simp: only_invalid_def [of None] split: option.split)

lemma only_invalid_config: "only_invalid (config_from e lb m opt)"
proof -
  have "only_invalid (announce_from m dht a)" for dht a
    unfolding announce_from_def by (auto intro!: only_invalid_basic only_invalid_bind)
  then show ?thesis
    unfolding config_from_def
    by (intro only_invalid_bind only_invalid_basic only_invalid_strings only_invalid_collect) (auto intro: only_invalid_basic)
qed

section \<open>The configuration\<close>

text \<open>What the rest of the module relies on: sizes of arrays, names, and room in the queue.\<close>

definition announce_wf :: "announce_config \<Rightarrow> bool" where
  "announce_wf a \<longleftrightarrow> ac_topic a \<noteq> [] \<and> ac_max_payload_bytes a < 2 ^ 32"

definition config_wf :: "libs \<Rightarrow> lp2p_options \<Rightarrow> config \<Rightarrow> bool" where
  "config_wf lb opt c \<longleftrightarrow>
     delegation_wf (c_delegation c) \<and> d_group (c_delegation c) = o_group opt \<and>
     length (c_listen c) = listen_addr_count opt \<and> stream_protocol_ok lb (c_dht_protocol c) \<and>
     length (c_rpc_protocols c) = o_rpc_protocol_count opt \<and> length (c_rpc_protocols c) < 2 ^ 16 \<and>
     (\<forall>p \<in> set (c_rpc_protocols c). p \<noteq> [] \<and> length p \<le> 255 \<and> utf8_valid p \<and> 0 \<notin> set p) \<and>
     c_rpc_max_request_bytes c \<noteq> 0 \<and> c_rpc_max_response_bytes c \<noteq> 0 \<and> 0 < c_rpc_timeout c \<and>
     (\<forall>a. c_announce c = Some a \<longrightarrow> announce_wf a) \<and>
     padded_size (unat (c_rpc_max_response_bytes c) + 256) \<le> c_event_queue_bytes c"

lemma announce_from_Inr:
  assumes "announce_from m dht ao = Some (Inr r)" and "r = Some a"
  shows "announce_wf a"
proof -
  have "unat (ao_max_payload_bytes ao) < 2 ^ 32" using unsigned_less [of "ao_max_payload_bytes ao"] by simp
  with assms show ?thesis
    by (auto simp: announce_from_def announce_wf_def elim!: bind_Inr split: if_splits)
qed

lemma config_of_queue: "padded_size (unat (c_rpc_max_response_bytes (config_of opt d l dht ps a r)) + 256)
    \<le> c_event_queue_bytes (config_of opt d l dht ps a r)"
  using padded_size_bounds(2) [of "unat (o_rpc_max_response_bytes opt) + 256"] by (simp add: config_of_def)

lemma config_from_wf:
  assumes "config_from e lb m opt = Some (Inr c)"
  shows "config_wf lb opt c"
  using assms unfolding config_from_def
proof (elim bind_Inr)
  fix bs deleg u1 addrs listen dht u2 protocols ann u3 u4 reach
  assume a: "parse_ok_or_invalid bs = Some (Inr deleg)" "ensure (d_group deleg = o_group opt) = Some (Inr u1)"
    "ffi_strings e m (unat (listen_addrs opt)) (listen_addr_count opt) = Some (Inr addrs)"
    "collect_fallible (map (\<lambda>s. or_invalid (parse_multiaddr lb s)) addrs) = Some (Inr listen)"
    "ensure (stream_protocol_ok lb dht) = Some (Inr u2)"
    "ffi_strings e m (unat (o_rpc_protocols opt)) (o_rpc_protocol_count opt) = Some (Inr protocols)"
    "announce_from m dht (o_announce opt) = Some (Inr ann)"
    "ensure (length protocols \<le> 65535 \<and> (\<forall>p \<in> set protocols. p \<noteq> [] \<and> length p \<le> 255)) = Some (Inr u3)"
    "ensure (o_rpc_max_request_bytes opt \<noteq> 0 \<and> o_rpc_max_response_bytes opt \<noteq> 0 \<and> rpc_timeout_ms opt \<noteq> 0) = Some (Inr u4)"
    "Some (Inr (config_of opt deleg listen dht protocols ann reach)) = Some (Inr c)"
  have c: "c = config_of opt deleg listen dht protocols ann reach" using a(10) by simp
  have "delegation_wf deleg"
    using a(1) to_bytes_parse by (auto simp: parse_ok_or_invalid_def or_invalid_Inr parse_ok_def split: sum.splits)
  moreover have "length listen = listen_addr_count opt"
    using collect_Inr [OF a(4)] ffi_strings_Inr [OF a(3)] by (auto dest: list_all2_lengthD)
  moreover have "0 < from_millis (unat (rpc_timeout_ms opt))"
    using a(9) by (simp add: ensure_Inr from_millis_def unat_gt_0)
  ultimately show ?thesis
    using a(2,5,7,8,9) ffi_strings_Inr [OF a(6)] announce_from_Inr [OF a(7)] config_of_queue
    unfolding config_wf_def c by (auto simp: ensure_Inr config_of_def)
qed

text \<open>
  C17: What \<open>lp2p_start\<close> makes of options. Whatever readable options a caller passes, either they are refused, and then with
  \<open>LP2P_ERR_INVALID_ARGUMENT\<close>, or they give a configuration the rest of the module can rely on: a well-formed delegation of the group the
  options name, as many listen addresses and protocols as announced, protocol names that fit the one-byte length of a request
  frame, limits that are not zero, and an event queue with room for the largest response.
\<close>

theorem config_from_checks:
  assumes "options_ok e m opt"
  shows "config_from e lb m opt = Some (Inl LP2P_ERR_INVALID_ARGUMENT) \<or>
    (\<exists>c. config_from e lb m opt = Some (Inr c) \<and> config_wf lb opt c)"
proof -
  obtain r where r: "config_from e lb m opt = Some r" using config_from_defined [OF assms] by (rule definedE)
  show ?thesis
  proof (cases r)
    case (Inl x)
    with r only_invalid_config [of e lb m opt] show ?thesis by (simp add: only_invalid_def)
  next
    case (Inr c)
    with r config_from_wf show ?thesis by blast
  qed
qed

theorem config_from_checks_witness: "\<exists>c. config_from Little demo_libs demo_memory demo_options = Some (Inr c) \<and>
    config_wf demo_libs demo_options c"
proof -
  have "options_ok Little demo_memory demo_options"
    by (simp add: options_ok_def demo_fields mapped_def demo_loads strs_ok_def str_ok_def demo_strings aligned_def
        demo_ptrs [simplified] del: load.simps)
  from config_from_checks [OF this, of demo_libs] show ?thesis by (simp add: demo_config_from)
qed

section \<open>Rates\<close>

lemma div_twice:
  assumes "0 < (a :: nat)" and "a \<le> i"
  shows "a \<le> i div (i div a) \<and> i div (i div a) < 2 * a \<and> 1 \<le> i div a"
proof -
  let ?k = "i div a"
  have k: "1 \<le> ?k" using assms by (simp add: div_greater_zero_iff Suc_le_eq)
  have "a * ?k \<le> i" "i < a * (?k + 1)" using assms(1) by (simp_all add: dividend_less_times_div)
  moreover have "a * (?k + 1) \<le> 2 * a * ?k" using k by (simp add: algebra_simps)
  ultimately have "i < 2 * a * ?k" "a * ?k \<le> i" by linarith+
  with k show ?thesis by (simp add: less_eq_div_iff_mult_less_eq less_mult_imp_div_less)
qed

text \<open>Tokens libp2p's limiter adds in \<open>ms\<close> milliseconds, at one per \<open>tb_interval\<close>.\<close>

definition tokens_in :: "token_bucket_config \<Rightarrow> nat \<Rightarrow> nat" where
  "tokens_in tb ms = from_millis ms div tb_interval tb"

text \<open>
  A rate as libp2p's token bucket. A rate with a zero switches the limiter off. Every other rate keeps its burst and gets an
  interval of at least one millisecond. When no more than one per millisecond is asked for, the bucket admits in every
  \<open>interval_ms\<close> at least the amount asked for and less than twice as much; a faster rate is admitted at one per millisecond.
\<close>

theorem token_bucket_rate:
  "(burst r = 0 \<or> amount r = 0 \<or> interval_ms r = 0 \<longleftrightarrow> token_bucket r = None) \<and>
   (token_bucket r = Some tb \<longrightarrow>
      tb_burst tb = burst r \<and> from_millis 1 \<le> tb_interval tb \<and>
      (amount r \<le> interval_ms r \<longrightarrow>
         unat (amount r) \<le> tokens_in tb (unat (interval_ms r)) \<and>
         tokens_in tb (unat (interval_ms r)) < 2 * unat (amount r)) \<and>
      (interval_ms r < amount r \<longrightarrow> tb_interval tb = from_millis 1))"
proof -
  let ?a = "unat (amount r)" and ?i = "unat (interval_ms r)"
  have "tb_burst tb = burst r \<and> from_millis 1 \<le> tb_interval tb \<and>
      (amount r \<le> interval_ms r \<longrightarrow> ?a \<le> tokens_in tb ?i \<and> tokens_in tb ?i < 2 * ?a) \<and>
      (interval_ms r < amount r \<longrightarrow> tb_interval tb = from_millis 1)" if "token_bucket r = Some tb"
  proof -
    have pos: "0 < ?a" "0 < ?i" using that by (auto simp: token_bucket_def unat_gt_0 split: if_splits)
    have tb: "tb_burst tb = burst r" "tb_interval tb = from_millis (max (?i div ?a) 1)"
      using that by (auto simp: token_bucket_def unat_div max_def word_le_nat_alt split: if_splits)
    have tokens: "tokens_in tb ?i = ?i div max (?i div ?a) 1"
      unfolding tokens_in_def tb from_millis_def by (rule div_mult_mult2) simp
    show ?thesis
    proof (cases "?a \<le> ?i")
      case True
      with div_twice [OF pos(1) True] tb tokens show ?thesis
        by (simp add: max_absorb1 from_millis_def word_le_nat_alt word_less_nat_alt)
    next
      case False
      with tb show ?thesis by (simp add: from_millis_def word_le_nat_alt)
    qed
  qed
  then show ?thesis by (auto simp: token_bucket_def)
qed

theorem token_bucket_rate_witness:
  "tb_interval (the (token_bucket \<lparr>amount = 10, interval_ms = 1000, burst = 5\<rparr>)) = from_millis 100 \<and>
   10 \<le> tokens_in (the (token_bucket \<lparr>amount = 10, interval_ms = 1000, burst = 5\<rparr>)) 1000"
  using token_bucket_rate [of "\<lparr>amount = 10, interval_ms = 1000, burst = 5\<rparr>"
      "the (token_bucket \<lparr>amount = 10, interval_ms = 1000, burst = 5\<rparr>)"]
  by (simp add: token_bucket_def max_def word_le_nat_alt)

section \<open>Delegations through memory\<close>

lemma write_out_ok:
  assumes "write_out p bs (st, s) = Return (st', s')"
  shows "st' = st \<and> load (f_mem s') p (length bs) = Some bs \<and> f_handles s' = f_handles s \<and> dom (f_mem s') = dom (f_mem s) \<and>
    (\<forall>q k. region q k \<inter> region p (length bs) = {} \<longrightarrow> load (f_mem s') q k = load (f_mem s) q k)"
proof -
  obtain m where m: "store (f_mem s) p bs = Some m" and s': "st' = st" "s' = s\<lparr>f_mem := m\<rparr>"
    using assms by (auto simp: write_out_def split: option.splits)
  show ?thesis using load_store [OF m] store_dom [OF m] load_after_store [OF m] by (simp add: s')
qed

lemma write_out_defined: "defined (load (f_mem s) p (length bs)) \<Longrightarrow> \<exists>s'. write_out p bs (st, s) = Return (st, s')"
  using store_SomeI [of p bs "f_mem s"] load_region [of "f_mem s" p "length bs"] by (auto simp: write_out_def)

lemma sign_accepted:
  assumes "lp2p_delegation_sign c seed node_key expires_ms out s = Return (LP2P_OK, s1)"
  obtains sd k d where "load (f_mem s) seed 32 = Some sd" "load (f_mem s) node_key 32 = Some k" "out \<noteq> 0"
    "sign c sd k expires_ms = Some d" "write_out out (to_bytes d) (LP2P_OK, s) = Return (LP2P_OK, s1)"
  using assms
  by (auto simp: lp2p_delegation_sign_def attempt_def ffi_key_def ensure_def or_invalid_def status_defs
      split: option.splits sum.splits if_splits)

lemma sign_verifies:
  assumes "signatures_ok c" and "sign c sd k expires = Some d" and "length k = 32"
  shows "delegation_wf d \<and> d_node d = k \<and> (\<forall>sk. secret_from_bytes c sd = Some sk \<longrightarrow> d_group d = ed_public c sk) \<and>
    (expires = 0 \<or> now < expires \<longrightarrow> verify c d now = Inr ())"
  using assms by (auto simp: sign_def signatures_ok_def delegation_wf_def verify_ok_iff Let_def split: option.splits if_splits)

lemma verify_writes:
  assumes "load (f_mem s) deleg 136 = Some (to_bytes d)" and "delegation_wf d" and "deleg \<noteq> 0"
    and "verify c d (if at_ms = 0 then clock else at_ms) = Inr ()" and "group_out \<noteq> 0" and "node_out \<noteq> 0"
    and "defined (load (f_mem s) group_out 32)" and "defined (load (f_mem s) node_out 32)"
    and "region group_out 32 \<inter> region node_out 32 = {}"
  shows "\<exists>s2. lp2p_delegation_verify c clock deleg 136 at_ms group_out node_out s = Return (LP2P_OK, s2) \<and>
    load (f_mem s2) group_out 32 = Some (d_group d) \<and> load (f_mem s2) node_out 32 = Some (d_node d)"
proof -
  have len: "length (d_group d) = 32" "length (d_node d) = 32" using assms(2) by (simp_all add: delegation_wf_def)
  obtain s1 where s1: "write_out group_out (d_group d) (LP2P_OK, s) = Return (LP2P_OK, s1)"
    using write_out_defined assms(7) len by metis
  note w1 = write_out_ok [OF s1, unfolded len]
  have "region node_out 32 \<inter> region group_out 32 = {}" using assms(9) by blast
  with w1 assms(8) have "defined (load (f_mem s1) node_out 32)" by metis
  then obtain s2 where s2: "write_out node_out (d_node d) (LP2P_OK, s1) = Return (LP2P_OK, s2)"
    using write_out_defined len by metis
  note w2 = write_out_ok [OF s2, unfolded len]
  have "lp2p_delegation_verify c clock deleg 136 at_ms group_out node_out s = Return (LP2P_OK, s2)"
    using assms(1-6) s1 s2
    by (simp add: lp2p_delegation_verify_def ffi_bytes_def parse_ok_or_invalid_def parse_ok_def parse_to_bytes Let_def write_opt_def
        del: load.simps)
  with w1 w2 assms(9) show ?thesis by metis
qed

text \<open>
  C39: Signing and verifying from C. When \<open>lp2p_delegation_sign\<close> has succeeded, \<open>lp2p_delegation_verify\<close> on the bytes it wrote accepts them at
  every time before the expiry (always, if there is none), and hands back the node key that was signed and the public key of the
  group's seed.
\<close>

theorem delegation_sign_verify:
  assumes "signatures_ok c" and "lp2p_delegation_sign c seed node_key expires_ms out s = Return (LP2P_OK, s1)"
    and "expires_ms = 0 \<or> (if at_ms = 0 then clock else at_ms) < expires_ms" and "group_out \<noteq> 0" and "node_out \<noteq> 0"
    and "load (f_mem s) group_out 32 \<noteq> None" and "load (f_mem s) node_out 32 \<noteq> None"
    and "region group_out 32 \<inter> region node_out 32 = {}"
  shows "\<exists>s2 sd sk. lp2p_delegation_verify c clock out LP2P_DELEGATION_BYTES at_ms group_out node_out s1 = Return (LP2P_OK, s2) \<and>
    load (f_mem s) seed 32 = Some sd \<and> secret_from_bytes c sd = Some sk \<and>
    load (f_mem s2) group_out 32 = Some (ed_public c sk) \<and>
    load (f_mem s2) node_out 32 = load (f_mem s) node_key 32"
  using assms(2)
proof (rule sign_accepted)
  fix sd k d
  assume a: "load (f_mem s) seed 32 = Some sd" "load (f_mem s) node_key 32 = Some k" "out \<noteq> 0"
    "sign c sd k expires_ms = Some d" "write_out out (to_bytes d) (LP2P_OK, s) = Return (LP2P_OK, s1)"
  note d = sign_verifies [OF assms(1) a(4) length_load [OF a(2)], of "if at_ms = 0 then clock else at_ms"]
  obtain sk where sk: "secret_from_bytes c sd = Some sk" using a(4) by (auto simp: sign_def split: option.splits)
  have "length (to_bytes d) = 136" using d length_to_bytes by blast
  with write_out_ok [OF a(5)] have l: "load (f_mem s1) out 136 = Some (to_bytes d)" and dm: "dom (f_mem s1) = dom (f_mem s)"
    by metis+
  have "defined (load (f_mem s1) p j) = defined (load (f_mem s) p j)" for p j
    using load_mapped [of "f_mem s1" p j] load_mapped [of "f_mem s" p j] dm by (simp only: defined_def)
  with assms(6,7) have "defined (load (f_mem s1) group_out 32)" "defined (load (f_mem s1) node_out 32)"
    by (simp_all only: defined_def not_False_eq_True)
  from verify_writes [OF l _ a(3) _ assms(4,5) this assms(8), of c at_ms clock] d assms(3) sk a(1,2) show ?thesis
    by (auto simp: LP2P_DELEGATION_BYTES_def)
qed

text \<open>A delegation without expiry over memory at hand.\<close>

definition demo_pages :: "nat ffi" where
  "demo_pages = \<lparr>f_mem = seg_mem [(64, replicate 512 1)], f_handles = Map.empty\<rparr>"

lemma demo_pages_load: "64 \<le> p \<Longrightarrow> p + k \<le> 576 \<Longrightarrow> load (f_mem demo_pages) p k = Some (replicate k 1)"
  unfolding demo_pages_def
  using load_of_nth [of "replicate k 1" "seg_mem [(64, replicate 512 1)]" p] by auto

theorem delegation_sign_verify_witness:
  "\<exists>s1 s2. lp2p_delegation_sign demo_crypto 64 96 0 128 demo_pages = Return (LP2P_OK, s1) \<and>
     lp2p_delegation_verify demo_crypto 5 128 LP2P_DELEGATION_BYTES 0 384 416 s1 = Return (LP2P_OK, s2) \<and>
     load (f_mem s2) 416 32 = Some (replicate 32 1)"
proof -
  have seed: "load (f_mem demo_pages) 64 32 = Some (replicate 32 1)" "load (f_mem demo_pages) 96 32 = Some (replicate 32 1)"
    "defined (load (f_mem demo_pages) 128 136)" by (simp_all add: demo_pages_load del: load.simps)
  obtain d where d: "sign demo_crypto (replicate 32 1) (replicate 32 1) 0 = Some d"
    by (simp add: sign_def demo_crypto_def Let_def)
  with sign_verifies [OF demo_signatures_ok d] have "length (to_bytes d) = 136" by (simp add: length_to_bytes)
  then obtain s1 where "write_out 128 (to_bytes d) (LP2P_OK, demo_pages) = Return (LP2P_OK, s1)"
    using write_out_defined [of demo_pages 128 "to_bytes d" LP2P_OK] seed(3) by auto
  with d seed have s1: "lp2p_delegation_sign demo_crypto 64 96 0 128 demo_pages = Return (LP2P_OK, s1)"
    by (simp add: lp2p_delegation_sign_def ffi_key_def del: load.simps)
  from delegation_sign_verify [OF demo_signatures_ok s1, of 0 5 384 416] seed(2) s1 show ?thesis
    by (auto simp: demo_pages_load region_def simp del: load.simps)
qed

end
