(* ===== verification/ProgramStart.thy ===== *)
theory ProgramStart
  imports InteropRuns HolePunch FfiConfigProps
begin

text \<open>
  How the two programs come to a node: keys, a delegation, the options with their pointers, and \<open>lp2p_start\<close>. Every call meets
  its contract, and a program that goes on has a running node, which is where the interleavings of the interop peer begin.
\<close>

section \<open>Calls without a handle\<close>

definition started :: "'sw net \<Rightarrow> libs \<Rightarrow> ('sw \<Rightarrow> request_id set) \<Rightarrow> ('sw \<Rightarrow> query_id set) \<Rightarrow> (ptr \<Rightarrow> 'sw lp2p option) \<Rightarrow> 'sw process \<Rightarrow> bool" where
  "started n lb iss isq hs p \<longleftrightarrow> c_run n lb iss isq (p_ffi p) \<and> f_handles (p_ffi p) = hs"

lemma sure_free_call:
  assumes "keys_sized (n_crypto n)" and "handle_of c = None" and "\<And>opt out box ms built evs. c \<noteq> Start_call opt out box ms built evs"
    and "\<And>s. contract (n_endian n) c (s\<lparr>f_mem := put_all ls (f_mem s)\<rparr>)"
  shows "sure (started n lb iss isq hs) (act_call n lb ls c)
    (\<lambda>r p. started n lb iss isq hs p \<and> (\<exists>st. r = Goes st) \<and>
       (\<forall>q k. load (put_all ls Map.empty) q k \<noteq> None \<longrightarrow> load (f_mem (p_ffi p)) q k \<noteq> None))"
proof (rule sure_call)
  fix p :: "'a process" and st s'
  let ?s = "(p_ffi p)\<lparr>f_mem := put_all ls (f_mem (p_ffi p))\<rparr>"
  assume p: "started n lb iss isq hs p" and r: "run_call n lb c ?s = Return (st, s')"
  have run: "c_run n lb iss isq ?s" using p by (auto simp: started_def intro: computes)
  have env: "call_env_ok n iss isq c ?s" using assms(2,3) by (auto simp: call_env_ok_def split: ffi_call.split)
  have sound: "dom (f_mem s') = dom (f_mem ?s)" "f_handles s' = f_handles ?s"
    using every_call_sound [OF assms(4) assms(1), of _ lb] r assms(2,3) by (cases c; auto simp: sound_def call_handles_def)+
  have "load (f_mem s') q k \<noteq> None" if "load (put_all ls Map.empty) q k \<noteq> None" for q k
    using that sound(1) dom_put_mono [of ls "f_mem (p_ffi p)"] unfolding load_mapped by auto
  with calls [OF run assms(4) env r] sound(2) p
  show "started n lb iss isq hs (p\<lparr>p_ffi := s'\<rparr>) \<and> (\<exists>x. Goes st = Goes x) \<and>
      (\<forall>q k. load (put_all ls Map.empty) q k \<noteq> None \<longrightarrow> load (f_mem (p_ffi (p\<lparr>p_ffi := s'\<rparr>))) q k \<noteq> None)"
    by (simp add: started_def)
qed (use assms in auto)

text \<open>Steps of a start-up that go on, exit or panic with the process still in order.\<close>

lemma sure_step:
  assumes "sure P m (\<lambda>r p. R p \<and> (\<forall>x. r = Goes x \<longrightarrow> S x p))" and "\<And>x. sure (\<lambda>p. R p \<and> S x p) (f x) (\<lambda>r p. R p \<and> T r p)"
    and "\<And>p. R p \<Longrightarrow> T Panics p" and "\<And>c p. R p \<Longrightarrow> T (Exits c) p"
  shows "sure P (act_bind m f) (\<lambda>r p. R p \<and> T r p)"
  by (rule sure_bind [OF assms(1)]) (use assms in \<open>auto intro: sure_pre\<close>)

lemma mapped_local:
  assumes "apart (spans ls)" and "(p, bs) \<in> set ls" and "length bs = k"
  shows "mapped (put_all ls m) p k" and "aligned 8 p \<Longrightarrow> mapped_typed (put_all ls m) p k"
    and "load (put_all ls m) p k = Some bs" and "p \<noteq> 0"
proof -
  have "(p, length bs) \<in> set (spans ls)" using assms(2) by force
  then show "p \<noteq> 0" by (rule apart_nonnull [OF _ assms(1)])
  show "mapped (put_all ls m) p k" "aligned 8 p \<Longrightarrow> mapped_typed (put_all ls m) p k" "load (put_all ls m) p k = Some bs"
    using load_put_all [OF assms(2,1), of m] assms(3) by (simp_all add: mapped_def mapped_typed_def del: load.simps)
qed

lemma sure_key_of_seed:
  assumes "keys_sized (n_crypto n)" and "length seed = 32" and "apart [(seed_at, 32), (key_at, 32)]"
  shows "sure (started n lb iss isq hs) (key_of_seed n lb seed_at key_at seed)
    (\<lambda>r p. started n lb iss isq hs p \<and> (\<forall>k. r = Goes k \<longrightarrow> length k = 32))"
proof -
  let ?ls = "[(seed_at, seed), (key_at, replicate 32 0)]"
  have a: "apart (spans ?ls)" using assms(2,3) by simp
  have c: "contract (n_endian n) (Key_from_seed seed_at key_at) (s\<lparr>f_mem := put_all ?ls (f_mem s)\<rparr>)" for s :: "'a ffi"
    using mapped_local(1) [OF a, of seed_at seed 32 "f_mem s"] mapped_local(1) [OF a, of key_at "replicate 32 0" 32 "f_mem s"]
      assms(2) by (simp del: put_all.simps)
  have at: "load (put_all ?ls Map.empty) key_at 32 \<noteq> None"
    using mapped_local(3) [OF a, of key_at "replicate 32 0" 32 Map.empty] by (simp del: put_all.simps load.simps)
  show ?thesis
    unfolding key_of_seed_def
  proof (rule sure_bind [OF sure_free_call [OF assms(1) _ _ c]])
    fix st
    let ?R = "\<lambda>p. started n lb iss isq hs p \<and> load (f_mem (p_ffi p)) key_at 32 \<noteq> None"
    have "sure ?R (act_bind (act_assert (st = LP2P_OK)) (\<lambda>_. act_load key_at 32))
        (\<lambda>r p. started n lb iss isq hs p \<and> (\<forall>k. r = Goes k \<longrightarrow> length k = 32))"
      by (rule sure_bind [where R = "\<lambda>r p. ?R p \<and> (\<forall>c. r \<noteq> Exits c)"])
        (auto intro!: sure_assert sure_load dest: length_load simp del: load.simps)
    then show "sure (\<lambda>p. started n lb iss isq hs p \<and> (\<exists>x. Goes st = Goes x) \<and>
          (\<forall>q k. load (put_all ?ls Map.empty) q k \<noteq> None \<longrightarrow> load (f_mem (p_ffi p)) q k \<noteq> None))
        (act_bind (act_assert (st = LP2P_OK)) (\<lambda>_. act_load key_at 32))
        (\<lambda>r p. started n lb iss isq hs p \<and> (\<forall>k. r = Goes k \<longrightarrow> length k = 32))"
      by (rule sure_pre) (use at in blast)
  qed auto
qed

section \<open>How a start-up ends\<close>

text \<open>
  \<open>comes_to n lb iss isq ok\<close>: however the start-up came to its end, the process is that of a program that kept the contracts, and if it goes on,
  \<open>ok\<close> holds.
\<close>

definition comes_to ::
  "'sw net \<Rightarrow> libs \<Rightarrow> ('sw \<Rightarrow> request_id set) \<Rightarrow> ('sw \<Rightarrow> query_id set) \<Rightarrow> ('a \<Rightarrow> 'sw process \<Rightarrow> bool) \<Rightarrow> 'a fate \<Rightarrow> 'sw process \<Rightarrow> bool" where
  "comes_to n lb iss isq ok r p \<longleftrightarrow> c_run n lb iss isq (p_ffi p) \<and> (\<forall>x. r = Goes x \<longrightarrow> ok x p)"

lemma comes_to_stops:
  "started n lb iss isq hs p \<Longrightarrow> comes_to n lb iss isq ok Panics p" "started n lb iss isq hs p \<Longrightarrow> comes_to n lb iss isq ok (Exits c) p"
  by (simp_all add: comes_to_def started_def)

lemma start_key:
  assumes "keys_sized (n_crypto n)" and "length seed = 32" and "apart [(seed_at, 32), (key_at, 32)]"
    and "\<And>k. length k = 32 \<Longrightarrow> sure (started n lb iss isq hs) (f k) (comes_to n lb iss isq ok)"
  shows "sure (started n lb iss isq hs) (act_bind (key_of_seed n lb seed_at key_at seed) f) (comes_to n lb iss isq ok)"
proof (rule sure_bind [OF sure_key_of_seed [OF assms(1-3)]])
  fix k
  show "sure (\<lambda>p. started n lb iss isq hs p \<and> (\<forall>k'. Goes k = Goes k' \<longrightarrow> length k' = 32)) (f k) (comes_to n lb iss isq ok)"
    using assms(4) [of k] by (auto simp: sure_def)
qed (auto intro: comes_to_stops)

lemma start_unwrap:
  "(\<And>x. r = Some x \<Longrightarrow> sure (started n lb iss isq hs) (f x) (comes_to n lb iss isq ok)) \<Longrightarrow>
   sure (started n lb iss isq hs) (act_bind (act_unwrap r) f) (comes_to n lb iss isq ok)"
  by (cases r) (auto simp: sure_def act_bind_def act_unwrap_def act_panic_def act_return_def intro: comes_to_stops)

text \<open>A call whose result the code checks before it uses what the call wrote.\<close>

lemma start_sign:
  assumes "keys_sized (n_crypto n)" and "length seed = 32" and "length key = 32"
    and "apart [(seed_at, 32), (key_at, 32), (out, LP2P_DELEGATION_BYTES)]"
    and "\<And>d. length d = LP2P_DELEGATION_BYTES \<Longrightarrow> sure (started n lb iss isq hs) (f d) (comes_to n lb iss isq ok)"
  shows "sure (started n lb iss isq hs)
    (act_bind (act_call n lb [(seed_at, seed), (key_at, key), (out, replicate LP2P_DELEGATION_BYTES 0)]
       (Delegation_sign seed_at key_at expires_ms out)) (\<lambda>status.
     act_bind (act_assert (status = LP2P_OK)) (\<lambda>_. act_bind (act_load out LP2P_DELEGATION_BYTES) f)))
    (comes_to n lb iss isq ok)"
proof -
  let ?ls = "[(seed_at, seed), (key_at, key), (out, replicate LP2P_DELEGATION_BYTES 0)]"
  have a: "apart (spans ?ls)" using assms(2-4) by simp
  note local = mapped_local [OF a]
  have c: "contract (n_endian n) (Delegation_sign seed_at key_at expires_ms out) (s\<lparr>f_mem := put_all ?ls (f_mem s)\<rparr>)" for s :: "'a ffi"
    using local(1) [of seed_at seed 32 "f_mem s"] local(1) [of key_at key 32 "f_mem s"]
      local(1) [of out "replicate LP2P_DELEGATION_BYTES 0" LP2P_DELEGATION_BYTES "f_mem s"]
      assms(2,3) by (simp del: put_all.simps)
  have at: "load (put_all ?ls Map.empty) out LP2P_DELEGATION_BYTES \<noteq> None"
    using local(3) [of out "replicate LP2P_DELEGATION_BYTES 0" LP2P_DELEGATION_BYTES Map.empty] by (simp del: put_all.simps load.simps)
  show ?thesis
  proof (rule sure_bind [OF sure_free_call [OF assms(1) _ _ c]])
    fix st
    let ?R = "\<lambda>p. started n lb iss isq hs p \<and> load (f_mem (p_ffi p)) out LP2P_DELEGATION_BYTES \<noteq> None"
    have "sure ?R (act_bind (act_load out LP2P_DELEGATION_BYTES) f) (comes_to n lb iss isq ok)"
      using assms(5) by (auto simp: sure_def act_bind_def act_load_def dest: length_load simp del: load.simps split: option.split)
    then have "sure ?R (act_bind (act_assert (st = LP2P_OK)) (\<lambda>_. act_bind (act_load out LP2P_DELEGATION_BYTES) f)) (comes_to n lb iss isq ok)"
      by (auto simp: sure_def act_bind_def act_assert_def act_return_def act_panic_def intro: comes_to_stops)
    then show "sure (\<lambda>p. started n lb iss isq hs p \<and> (\<exists>x. Goes st = Goes x) \<and>
          (\<forall>q k. load (put_all ?ls Map.empty) q k \<noteq> None \<longrightarrow> load (f_mem (p_ffi p)) q k \<noteq> None))
        (act_bind (act_assert (st = LP2P_OK)) (\<lambda>_. act_bind (act_load out LP2P_DELEGATION_BYTES) f)) (comes_to n lb iss isq ok)"
      by (rule sure_pre) (use at in blast)
  qed auto
qed

lemma start_options:
  assumes "keys_sized (n_crypto n)" and "opt_at \<noteq> 0" and "aligned 8 opt_at"
    and "sure (started n lb iss isq hs) (f (options_bytes (n_endian n) default_options)) (comes_to n lb iss isq ok)"
  shows "sure (started n lb iss isq hs)
    (act_bind (act_call n lb [(opt_at, replicate 272 0)] (Options_default opt_at)) (\<lambda>_. act_bind (act_load opt_at 272) f))
    (comes_to n lb iss isq ok)"
proof -
  let ?ls = "[(opt_at, replicate 272 0)]" and ?bs = "options_bytes (n_endian n) default_options"
  have a: "apart (spans ?ls)" using assms(2) by simp
  have c: "contract (n_endian n) (Options_default opt_at) (s\<lparr>f_mem := put_all ?ls (f_mem s)\<rparr>)" for s :: "'a ffi"
    using mapped_local(2) [OF a, of opt_at "replicate 272 0" 272 "f_mem s"] assms(3) by (simp del: put_all.simps)
  have len: "length ?bs = 272" by (rule length_options_bytes [OF default_options_wf])
  have "sure (started n lb iss isq hs) (act_call n lb ?ls (Options_default opt_at))
      (\<lambda>r p. started n lb iss isq hs p \<and> (\<exists>st. r = Goes st) \<and> load (f_mem (p_ffi p)) opt_at 272 = Some ?bs)"
  proof -
    have "load (f_mem s') opt_at 272 = Some ?bs" if "run_call n lb (Options_default opt_at) s = Return (st, s')" for s s' st
      using that assms(2,3) load_store [of _ opt_at ?bs] len
      by (auto simp: lp2p_options_default_def write_typed_def write_out_def simp del: load.simps store.simps split: option.splits)
    then have "load (f_mem (p_ffi p')) opt_at 272 = Some ?bs" if "act_call n lb ?ls (Options_default opt_at) p = Return (r, p')" for p r p'
      using that by (auto simp: act_call_def simp del: load.simps put_all.simps run_call.simps split: outcome.splits)
    moreover have "sure (started n lb iss isq hs) (act_call n lb ?ls (Options_default opt_at))
        (\<lambda>r p. started n lb iss isq hs p \<and> (\<exists>st. r = Goes st) \<and>
          (\<forall>q k. load (put_all ?ls Map.empty) q k \<noteq> None \<longrightarrow> load (f_mem (p_ffi p)) q k \<noteq> None))"
      by (rule sure_free_call [OF assms(1) _ _ c]) simp_all
    ultimately show ?thesis unfolding sure_def by blast
  qed
  then show ?thesis
  proof (rule sure_bind)
    fix st
    show "sure (\<lambda>p. started n lb iss isq hs p \<and> (\<exists>st'. Goes st = Goes st') \<and> load (f_mem (p_ffi p)) opt_at 272 = Some ?bs)
        (act_bind (act_load opt_at 272) f) (comes_to n lb iss isq ok)"
      using assms(4) by (auto simp: sure_def act_bind_def act_load_def simp del: load.simps)
  qed auto
qed

section \<open>The call of lp2p_start\<close>

lemma start_ok_from:
  assumes "load m opt_at 272 = Some (options_bytes e opt)" and "options_wf opt" and "struct_size opt = 272"
    and "options_ok e m opt" and "mapped_typed m out 8"
  shows "start_ok e m opt_at out"
proof -
  have len: "length (options_bytes e opt) = 272" by (rule length_options_bytes [OF assms(2)])
  have "rd32 e 0 (take 4 (options_bytes e opt)) = 272"
    using assms(3) by (simp add: rd32_def options_bytes_def layout_simps)
  moreover have "options_from e (options_bytes e opt) = opt"
    using length_options_bytes [OF default_options_wf, of e] len by (simp add: options_from_def options_read_back assms(2))
  ultimately show ?thesis
    using assms(4,5) load_prefix [OF assms(1), of 4] assms(1) by (simp add: start_ok_def LP2P_OPTIONS_SIZE_def del: load.simps)
qed

lemma str_ok_local:
  assumes "apart (spans ls)" and "(p, s @ [0]) \<in> set ls" and "0 \<notin> set s"
  shows "str_ok (put_all ls m) p"
  using cstr_terminates [OF _ assms(3), of "put_all ls m" p] mapped_local(3) [OF assms(1,2) refl]
  by (simp add: str_ok_def del: load.simps)

lemma strs_ok_local:
  assumes "aligned 8 p" and "load m p (8 * length ps) = Some (concat (map (ne_bytes e 8) ps))"
    and "list_all (\<lambda>q. q < 2 ^ 64 \<and> str_ok m q) ps"
  shows "strs_ok e m p (length ps)"
proof -
  have "ptrs_of e (length ps) (concat (map (ne_bytes e 8) ps)) = ps" if "list_all (\<lambda>q. q < 2 ^ 64) ps" for ps :: "nat list"
    using that
  proof (induction ps)
    case (Cons q ps)
    let ?rest = "concat (map (ne_bytes e 8) ps)"
    have "ptrs_of e (Suc k) bs = rdsize e 0 bs # map (\<lambda>i. rdsize e (8 * Suc i) bs) [0..<k]" for k bs
      unfolding ptrs_of_def by (simp add: upt_conv_Cons map_Suc_upt [symmetric] del: upt_Suc)
    moreover have "map (\<lambda>i. rdsize e (8 * Suc i) (ne_bytes e 8 q @ ?rest)) [0..<length ps] = ptrs_of e (length ps) ?rest"
      by (simp add: ptrs_of_def rdsize_def slice_append_right)
    moreover have "rdsize e 0 (ne_bytes e 8 q @ ?rest) = q"
      using Cons.prems by (simp add: rdsize_def layout_simps)
    ultimately show ?case using Cons by simp
  qed (simp add: ptrs_of_def)
  moreover have "list_all (\<lambda>q. q < 2 ^ 64) ps" "list_all (str_ok m) ps" using assms(3) by (auto simp: list_all_iff)
  ultimately show ?thesis using assms(1,2) by (simp add: strs_ok_def del: load.simps)
qed

lemma start_status: "start n config ms b evs = Inl e \<Longrightarrow> (\<And>e'. b = Inl e' \<Longrightarrow> e' \<noteq> LP2P_OK) \<Longrightarrow> e \<noteq> LP2P_OK"
  by (auto simp: start_def run_thread_start_def Let_def status_defs split: option.splits sum.splits prod.splits)

lemma start_result:
  assumes "lp2p_start n lb opt out box ms built evs s = Return (LP2P_OK, s')" and "\<forall>config e. built config = Inl e \<longrightarrow> e \<noteq> LP2P_OK"
  shows "(\<exists>config w. f_handles s' box = Some (lp2p_of config w) \<and> start n config ms (built config) evs = Inr w) \<and>
    load (f_mem s') out 8 = Some (ne_bytes (n_endian n) 8 box)"
proof -
  have bad: "LP2P_ERR_INVALID_ARGUMENT \<noteq> LP2P_OK" by (simp add: status_defs)
  obtain given where "attempt s (config_from (n_endian n) lb (f_mem s) (options_from (n_endian n) given)) (\<lambda>config.
      case start n config ms (built config) evs of
        Inl e \<Rightarrow> Return (e, s)
      | Inr w \<Rightarrow> write_typed out (ne_bytes (n_endian n) 8 box)
          (LP2P_OK, s\<lparr>f_handles := (f_handles s)(box \<mapsto> lp2p_of config w)\<rparr>)) = Return (LP2P_OK, s')"
    using assms(1) bad unfolding lp2p_start_def Let_def by (auto simp del: load.simps split: if_splits option.splits)
  then obtain config where "(case start n config ms (built config) evs of
        Inl e \<Rightarrow> Return (e, s)
      | Inr w \<Rightarrow> write_typed out (ne_bytes (n_endian n) 8 box)
          (LP2P_OK, s\<lparr>f_handles := (f_handles s)(box \<mapsto> lp2p_of config w)\<rparr>)) = Return (LP2P_OK, s')"
    using only_invalid_config [of "n_endian n" lb "f_mem s" "options_from (n_endian n) given"] bad
    by (auto simp: attempt_def only_invalid_def split: option.splits sum.splits)
  then obtain w where st: "start n config ms (built config) evs = Inr w" and w: "write_typed out (ne_bytes (n_endian n) 8 box)
      (LP2P_OK, s\<lparr>f_handles := (f_handles s)(box \<mapsto> lp2p_of config w)\<rparr>) = Return (LP2P_OK, s')"
    using start_status [of n config ms "built config" evs] assms(2) by (auto split: sum.splits)
  show ?thesis
    using st w load_store [of _ out "ne_bytes (n_endian n) 8 box"]
    by (intro conjI exI [of _ config] exI [of _ w])
      (auto simp: write_typed_def write_out_def simp del: load.simps store.simps split: if_splits option.splits)
qed

text \<open>A handle as \<open>lp2p_start\<close> leaves it.\<close>

definition just_started :: "'sw net \<Rightarrow> ('sw \<Rightarrow> request_id set) \<Rightarrow> ('sw \<Rightarrow> query_id set) \<Rightarrow> nat \<Rightarrow> 'sw lp2p \<Rightarrow> bool" where
  "just_started n iss isq k h \<longleftrightarrow> (\<exists>config ms b evs w. h = lp2p_of config w \<and> start n config ms b evs = Inr w \<and>
     list_all (\<lambda>ev. grows iss isq (fst ev)) evs \<and> length evs = k)"

lemma just_startedI:
  "start n config ms b evs = Inr w \<Longrightarrow> list_all (\<lambda>ev. grows iss isq (fst ev)) evs \<Longrightarrow> just_started n iss isq (length evs) (lp2p_of config w)"
  unfolding just_started_def by blast

lemma sure_start:
  assumes "keys_sized (n_crypto n)" and "hs box = None" and "box \<noteq> 0" and "list_all (\<lambda>ev. grows iss isq (fst ev)) evs"
    and "\<forall>config e. built config = Inl e \<longrightarrow> e \<noteq> LP2P_OK" and "\<And>m. start_ok (n_endian n) (put_all ls m) opt out"
  shows "sure (started n lb iss isq hs) (act_call n lb ls (Start_call opt out box ms built evs))
    (\<lambda>r p. c_run n lb iss isq (p_ffi p) \<and> (\<exists>st. r = Goes st) \<and> (r = Goes LP2P_OK \<longrightarrow>
       (\<exists>h. f_handles (p_ffi p) box = Some h \<and> just_started n iss isq (length evs) h) \<and>
       load (f_mem (p_ffi p)) out 8 = Some (ne_bytes (n_endian n) 8 box)))"
proof (rule sure_call)
  fix p :: "'a process" and st s'
  let ?s = "(p_ffi p)\<lparr>f_mem := put_all ls (f_mem (p_ffi p))\<rparr>" and ?c = "Start_call opt out box ms built evs"
  assume p: "started n lb iss isq hs p" and r: "run_call n lb ?c ?s = Return (st, s')"
  have run: "c_run n lb iss isq ?s" using p by (auto simp: started_def intro: computes)
  have c: "contract (n_endian n) ?c ?s" using assms(2,3,6) p by (simp add: started_def)
  have env: "call_env_ok n iss isq ?c ?s" using assms(2,4) p by (simp add: call_env_ok_def started_def)
  have "(\<exists>h. f_handles s' box = Some h \<and> just_started n iss isq (length evs) h) \<and>
      load (f_mem s') out 8 = Some (ne_bytes (n_endian n) 8 box)" if "st = LP2P_OK"
    using start_result [of n lb opt out box ms built evs ?s s'] r assms(5) that just_startedI [OF _ assms(4)] by auto
  with calls [OF run c env r]
  show "c_run n lb iss isq (p_ffi (p\<lparr>p_ffi := s'\<rparr>)) \<and> (\<exists>x. Goes st = Goes x) \<and> (Goes st = Goes LP2P_OK \<longrightarrow>
      (\<exists>h. f_handles (p_ffi (p\<lparr>p_ffi := s'\<rparr>)) box = Some h \<and> just_started n iss isq (length evs) h) \<and> load (f_mem (p_ffi (p\<lparr>p_ffi := s'\<rparr>))) out 8 = Some (ne_bytes (n_endian n) 8 box))"
    by simp
qed (use assms in \<open>auto simp: started_def\<close>)

section \<open>The options in place\<close>

text \<open>Where \<open>main\<close> may keep its locals; the two sizes are those of the listen address and the DHT protocol with their NULs.\<close>

definition main_layout :: "main_locals \<Rightarrow> nat \<Rightarrow> nat \<Rightarrow> bool" where
  "main_layout L listen dht \<longleftrightarrow>
     apart [(m_seed L, 32), (m_group_seed L, 32), (m_key L, 32), (m_group L, 32), (m_delegation L, LP2P_DELEGATION_BYTES),
       (m_listen L, listen), (m_listen_list L, 8), (m_dht L, dht), (m_echo L, 18), (m_other L, 17), (m_protocol_list L, 16),
       (m_options L, 272), (m_raw L, 8)] \<and>
     list_all (aligned 8) [m_listen_list L, m_protocol_list L, m_options L, m_raw L] \<and>
     list_all (\<lambda>p. p < 2 ^ 64) [m_delegation L, m_listen L, m_listen_list L, m_dht L, m_echo L, m_other L, m_protocol_list L]"

lemma apart_smaller: "list_all2 (\<lambda>(p, j) (q, k). p = q \<and> j \<le> k) rs' rs \<Longrightarrow> apart rs \<Longrightarrow> apart rs'"
proof (induction rs' rs rule: list_all2_induct)
  case (Cons r' rs' r rs)
  obtain p j k where r: "r' = (p, j)" "r = (p, k)" "j \<le> k" using Cons.hyps(1) by (cases r'; cases r) auto
  have "\<exists>l. (q, l) \<in> set rs \<and> i \<le> l" if "(q, i) \<in> set rs'" for q i
    using Cons.hyps(2) that by (fastforce simp: list_all2_conv_all_nth in_set_conv_nth)
  then have "p + j \<le> q \<or> q + i \<le> p" if "(q, i) \<in> set rs'" for q i
    using Cons.prems r that by (fastforce simp: list_all_iff)
  with Cons r show ?case by (auto simp: list_all_iff)
qed simp

lemma main_layout_apart:
  assumes "main_layout L listen dht"
  shows "apart [(m_delegation L, LP2P_DELEGATION_BYTES), (m_listen L, listen), (m_listen_list L, 8), (m_dht L, dht), (m_echo L, 18),
      (m_other L, 17), (m_protocol_list L, 16), (m_options L, 272), (m_raw L, 8)]"
    and "apart [(m_delegation L, LP2P_DELEGATION_BYTES), (m_listen L, listen), (m_listen_list L, 8), (m_dht L, dht), (m_echo L, 18),
      (m_protocol_list L, 16), (m_options L, 272), (m_raw L, 8)]"
    and "apart [(m_seed L, 32), (m_key L, 32)]" and "apart [(m_group_seed L, 32), (m_group L, 32)]"
    and "apart [(m_group_seed L, 32), (m_key L, 32), (m_delegation L, LP2P_DELEGATION_BYTES)]"
    and "m_options L \<noteq> 0" and "aligned 8 (m_options L)" and "m_raw L \<noteq> 0"
  using assms unfolding main_layout_def by simp_all

lemma options_in_place:
  assumes "apart (spans ls)" and "list_all (aligned 8) [m_listen_list L, m_protocol_list L, m_options L, m_raw L]"
    and "(m_delegation L, deleg) \<in> set ls" and "length deleg = LP2P_DELEGATION_BYTES"
    and "(m_listen L, listen @ [0]) \<in> set ls" and "0 \<notin> set listen" and "m_listen L < 2 ^ 64"
    and "(m_listen_list L, ne_bytes e 8 (m_listen L)) \<in> set ls"
    and "(m_dht L, dht @ [0]) \<in> set ls" and "0 \<notin> set dht"
    and "(m_protocol_list L, concat (map (ne_bytes e 8) ps)) \<in> set ls"
    and "\<And>q. q \<in> set ps \<Longrightarrow> q < 2 ^ 64 \<and> (\<exists>name. (q, name @ [0]) \<in> set ls \<and> 0 \<notin> set name)"
    and "(m_options L, options_bytes e opt) \<in> set ls" and "(m_raw L, ne_bytes e 8 0) \<in> set ls"
    and "options_wf opt" and "struct_size opt = 272" and "unat (o_delegation opt) = m_delegation L"
    and "o_delegation_len opt = LP2P_DELEGATION_BYTES" and "unat (listen_addrs opt) = m_listen_list L" and "listen_addr_count opt = 1"
    and "unat (o_dht_protocol opt) = m_dht L" and "unat (o_rpc_protocols opt) = m_protocol_list L"
    and "o_rpc_protocol_count opt = length ps" and "ao_topic (o_announce opt) = 0"
  shows "start_ok e (put_all ls m) (m_options L) (m_raw L)"
proof -
  note local = mapped_local [OF assms(1)] and str = str_ok_local [OF assms(1)]
  let ?m = "put_all ls m"
  have "strs_ok e ?m (m_listen_list L) (length [m_listen L])"
    using assms(2,7) local(3) [OF assms(8), of 8 m] str [OF assms(5,6), of m]
    by (intro strs_ok_local) (simp_all del: load.simps)
  moreover have "length (concat (map (ne_bytes e 8) ps)) = 8 * length ps" by (induction ps) simp_all
  then have "strs_ok e ?m (m_protocol_list L) (length ps)"
    using assms(2,12) local(3) [OF assms(11), of "8 * length ps" m] str
    by (intro strs_ok_local) (auto simp: list_all_iff simp del: load.simps)
  ultimately have "options_ok e ?m opt"
    unfolding options_ok_def using assms(17-24) local(1) [OF assms(3,4), of m] str [OF assms(9,10), of m]
    by (simp add: str_ok_def [of _ 0])
  then show ?thesis
    using local(3) [OF assms(13) length_options_bytes [OF assms(15)], of m] local(2) [OF assms(14), of 8 m] assms(2,15,16)
    by (intro start_ok_from) simp_all
qed


section \<open>The two programs\<close>

lemma cstring_text: "cstring_new s = Some t \<Longrightarrow> t = s @ [0] \<and> 0 \<notin> set s"
  by (auto simp: cstring_new_def split: if_splits)

lemma ptr_word: "p < 2 ^ 64 \<Longrightarrow> unat (word_of_nat p :: u64) = p"
  by (simp add: unat_of_nat take_bit_eq_mod)

lemma default_fields:
  "struct_size default_options = 272" "ao_topic (o_announce default_options) = 0" "options_wf default_options"
  "options_of_bytes e (options_bytes e default_options) = default_options"
  by (simp_all add: default_options_wf options_read_back) (simp_all add: default_options_def LP2P_OPTIONS_SIZE_def)

lemma protocol_texts:
  "length (PROTOCOLS ! 0) = 15" "length (PROTOCOLS ! 1) = 16" "0 \<notin> set (PROTOCOLS ! 0)" "0 \<notin> set (PROTOCOLS ! 1)"
  "length HP_PROTOCOL = 17" "0 \<notin> set HP_PROTOCOL" "length PROTOCOLS = 2"
  by (simp_all add: PROTOCOLS_def HP_PROTOCOL_def ascii_def)

lemma interop_in_place:
  assumes "main_layout L (length listen + 1) (length dht + 1)" and "length deleg = LP2P_DELEGATION_BYTES"
    and "length seed = 32" and "length grp = 32" and "0 \<notin> set listen" and "0 \<notin> set dht"
  shows "start_ok e (put_all (interop_locals e L deleg (listen @ [0]) (dht @ [0]) (interop_options env L seed grp default_options)) m)
    (m_options L) (m_raw L)"
proof -
  let ?opt = "interop_options env L seed grp default_options"
  let ?ls = "interop_locals e L deleg (listen @ [0]) (dht @ [0]) ?opt"
  have wf: "options_wf ?opt"
    using default_fields(3) assms(3,4) protocol_texts(7) by (simp add: options_wf_def interop_options_def LP2P_DELEGATION_BYTES_def)
  have a: "apart (spans ?ls)"
    by (rule apart_smaller [OF _ main_layout_apart(1) [OF assms(1)]])
      (use assms(2) length_options_bytes [OF wf, of e] protocol_texts in \<open>simp add: interop_locals_def\<close>)
  have p: "\<exists>name. (q, name @ [0]) \<in> set ?ls \<and> 0 \<notin> set name" if "q \<in> set [m_echo L, m_other L]" for q
    using that protocol_texts by (auto simp: interop_locals_def)
  show ?thesis
    by (rule options_in_place [OF a, where ps = "[m_echo L, m_other L]" and listen = listen and dht = dht and deleg = deleg and opt = ?opt])
      (use assms wf p default_fields protocol_texts in \<open>auto simp: main_layout_def interop_options_def ptr_word interop_locals_def\<close>)
qed

lemma hp_in_place:
  assumes "main_layout L (length listen + 1) (length dht + 1)" and "length deleg = LP2P_DELEGATION_BYTES"
    and "length seed = 32" and "length grp = 32" and "0 \<notin> set listen" and "0 \<notin> set dht"
  shows "start_ok e (put_all (hp_start_locals e L deleg (listen @ [0]) (dht @ [0])
      (hp_options L seed grp reach transport autonat default_options)) m) (m_options L) (m_raw L)"
proof -
  let ?opt = "hp_options L seed grp reach transport autonat default_options"
  let ?ls = "hp_start_locals e L deleg (listen @ [0]) (dht @ [0]) ?opt"
  have wf: "options_wf ?opt"
    using default_fields(3) assms(3,4) by (simp add: options_wf_def hp_options_def LP2P_DELEGATION_BYTES_def)
  have a: "apart (spans ?ls)"
    by (rule apart_smaller [OF _ main_layout_apart(2) [OF assms(1)]])
      (use assms(2) length_options_bytes [OF wf, of e] protocol_texts in \<open>simp add: hp_start_locals_def\<close>)
  have p: "\<exists>name. (q, name @ [0]) \<in> set ?ls \<and> 0 \<notin> set name" if "q \<in> set [m_echo L]" for q
    using that protocol_texts by (auto simp: hp_start_locals_def)
  show ?thesis
    by (rule options_in_place [OF a, where ps = "[m_echo L]" and listen = listen and dht = dht and deleg = deleg and opt = ?opt])
      (use assms wf p default_fields in \<open>auto simp: main_layout_def hp_options_def ptr_word hp_start_locals_def\<close>)
qed


text \<open>The node a program goes on with is the one that was started, and it lives.\<close>

definition has_node ::
  "'sw net \<Rightarrow> ('sw \<Rightarrow> request_id set) \<Rightarrow> ('sw \<Rightarrow> query_id set) \<Rightarrow> nat \<Rightarrow> ptr \<Rightarrow> ptr \<Rightarrow> 'sw process \<Rightarrow> bool" where
  "has_node n iss isq k box node p \<longleftrightarrow> node = box \<and> (\<exists>h. f_handles (p_ffi p) box = Some h \<and> just_started n iss isq k h)"

lemma rdsize_ptr: "p < 2 ^ 64 \<Longrightarrow> rdsize e 0 (ne_bytes e 8 p) = p"
  by (simp add: rdsize_def layout_simps)

lemma interop_starts:
  assumes "keys_sized (n_crypto n)" and "hs box = None" and "box \<noteq> 0" and "box < 2 ^ 64"
    and "list_all (\<lambda>ev. grows iss isq (fst ev)) evs" and "\<forall>config e. built config = Inl e \<longrightarrow> e \<noteq> LP2P_OK"
    and "main_layout L (length (or_text (env (ascii ''LISTEN'')) ''/ip4/127.0.0.1/tcp/0'') + 1)
      (length (or_text (env (ascii ''DHT_PROTOCOL'')) ''/interop/kad/1'') + 1)"
  shows "sure (started n lb iss isq hs) (interop_start n lb show_peer env L box ms built evs) (comes_to n lb iss isq (has_node n iss isq (length evs) box))"
  unfolding interop_start_def Let_def
proof (intro start_key start_sign start_options start_unwrap assms(1) main_layout_apart(3-7) [OF assms(7)], goal_cases)
  case (5 key grp deleg listen dht)
  let ?e = "n_endian n" and ?opt = "interop_options env L (replicate 32 (byte_env env (ascii ''SEED'') 7)) grp default_options"
  have start_ok: "start_ok ?e (put_all (interop_locals ?e L deleg listen dht ?opt) m) (m_options L) (m_raw L)" for m
    using interop_in_place [OF assms(7) 5(3) _ 5(2)] cstring_text [OF 5(4)] cstring_text [OF 5(5)] by simp
  show ?case
    unfolding default_fields(4)
  proof (rule sure_bind [OF sure_start [where ls = "interop_locals ?e L deleg listen dht ?opt" and hs = hs and built = built and box = box and evs = evs,
        OF assms(1-3,5,6) start_ok]])
    fix st
    show "sure (\<lambda>p. c_run n lb iss isq (p_ffi p) \<and> (\<exists>st'. Goes st = Goes st') \<and> (Goes st = Goes LP2P_OK \<longrightarrow>
         (\<exists>h. f_handles (p_ffi p) box = Some h \<and> just_started n iss isq (length evs) h) \<and> load (f_mem (p_ffi p)) (m_raw L) 8 = Some (ne_bytes ?e 8 box)))
       (if st \<noteq> LP2P_OK then act_bind (act_say (ascii ''ERROR '' @ show_int st)) (\<lambda>_. act_exit 1)
        else act_bind (act_load (m_raw L) 8) (\<lambda>raw. act_bind (act_unwrap (peer_id (n_crypto n) key)) (\<lambda>peer.
          act_bind (act_say (ascii ''READY '' @ show_peer peer @ ascii '' '' @ hex key @ ascii '' '' @ hex grp)) (\<lambda>_.
            act_return (rdsize ?e 0 raw)))))
       (comes_to n lb iss isq (has_node n iss isq (length evs) box))"
      using assms(4)
      by (auto simp: sure_def comes_to_def has_node_def act_bind_def act_say_def act_exit_def act_load_def act_unwrap_def act_panic_def
          act_return_def rdsize_ptr simp del: load.simps split: option.split)
  qed (auto simp: comes_to_def)
qed simp_all

lemma hp_starts:
  assumes "keys_sized (n_crypto n)" and "hs box = None" and "box \<noteq> 0" and "box < 2 ^ 64"
    and "list_all (\<lambda>ev. grows iss isq (fst ev)) evs" and "\<forall>config e. built config = Inl e \<longrightarrow> e \<noteq> LP2P_OK"
    and "main_layout L (length (hp_addresses transport (ascii ''0.0.0.0'')) + 1) 17" and "length seed = 32" and "length group_seed = 32"
  shows "sure (started n lb iss isq hs) (hp_start n lb L box ms built evs seed group_seed reach transport autonat)
    (comes_to n lb iss isq (\<lambda>(node, key) p. has_node n iss isq (length evs) box node p \<and> length key = 32))"
  unfolding hp_start_def Let_def
proof (intro start_key start_sign start_options start_unwrap assms(1,8,9) main_layout_apart(3-7) [OF assms(7)], goal_cases)
  case (2 key deleg listen dht grp)
  let ?e = "n_endian n" and ?opt = "hp_options L seed grp reach transport autonat default_options"
  have "length (ascii ''/holepunch/kad/1'') + 1 = 17" by (simp add: ascii_def)
  then have lay: "main_layout L (length (hp_addresses transport (ascii ''0.0.0.0'')) + 1) (length (ascii ''/holepunch/kad/1'') + 1)"
    using assms(7) by (simp only:)
  have start_ok: "start_ok ?e (put_all (hp_start_locals ?e L deleg listen dht ?opt) m) (m_options L) (m_raw L)" for m
    using hp_in_place [OF lay 2(2) assms(8) 2(5)] cstring_text [OF 2(3)] cstring_text [OF 2(4)] by simp
  show ?case
    unfolding default_fields(4)
  proof (rule sure_bind [OF sure_start [where ls = "hp_start_locals ?e L deleg listen dht ?opt" and hs = hs and built = built and box = box and evs = evs,
        OF assms(1-3,5,6) start_ok]])
    fix st
    show "sure (\<lambda>p. c_run n lb iss isq (p_ffi p) \<and> (\<exists>st'. Goes st = Goes st') \<and> (Goes st = Goes LP2P_OK \<longrightarrow>
         (\<exists>h. f_handles (p_ffi p) box = Some h \<and> just_started n iss isq (length evs) h) \<and> load (f_mem (p_ffi p)) (m_raw L) 8 = Some (ne_bytes ?e 8 box)))
       (act_bind (act_assert (st = LP2P_OK)) (\<lambda>_. act_bind (act_load (m_raw L) 8) (\<lambda>raw. act_return (rdsize ?e 0 raw, key))))
       (comes_to n lb iss isq (\<lambda>(node, key) p. has_node n iss isq (length evs) box node p \<and> length key = 32))"
      using assms(4) 2
      by (auto simp: sure_def comes_to_def has_node_def act_bind_def act_assert_def act_load_def act_panic_def
          act_return_def rdsize_ptr simp del: load.simps split: option.split)
  qed (auto simp: comes_to_def)
qed simp_all


text \<open>
  C6: Start-up of the interop peer. Whatever its environment says, up to the line \<open>READY\<close> the program meets the contract of every
  function it calls: no step is undefined. If it goes on, it holds the handle of the node that was started, and with its poll
  buffer allocated it is in the first state of its interleavings.
\<close>

theorem interop_starts_ready:
  assumes "keys_sized (n_crypto n)" and "c_run n lb iss isq (p_ffi p)" and "f_handles (p_ffi p) box = None" and "box \<noteq> 0" and "box < 2 ^ 64"
    and "list_all (\<lambda>ev. grows iss isq (fst ev)) evs" and "\<forall>config e. built config = Inl e \<longrightarrow> e \<noteq> LP2P_OK"
    and "main_layout L (length (or_text (env (ascii ''LISTEN'')) ''/ip4/127.0.0.1/tcp/0'') + 1)
      (length (or_text (env (ascii ''DHT_PROTOCOL'')) ''/interop/kad/1'') + 1)"
  shows "interop_start n lb show_peer env L box ms built evs p \<noteq> Undefined \<and>
    (\<forall>node p'. interop_start n lb show_peer env L box ms built evs p = Return (Goes node, p') \<longrightarrow>
       node = box \<and> interop_run n lb iss isq R buf answer_at node
         \<lparr>x_proc = p'\<lparr>p_ffi := (p_ffi p')\<lparr>f_mem := put_all [(buf, replicate POLL_BUFFER 0)] (f_mem (p_ffi p'))\<rparr>\<rparr>,
          x_main = At_poll, x_reader = Reading lines, x_over = None\<rparr>)"
proof -
  have start: "started n lb iss isq (f_handles (p_ffi p)) p" using assms(2) by (simp add: started_def)
  have "load (put_all [(buf, replicate POLL_BUFFER 0)] m) buf POLL_BUFFER \<noteq> None" for m
    using load_put_bytes [of buf "replicate POLL_BUFFER 0" m] by simp
  then have "interop_run n lb iss isq R buf answer_at box
      \<lparr>x_proc = p'\<lparr>p_ffi := (p_ffi p')\<lparr>f_mem := put_all [(buf, replicate POLL_BUFFER 0)] (f_mem (p_ffi p'))\<rparr>\<rparr>,
       x_main = At_poll, x_reader = Reading lines, x_over = None\<rparr>"
    if "c_run n lb iss isq (p_ffi p')" "f_handles (p_ffi p') box \<noteq> None" for p'
    using that by (intro ready) (simp_all add: computes del: put_all.simps load.simps)
  then show ?thesis
    using interop_starts [where hs = "f_handles (p_ffi p)" and built = built and env = env, OF assms(1,3-8)] start
    unfolding sure_def comes_to_def has_node_def by blast
qed

definition demo_main :: main_locals where
  "demo_main = \<lparr>m_seed = 32, m_group_seed = 64, m_key = 96, m_group = 128, m_delegation = 160, m_listen = 296, m_listen_list = 320,
     m_dht = 328, m_echo = 352, m_other = 376, m_protocol_list = 400, m_options = 416, m_raw = 688\<rparr>"

theorem interop_starts_ready_witness:
  "interop_start demo_net demo_libs mh_digest (\<lambda>_. None) demo_main 9000 0 (\<lambda>_. Inr 0) [] \<lparr>p_ffi = demo_blank, p_out = []\<rparr> \<noteq> Undefined"
proof -
  let ?p = "\<lparr>p_ffi = demo_blank, p_out = []\<rparr> :: nat process"
  have run: "c_run demo_net demo_libs demo_issued demo_issued (p_ffi ?p)" "f_handles (p_ffi ?p) 9000 = None"
    by (simp_all add: demo_blank_def begins)
  have lay: "main_layout demo_main (length (or_text None ''/ip4/127.0.0.1/tcp/0'') + 1) (length (or_text None ''/interop/kad/1'') + 1)"
    by (simp add: main_layout_def demo_main_def or_text_def ascii_def LP2P_DELEGATION_BYTES_def aligned_def)
  show ?thesis
    using interop_starts_ready [OF demo_keys_sized run, of "[]" "\<lambda>_. Inr 0" demo_main "\<lambda>_. None"] lay by simp
qed

end
