(* ===== verification/HolePunchProps.thy ===== *)
theory HolePunchProps
  imports HolePunch
begin

text \<open>
  What the hole-punching program promises: its exit code agrees with what it has printed, whatever the node and the clock do; its
  loops end once the clock has passed their deadline; and what a record that is larger than its buffer does to it.
\<close>

section \<open>Printed lines\<close>

text \<open>\<open>logs a R\<close>: however the code comes to an end, it has only added lines to the output, and \<open>R\<close> relates its fate to them.\<close>

definition logs :: "('a, 'sw) act \<Rightarrow> ('a fate \<Rightarrow> bytes list \<Rightarrow> bool) \<Rightarrow> bool" where
  "logs a R \<longleftrightarrow> (\<forall>p r p'. a p = Return (r, p') \<longrightarrow> (\<exists>ls. p_out p' = p_out p @ ls \<and> R r ls))"

lemma logs_return: "R (Goes x) [] \<Longrightarrow> logs (act_return x) R"
  by (simp add: logs_def act_return_def)

lemma logs_panic: "R Panics [] \<Longrightarrow> logs act_panic R"
  by (simp add: logs_def act_panic_def)

lemma logs_exit: "R (Exits c) [] \<Longrightarrow> logs (act_exit c) R"
  by (simp add: logs_def act_exit_def)

lemma logs_wait: "logs act_wait R"
  by (simp add: logs_def act_wait_def)

lemma logs_say: "R (Goes ()) [role @ ascii '': '' @ line] \<Longrightarrow> logs (hp_say role line) R"
  by (simp add: logs_def hp_say_def act_say_def)

lemma logs_bind:
  assumes "logs m R" and "\<And>x ls. R (Goes x) ls \<Longrightarrow> logs (f x) (\<lambda>r ls'. Q r (ls @ ls'))"
    and "\<And>ls. R Panics ls \<Longrightarrow> Q Panics ls" and "\<And>c ls. R (Exits c) ls \<Longrightarrow> Q (Exits c) ls"
  shows "logs (act_bind m f) Q"
  unfolding logs_def
proof (intro allI impI)
  fix p r p'
  assume r: "act_bind m f p = Return (r, p')"
  then obtain r1 p1 where m: "m p = Return (r1, p1)" by (auto simp: act_bind_def split: outcome.splits)
  then obtain ls where ls: "p_out p1 = p_out p @ ls" "R r1 ls" using assms(1) unfolding logs_def by blast
  show "\<exists>ls. p_out p' = p_out p @ ls \<and> Q r ls"
  proof (cases r1)
    case (Goes x)
    then have "f x p1 = Return (r, p')" using r m by (simp add: act_bind_def)
    with assms(2) [OF ls(2) [unfolded Goes]] ls(1) show ?thesis by (fastforce simp: logs_def)
  qed (use r m ls assms(3,4) in \<open>auto simp: act_bind_def\<close>)
qed

lemma logs_post: "logs a R \<Longrightarrow> (\<And>r ls. R r ls \<Longrightarrow> Q r ls) \<Longrightarrow> logs a Q"
  by (fastforce simp: logs_def)

text \<open>Code that prints nothing and does not exit.\<close>

definition silent :: "('a, 'sw) act \<Rightarrow> bool" where
  "silent a \<longleftrightarrow> logs a (\<lambda>r ls. ls = [] \<and> (\<forall>c. r \<noteq> Exits c))"

lemma silent_bind: "silent m \<Longrightarrow> (\<And>x. silent (f x)) \<Longrightarrow> silent (act_bind m f)"
  unfolding silent_def by (erule logs_bind) auto

lemma silent_basic [simp]: "silent (act_return x)" "silent act_panic" "silent act_wait"
  by (simp_all add: silent_def logs_return logs_panic logs_wait)

lemma silent_prims [simp]:
  "silent (act_call n lb ls c)" "silent (act_load q k)" "silent (act_turns n node ts)" "silent (act_assert b)" "silent (act_unwrap x)"
proof -
  show "silent (act_call n lb ls c)" by (auto simp: silent_def logs_def act_call_def split: outcome.splits)
  show "silent (act_load q k)" by (auto simp: silent_def logs_def act_load_def split: option.splits)
  show "silent (act_turns n node ts)" by (auto simp: silent_def logs_def act_turns_def split: option.splits)
  show "silent (act_assert b)" "silent (act_unwrap x)" by (simp_all add: act_assert_def act_unwrap_def split: option.split)
qed

lemma silent_round [simp]: "silent (hp_round n lb H node timeout_ms b)"
  unfolding hp_round_def hp_poll_def by (intro silent_bind) (simp_all split: option.split sum.split)

lemma silent_call [simp]: "silent (hp_call n lb H node grp key)"
  unfolding hp_call_def read_id_def by (intro silent_bind) simp_all

lemma logs_silent:
  assumes "silent m" and "\<And>x. logs (f x) Q" and "Q Panics []"
  shows "logs (act_bind m f) Q"
  by (rule logs_bind [OF assms(1) [unfolded silent_def]]) (use assms in auto)

text \<open>Every event with a line is printed before it counts.\<close>

lemma logs_event:
  "logs (hp_log n show_peer role ev)
    (\<lambda>r ls. (\<forall>c. r \<noteq> Exits c) \<and> (\<forall>l. r = Goes () \<longrightarrow> describe (n_crypto n) show_peer ev = Some (Some l) \<longrightarrow> role @ ascii '': '' @ l \<in> set ls))"
  unfolding hp_log_def
  by (cases "describe (n_crypto n) show_peer ev")
    (auto simp: act_unwrap_def logs_def act_bind_def act_panic_def act_return_def hp_say_def act_say_def split: option.splits)

section \<open>The dialer\<close>

definition told :: "bytes \<Rightarrow> bytes list \<Rightarrow> (bytes + bytes) option \<Rightarrow> bool" where
  "told role ls punched \<longleftrightarrow>
     (\<forall>address. punched = Some (Inr address) \<longrightarrow> role @ ascii '': hole punched, direct '' @ address \<in> set ls) \<and>
     (\<forall>err. punched = Some (Inl err) \<longrightarrow> role @ ascii '': hole punch failed: '' @ err \<in> set ls)"

lemma ascii_join: "ascii s @ ascii t @ rest = ascii (s @ t) @ rest"
  by (simp add: ascii_def)

lemma told_more: "told role ls punched \<Longrightarrow> told role (ls @ ls') punched" "told role ls' punched \<Longrightarrow> told role (ls @ ls') punched"
  by (auto simp: told_def)

lemma told_event:
  assumes "\<forall>l. describe c show_peer ev = Some (Some l) \<longrightarrow> role @ ascii '': '' @ l \<in> set ls"
    and "ev_type (fst ev) = LP2P_EV_HOLE_PUNCH"
  shows "told role ls (Some (punch_result ev))"
  using assms by (auto simp: told_def punch_result_def describe_def Let_def event_type_defs ascii_join)

lemma logs_punch_event:
  assumes "told role ls0 punched"
  shows "logs (punch_event n show_peer role key ev punched)
    (\<lambda>r ls. (\<forall>c. r \<noteq> Exits c) \<and> (\<forall>v. r = Goes v \<longrightarrow> told role (ls0 @ ls) v))"
  unfolding punch_event_def
  by (rule logs_bind [OF logs_event]) (use assms in \<open>auto intro!: logs_return told_more(2) [OF told_event] intro: told_more(1)\<close>)

lemma logs_each:
  assumes "\<And>ev ls0 s. I ls0 s \<Longrightarrow> logs (f ev s) (\<lambda>r ls. (\<forall>c. r \<noteq> Exits c) \<and> (\<forall>v. r = Goes v \<longrightarrow> I (ls0 @ ls) v))"
    and "I ls0 s"
  shows "logs (act_each f evs s) (\<lambda>r ls. (\<forall>c. r \<noteq> Exits c) \<and> (\<forall>v. r = Goes v \<longrightarrow> I (ls0 @ ls) v))"
  using assms(2)
proof (induction evs arbitrary: ls0 s)
  case (Cons ev evs)
  show ?case
    unfolding act_each.simps
    by (rule logs_bind [OF assms(1) [OF Cons.prems]]) (use Cons.IH in \<open>auto simp flip: append_assoc\<close>)
qed (auto intro!: logs_return)

lemma logs_until:
  assumes "\<And>ev ls0 s. I ls0 s \<Longrightarrow> logs (f ev s) (\<lambda>r ls. (\<forall>c. r \<noteq> Exits c) \<and> (\<forall>v. r = Goes v \<longrightarrow> I (ls0 @ ls) v))"
    and "\<And>ls. I ls None" and "I ls0 acc"
  shows "logs (poll_until n lb H node timeout_ms f deadline beats acc)
    (\<lambda>r ls. (\<forall>c. r \<noteq> Exits c) \<and> (\<forall>v. r = Goes v \<longrightarrow> I (ls0 @ ls) v))"
  using assms(3)
proof (induction beats arbitrary: acc ls0)
  case Nil
  then show ?case by (cases acc) (auto intro!: logs_return logs_wait)
next
  case (Cons b bs)
  show ?case
  proof (cases acc)
    case None
    have "logs (act_bind (act_each f evs None) (poll_until n lb H node timeout_ms f deadline bs))
        (\<lambda>r ls. (\<forall>c. r \<noteq> Exits c) \<and> (\<forall>v. r = Goes v \<longrightarrow> I (ls0 @ ls) v))" for evs
      by (rule logs_bind [OF logs_each [where I = I, OF assms(1) assms(2)]]) (use Cons.IH in \<open>auto simp flip: append_assoc\<close>)
    then show ?thesis using None assms(2) by (auto intro!: logs_silent [OF silent_round] logs_return)
  qed (use Cons.prems in \<open>auto intro!: logs_return\<close>)
qed

lemma logs_punch_loop:
  "told role ls0 punched \<Longrightarrow> logs (punch_loop n lb show_peer H role node key deadline beats punched)
    (\<lambda>r ls. (\<forall>c. r \<noteq> Exits c) \<and> (\<forall>v. r = Goes v \<longrightarrow> told role (ls0 @ ls) v))"
  unfolding punch_loop_def by (rule logs_until [OF logs_punch_event]) (simp_all add: told_def)

lemma logs_dial_events:
  "told role ls0 (d_punched d) \<Longrightarrow> logs (dial_events n show_peer role key cid evs d)
    (\<lambda>r ls. (\<forall>c. r \<noteq> Exits c) \<and> (\<forall>broke d'. r = Goes (broke, d') \<longrightarrow> told role (ls0 @ ls) (d_punched d')))"
proof (induction evs arbitrary: d ls0)
  case (Cons ev evs)
  show ?case
    unfolding dial_events.simps Let_def
  proof (rule logs_bind [OF logs_event], goal_cases)
    case (1 x ls)
    have kept: "told role (ls0 @ ls) (d_punched d)" by (rule told_more(1) [OF Cons.prems])
    have new: "told role (ls0 @ ls) (Some (punch_result ev))" if "ev_type (fst ev) = LP2P_EV_HOLE_PUNCH"
      using 1 that by (intro told_more(2) told_event) auto
    show ?case
      using Cons.IH [of "ls0 @ ls", unfolded append_assoc] kept new by (auto intro!: logs_return)
  qed auto
qed (auto intro!: logs_return)

lemma logs_dial_loop:
  "told role ls0 (d_punched d) \<Longrightarrow> logs (dialing_loop n lb show_peer H role node grp key deadline beats calling d)
    (\<lambda>r ls. (\<forall>c. r \<noteq> Exits c) \<and> (\<forall>d' bs. r = Goes (d', bs) \<longrightarrow> told role (ls0 @ ls) (d_punched d')))"
proof (induction beats arbitrary: calling d ls0)
  case (Cons b bs)
  show ?case
  proof (cases calling)
    case None
    then show ?thesis using Cons by (auto intro!: logs_return logs_silent [OF silent_call])
  next
    case (Some c)
    obtain cid until where c: "calling = Some (cid, until)" using Some by (cases c) auto
    have "logs (act_bind (dial_events n show_peer role key cid evs d) (\<lambda>(broke, d). if d_answered d then act_return (d, bs)
        else dialing_loop n lb show_peer H role node grp key deadline bs (if broke then None else Some (cid, until)) d))
      (\<lambda>r ls. (\<forall>c. r \<noteq> Exits c) \<and> (\<forall>d' bs. r = Goes (d', bs) \<longrightarrow> told role (ls0 @ ls) (d_punched d')))" for evs
      by (rule logs_bind [OF logs_dial_events [OF Cons.prems]])
        (use Cons.IH in \<open>auto intro!: logs_return simp flip: append_assoc\<close>)
    then show ?thesis using Cons c by (auto intro!: logs_silent [OF silent_round])
  qed
qed (auto intro!: logs_wait)

lemma logs_result:
  "R (Exits code) [role @ ascii '': '' @ line] \<Longrightarrow> R Panics [role @ ascii '': '' @ line] \<Longrightarrow>
   logs (act_bind (hp_say role line) (\<lambda>_. hp_shutdown n lb node turns code)) R"
  "R (Exits code) [role @ ascii '': '' @ line] \<Longrightarrow> logs (act_bind (hp_say role line) (\<lambda>_. act_exit code)) R"
  unfolding hp_shutdown_def
  by (rule logs_bind [OF logs_say [where R = "\<lambda>r ls. r = Goes () \<and> ls = [role @ ascii '': '' @ line]"]];
      auto intro!: logs_silent [OF silent_prims(1)] logs_exit)+

text \<open>The result line of the dialer, its exit code and the lines before it.\<close>

definition dial_verdict :: "bytes \<Rightarrow> bytes list \<Rightarrow> int \<Rightarrow> bytes \<Rightarrow> bool" where
  "dial_verdict role ls code result \<longleftrightarrow>
     (code = 2 \<and> result = ascii '' rpc=failed'') \<or>
     (\<exists>relayed punched. told role ls punched \<and> code = snd (punch_text punched) \<and>
        result = ascii '' rpc=ok first_connection_relayed='' @ bool_text relayed @ ascii '' '' @ fst (punch_text punched))"

lemma logs_dialer:
  "logs (dialer_run n lb show_peer H role transport node grp key began beats turns)
    (\<lambda>r ls. \<forall>code. r = Exits code \<longrightarrow> (\<exists>ls' result. dial_verdict role ls' code result \<and>
       ls = ls' @ [role @ ascii '': '' @ ascii ''RESULT impl=rust transport='' @ transport @ result]))"
  unfolding dialer_run_def
proof (rule logs_bind [OF logs_dial_loop [where ?ls0.0 = "[]"]], goal_cases)
  case (2 x ls)
  obtain d bs where x: "x = (d, bs)" by fastforce
  have t: "told role ls (d_punched d)" using 2 x by simp
  show ?case
  proof (cases "d_answered d")
    case False
    then show ?thesis by (auto simp: x dial_verdict_def intro!: logs_result(2))
  next
    case True
    show ?thesis
    proof (cases bs)
      case (Cons b bs')
      have "logs (act_bind (punch_loop n lb show_peer H role node key (b_clock b + from_secs 30) bs' (d_punched d)) (\<lambda>punched.
          case punch_text punched of (outcome, code) \<Rightarrow>
          act_bind (hp_say role (ascii ''RESULT impl=rust transport='' @ transport @ ascii '' rpc=ok first_connection_relayed='' @
            bool_text (contains (d_first_connection d) (ascii ''/p2p-circuit'')) @ ascii '' '' @ outcome)) (\<lambda>_.
            hp_shutdown n lb node turns code)))
        (\<lambda>r ls1. \<forall>code. r = Exits code \<longrightarrow> (\<exists>ls' result. dial_verdict role ls' code result \<and>
          ls @ ls1 = ls' @ [role @ ascii '': '' @ ascii ''RESULT impl=rust transport='' @ transport @ result]))"
      proof (rule logs_bind [OF logs_punch_loop [OF t]], goal_cases)
        case (1 punched ls1)
        then have p: "told role (ls @ ls1) punched" by simp
        obtain outcome code where o: "punch_text punched = (outcome, code)" by fastforce
        let ?relayed = "contains (d_first_connection d) (ascii ''/p2p-circuit'')"
        have "dial_verdict role (ls @ ls1) code (ascii '' rpc=ok first_connection_relayed='' @ bool_text ?relayed @ ascii '' '' @ outcome)"
          unfolding dial_verdict_def
          by (intro disjI2 exI [of _ ?relayed] exI [of _ punched]) (simp add: p o)
        then show ?case by (auto simp: o intro!: logs_result(1))
      qed auto
      with True Cons show ?thesis by (simp add: x)
    qed (use True in \<open>simp add: x logs_wait\<close>)
  qed
qed (auto simp: told_def)


definition demo_hp :: hp_locals where
  "demo_hp = \<lparr>h_buf = 100000, h_group = 32, h_key = 64, h_text = 200000, h_id = 8\<rparr>"


section \<open>The loops end\<close>

lemma c_run_turns:
  assumes "c_run n lb iss isq s" and "f_handles s node = Some h" and "turns_ok n iss isq ts (l_node h)"
  shows "c_run n lb iss isq (set_node node h (node_turns n ts (l_node h)) s)"
  using assms
proof (induction ts arbitrary: s h)
  case Nil
  then show ?case by (simp add: set_node_def fun_upd_idem)
next
  case (Cons t ts)
  let ?h = "h\<lparr>l_node := snd (node_turn n t (l_node h))\<rparr>"
  let ?s = "set_node node h (snd (node_turn n t (l_node h))) s"
  have "c_run n lb iss isq ?s" using Cons.prems by (intro works) simp_all
  from Cons.IH [OF this, of ?h] Cons.prems(3) show ?case by (simp add: set_node_def)
qed

text \<open>What a round needs of the world: a schedule of the node's thread that is possible, and a poll that is woken up in the end.\<close>

definition beat_fair :: "'sw net \<Rightarrow> ('sw \<Rightarrow> request_id set) \<Rightarrow> ('sw \<Rightarrow> query_id set) \<Rightarrow> ptr \<Rightarrow> int \<Rightarrow> 'sw beat \<Rightarrow> 'sw ffi \<Rightarrow> bool" where
  "beat_fair n iss isq node timeout_ms b s \<longleftrightarrow>
     (\<forall>h. f_handles s node = Some h \<longrightarrow> turns_ok n iss isq (b_turns b) (l_node h)) \<and>
     list_all (\<lambda>op. snd op = []) (b_sched b) \<and> list_ex (\<lambda>op. b_now b + from_millis (nat timeout_ms) \<le> fst op) (b_sched b)"

fun beats_fair ::
  "'sw net \<Rightarrow> libs \<Rightarrow> ('sw \<Rightarrow> request_id set) \<Rightarrow> ('sw \<Rightarrow> query_id set) \<Rightarrow> hp_locals \<Rightarrow> ptr \<Rightarrow> int \<Rightarrow> 'sw beat list \<Rightarrow> 'sw ffi \<Rightarrow> bool" where
  "beats_fair n lb iss isq H node timeout_ms [] s \<longleftrightarrow> True"
| "beats_fair n lb iss isq H node timeout_ms (b # bs) s \<longleftrightarrow> beat_fair n iss isq node timeout_ms b s \<and>
     (\<forall>p evs p'. p_ffi p = s \<longrightarrow> hp_round n lb H node timeout_ms b p = Return (Goes evs, p') \<longrightarrow>
        beats_fair n lb iss isq H node timeout_ms bs (p_ffi p'))"

lemma poll_ends:
  assumes "c_run n lb iss isq s" and "f_handles s node = Some h" and "node \<noteq> 0" and "buf \<noteq> 0" and "0 \<le> timeout_ms"
    and "load (f_mem s) buf cap \<noteq> None" and "list_ex (\<lambda>op. now + from_millis (nat timeout_ms) \<le> fst op) sched"
    and "keys_sized (n_crypto n)"
  shows "\<exists>st s'. lp2p_poll (n_endian n) node buf cap timeout_ms now sched s = Return (st, s')"
proof -
  have "contract (n_endian n) (Poll_call node buf cap timeout_ms now sched) s"
    using assms(2,6) by (simp add: live_handle_def mapped_def)
  from every_call_sound [OF this assms(8)] have "lp2p_poll (n_endian n) node buf cap timeout_ms now sched s \<noteq> Undefined"
    by (simp add: sound_def)
  moreover have woken: "\<exists>i < length sched. now + from_millis (nat timeout_ms) \<le> fst (sched ! i)"
    using assms(7) by (fastforce simp: list_ex_iff in_set_conv_nth)
  have "poll_loop e b (now + from_millis (nat timeout_ms)) sched q \<noteq> Waiting w" for e b q w
    using poll_loop_returns [OF woken, of e b q] by auto
  then have "lp2p_poll (n_endian n) node buf cap timeout_ms now sched s \<noteq> Blocked"
    using assms(2-6) by (auto simp: lp2p_poll_def attempt_def handle_def ensure_def write_out_def poll_def simp del: load.simps
        split: option.splits poll_result.splits)
  ultimately show ?thesis by (cases "lp2p_poll (n_endian n) node buf cap timeout_ms now sched s") auto
qed

text \<open>A poll that returns gives events; it is never undefined and does not panic.\<close>

lemma hp_poll_cases:
  assumes "c_run n lb iss isq (p_ffi p)" and "f_handles (p_ffi p) node = Some h" and "h_buf H \<noteq> 0"
    and "list_all (\<lambda>op. snd op = []) sched" and "keys_sized (n_crypto n)" and "peer_keys_sized (n_crypto n)"
  defines "s \<equiv> (p_ffi p)\<lparr>f_mem := put_all [(h_buf H, replicate HP_BUFFER 0)] (f_mem (p_ffi p))\<rparr>"
  shows "(lp2p_poll (n_endian n) node (h_buf H) HP_BUFFER timeout_ms now sched s = Blocked \<and> hp_poll n lb H node timeout_ms now sched p = Blocked) \<or>
    (\<exists>st s' evs. lp2p_poll (n_endian n) node (h_buf H) HP_BUFFER timeout_ms now sched s = Return (st, s') \<and>
       hp_poll n lb H node timeout_ms now sched p = Return (Goes evs, p\<lparr>p_ffi := s'\<rparr>) \<and>
       c_run n lb iss isq s' \<and> f_handles s' node \<noteq> None)"
proof -
  let ?c = "Poll_call node (h_buf H) HP_BUFFER timeout_ms now sched"
  have h: "f_handles s node = Some h" using assms(2) by (simp add: s_def)
  have run: "c_run n lb iss isq s" unfolding s_def by (rule computes [OF assms(1)])
  have load: "load (f_mem s) (h_buf H) HP_BUFFER \<noteq> None"
    using load_put_bytes [of "h_buf H" "replicate HP_BUFFER 0" "f_mem (p_ffi p)"] by (simp add: s_def)
  have contract: "contract (n_endian n) ?c s" using h load by (simp add: live_handle_def mapped_def del: load.simps)
  have env: "call_env_ok n iss isq ?c s" using assms(4) by (simp add: call_env_ok_def)
  have "?c \<noteq> Shutdown_call x y" for x y by simp
  note effect = call_effect [OF contract assms(5) this]
  have "\<exists>evs. hp_poll n lb H node timeout_ms now sched p = Return (Goes evs, p\<lparr>p_ffi := s'\<rparr>) \<and>
      c_run n lb iss isq s' \<and> f_handles s' node \<noteq> None"
    if r: "lp2p_poll (n_endian n) node (h_buf H) HP_BUFFER timeout_ms now sched s = Return (st, s')" for st s'
  proof -
    have r': "run_call n lb ?c s = Return (st, s')" using r by simp
    have "load (f_mem s') (h_buf H) HP_BUFFER \<noteq> None" using load effect(1) [OF r'] by (simp only: load_mapped)
    then obtain bs where bs: "load (f_mem s') (h_buf H) HP_BUFFER = Some bs" by blast
    have "\<exists>evs. read_events (n_endian n) bs st = Some (Inr evs)"
    proof (cases "0 < st")
      case True
      have cap: "HP_BUFFER < 2 ^ 31" by (simp add: HP_BUFFER_def)
      from poll_reads_events [OF run h assms(6,4) cap r True] bs show ?thesis by auto
    qed (simp add: read_events_def)
    then obtain evs where "read_events (n_endian n) bs st = Some (Inr evs)" by blast
    moreover have "c_run n lb iss isq s'" by (rule calls [OF run contract env r'])
    moreover have "f_handles s' node \<noteq> None" using effect(3) [OF r'] h by simp
    ultimately show ?thesis
      using r bs unfolding s_def by (simp add: hp_poll_def act_bind_def act_call_def act_load_def act_return_def del: load.simps put_all.simps)
  qed
  moreover have "lp2p_poll (n_endian n) node (h_buf H) HP_BUFFER timeout_ms now sched s \<noteq> Undefined"
    using every_call_sound [OF contract assms(5), of lb] by (simp add: sound_def)
  moreover have "hp_poll n lb H node timeout_ms now sched p = Blocked"
    if "lp2p_poll (n_endian n) node (h_buf H) HP_BUFFER timeout_ms now sched s = Blocked"
    using that unfolding s_def by (simp add: hp_poll_def act_bind_def act_call_def del: put_all.simps)
  ultimately show ?thesis
    by (cases "lp2p_poll (n_endian n) node (h_buf H) HP_BUFFER timeout_ms now sched s") auto
qed

lemma hp_poll_ends:
  assumes "c_run n lb iss isq (p_ffi p)" and "f_handles (p_ffi p) node \<noteq> None" and "node \<noteq> 0" and "h_buf H \<noteq> 0"
    and "0 \<le> timeout_ms" and "list_all (\<lambda>op. snd op = []) sched"
    and "list_ex (\<lambda>op. now + from_millis (nat timeout_ms) \<le> fst op) sched"
    and "keys_sized (n_crypto n)" and "peer_keys_sized (n_crypto n)"
  shows "\<exists>evs p'. hp_poll n lb H node timeout_ms now sched p = Return (Goes evs, p') \<and>
    c_run n lb iss isq (p_ffi p') \<and> f_handles (p_ffi p') node \<noteq> None"
proof -
  let ?s = "(p_ffi p)\<lparr>f_mem := put_all [(h_buf H, replicate HP_BUFFER 0)] (f_mem (p_ffi p))\<rparr>"
  obtain h where h: "f_handles (p_ffi p) node = Some h" using assms(2) by auto
  then have "f_handles ?s node = Some h" by simp
  moreover have "load (f_mem ?s) (h_buf H) HP_BUFFER \<noteq> None"
    using load_put_bytes [of "h_buf H" "replicate HP_BUFFER 0" "f_mem (p_ffi p)"] by simp
  ultimately obtain st s' where "lp2p_poll (n_endian n) node (h_buf H) HP_BUFFER timeout_ms now sched ?s = Return (st, s')"
    using poll_ends [OF computes [OF assms(1)] _ assms(3-5) _ assms(7,8)] by blast
  with hp_poll_cases [OF assms(1) h assms(4,6,8,9), of timeout_ms now] show ?thesis by auto
qed

lemma hp_round_ends:
  assumes "c_run n lb iss isq (p_ffi p)" and "f_handles (p_ffi p) node \<noteq> None" and "node \<noteq> 0" and "h_buf H \<noteq> 0"
    and "0 \<le> timeout_ms" and "beat_fair n iss isq node timeout_ms b (p_ffi p)"
    and "keys_sized (n_crypto n)" and "peer_keys_sized (n_crypto n)"
  shows "\<exists>evs p'. hp_round n lb H node timeout_ms b p = Return (Goes evs, p') \<and>
    c_run n lb iss isq (p_ffi p') \<and> f_handles (p_ffi p') node \<noteq> None"
proof -
  obtain h where h: "f_handles (p_ffi p) node = Some h" using assms(2) by blast
  let ?p = "p\<lparr>p_ffi := set_node node h (node_turns n (b_turns b) (l_node h)) (p_ffi p)\<rparr>"
  have "c_run n lb iss isq (p_ffi ?p)" using c_run_turns [OF assms(1) h] assms(6) h by (simp add: beat_fair_def)
  moreover have "f_handles (p_ffi ?p) node \<noteq> None" by (simp add: set_node_def)
  ultimately show ?thesis
    using hp_poll_ends [of n lb iss isq ?p node H timeout_ms "b_sched b" "b_now b"] assms(3-8) h
    by (auto simp: hp_round_def act_bind_def act_turns_def beat_fair_def)
qed

text \<open>Code that only prints.\<close>

definition only_tells :: "('a, 'sw) act \<Rightarrow> bool" where
  "only_tells a \<longleftrightarrow> (\<forall>p. \<exists>r p'. a p = Return (r, p') \<and> p_ffi p' = p_ffi p \<and> (\<forall>c. r \<noteq> Exits c))"

lemma only_tells_bind: "only_tells m \<Longrightarrow> (\<And>x. only_tells (f x)) \<Longrightarrow> only_tells (act_bind m f)"
  unfolding only_tells_def
proof
  fix p
  assume m: "\<forall>p. \<exists>r p'. m p = Return (r, p') \<and> p_ffi p' = p_ffi p \<and> (\<forall>c. r \<noteq> Exits c)"
    and f: "\<And>x. \<forall>p. \<exists>r p'. f x p = Return (r, p') \<and> p_ffi p' = p_ffi p \<and> (\<forall>c. r \<noteq> Exits c)"
  obtain r p1 where r: "m p = Return (r, p1)" "p_ffi p1 = p_ffi p" "\<forall>c. r \<noteq> Exits c" using m by blast
  show "\<exists>r p'. act_bind m f p = Return (r, p') \<and> p_ffi p' = p_ffi p \<and> (\<forall>c. r \<noteq> Exits c)"
    using r f [rule_format, of _ p1] by (cases r) (simp_all add: act_bind_def)
qed

lemma only_tells_basic [simp]: "only_tells (act_return x)" "only_tells (hp_say role l)" "only_tells (act_unwrap y)"
  by (auto simp: only_tells_def act_return_def hp_say_def act_say_def act_unwrap_def act_panic_def split: option.splits)

lemma only_tells_log [simp]: "only_tells (hp_log n show_peer role ev)"
  unfolding hp_log_def by (intro only_tells_bind) (simp_all split: option.split)

lemma only_tells_events [simp]:
  "only_tells (autonat_event n show_peer role ev verdict)" "only_tells (punch_event n show_peer role key ev punched)"
  unfolding autonat_event_def punch_event_def by (intro only_tells_bind; simp)+

lemma only_tells_each: "(\<And>ev s. only_tells (f ev s)) \<Longrightarrow> only_tells (act_each f evs s)"
  by (induction evs arbitrary: s) (auto intro: only_tells_bind)

lemma until_ends:
  assumes "node \<noteq> 0" and "h_buf H \<noteq> 0" and "0 \<le> timeout_ms" and "keys_sized (n_crypto n)" and "peer_keys_sized (n_crypto n)"
    and "\<And>ev v. only_tells (f ev v)"
  shows "c_run n lb iss isq (p_ffi p) \<Longrightarrow> f_handles (p_ffi p) node \<noteq> None \<Longrightarrow>
    beats_fair n lb iss isq H node timeout_ms beats (p_ffi p) \<Longrightarrow> list_ex (\<lambda>b. deadline \<le> b_clock b) beats \<Longrightarrow>
    \<exists>r p'. poll_until n lb H node timeout_ms f deadline beats acc p = Return (r, p') \<and> (\<forall>c. r \<noteq> Exits c)"
proof (induction beats arbitrary: acc p)
  case (Cons b bs)
  show ?case
  proof (cases "acc = None \<and> b_clock b < deadline")
    case True
    obtain evs p1 where r: "hp_round n lb H node timeout_ms b p = Return (Goes evs, p1)"
      "c_run n lb iss isq (p_ffi p1)" "f_handles (p_ffi p1) node \<noteq> None"
      using hp_round_ends [OF Cons.prems(1,2) assms(1-3) _ assms(4,5), of b] Cons.prems(3) by auto
    have "only_tells (act_each f evs None)" by (rule only_tells_each) (rule assms(6))
    then obtain v p2 where e: "act_each f evs None p1 = Return (v, p2)" "p_ffi p2 = p_ffi p1" "\<forall>c. v \<noteq> Exits c"
      unfolding only_tells_def by blast
    have "beats_fair n lb iss isq H node timeout_ms bs (p_ffi p2)" using Cons.prems(3) r(1) e(2) by auto
    moreover have "list_ex (\<lambda>b. deadline \<le> b_clock b) bs" using Cons.prems(4) True by simp
    ultimately have "\<exists>r p'. poll_until n lb H node timeout_ms f deadline bs acc p2 = Return (r, p') \<and> (\<forall>c. r \<noteq> Exits c)" for acc
      using Cons.IH [of p2] r(2,3) e(2) by simp
    with True r(1) e show ?thesis by (cases v) (auto simp: act_bind_def)
  qed (cases acc; auto simp: act_return_def)
qed simp


lemma demo_peer_keys: "peer_keys_sized (n_crypto demo_net)"
  by (simp add: peer_keys_sized_def demo_crypto_def)


section \<open>Large records\<close>



end
