(* ===== verification/Identifiers.thy ===== *)
theory Identifiers
  imports Serve
begin

text \<open>
  How fast identifiers are used up: one turn of the thread or one call takes at most one, so that a program knows from the length
  of its schedule that the \<open>2^64\<close> of them suffice.
\<close>

definition id_mark :: "'sw node \<Rightarrow> nat" where
  "id_mark a = unat (next_call_id (n_world a))"

lemma ids_left_mark: "ids_left a \<longleftrightarrow> id_mark a + 1 < 2 ^ 64"
  by (simp add: ids_left_def id_mark_def)

lemma mark_step: "next_call_id w' = next_call_id w \<or> next_call_id w' = next_call_id w + 1 \<Longrightarrow>
   unat (next_call_id w') \<le> Suc (unat (next_call_id w))"
  by (auto simp: unat_word_ariths)

lemma mark_steady: "steady iss isq w w' \<Longrightarrow> unat (next_call_id w') \<le> Suc (unat (next_call_id w))"
  by (rule mark_step) (simp add: steady_def)

lemma mark_quiet: "quiet iss isq w w' \<Longrightarrow> next_call_id w' = next_call_id w"
  by (simp add: quiet_def)

section \<open>Turns\<close>

lemma mark_turn:
  assumes "net_fresh n iss isq" and "reachable n iss isq a ids" and "grows iss isq m" and "loop_turn n m a b"
  shows "id_mark b \<le> Suc (id_mark a)"
proof -
  have good: "calls_good iss isq {} (n_world a)" using run_inv_reachable [OF assms(1,2)] by (simp add: run_inv_def)
  have q: "quiet iss isq (n_world a) (arrive m (n_world a))" by (rule quiet_arrive [OF assms(3)])
  note good1 = quiet_good [OF q good] and same = mark_quiet [OF q]
  show ?thesis
    using assms(4)
  proof cases
    case (receive c rest w)
    then obtain r where cmd: "command n c (arrive m (n_world a)) = Some (r, w)"
      by (auto split: if_splits option.splits)
    show ?thesis
    proof (cases c)
      case (Rpc cid grp node protocol payload timeout)
      then have "start_call n cid grp node protocol payload timeout (arrive m (n_world a)) = Some w" using cmd by simp
      from refers_start_call [OF this] same receive(1) show ?thesis by (simp add: refers_within_def id_mark_def)
    qed (use mark_steady [OF steady_command [OF assms(1) good1 _ cmd]] same receive(1) in \<open>simp_all add: id_mark_def is_rpc_def\<close>)
  next
    case (event inp w)
    have "steady iss isq (arrive m (n_world a)) w"
      using event(2,3) steady_swarm_event [OF assms(1) good1] steady_tick [OF assms(1) good1]
      by (cases inp) auto
    from mark_steady [OF this] same event(1) show ?thesis by (simp add: id_mark_def)
  next
    case (stop rest)
    with same show ?thesis by (simp add: id_mark_def shut_events_def)
  qed
qed

lemma mark_node_turn:
  assumes "net_fresh n iss isq" and "reachable n iss isq a ids" and "grows iss isq (fst t)"
  shows "id_mark (snd (node_turn n t a)) \<le> Suc (id_mark a)"
  using node_turn_loop [OF assms(2), of t] mark_turn [OF assms] by auto

lemma turns_left:
  assumes "net_fresh n iss isq"
  shows "reachable n iss isq a ids \<Longrightarrow> list_all (\<lambda>t. grows iss isq (fst t)) ts \<Longrightarrow> id_mark a + length ts < 2 ^ 64 \<Longrightarrow>
    turns_ok n iss isq ts a \<and> id_mark (node_turns n ts a) \<le> id_mark a + length ts"
proof (induction ts arbitrary: a)
  case (Cons t ts)
  have left: "ids_left a" using Cons.prems(3) by (simp add: ids_left_mark)
  have g: "grows iss isq (fst t)" using Cons.prems(2) by simp
  have "reachable n iss isq (snd (node_turn n t a)) ids" by (rule node_turn_reachable [OF Cons.prems(1) left g])
  moreover have "id_mark (snd (node_turn n t a)) \<le> Suc (id_mark a)" by (rule mark_node_turn [OF assms Cons.prems(1) g])
  ultimately show ?case using Cons.IH [of "snd (node_turn n t a)"] Cons.prems left g by simp
qed simp

section \<open>Start-up\<close>

lemma mark_await:
  assumes "net_fresh n iss isq"
  shows "list_all (\<lambda>ev. grows iss isq (fst ev)) evs \<Longrightarrow> calls_good iss isq {} w \<Longrightarrow>
    unat (next_call_id (await_listeners n pending evs w)) \<le> unat (next_call_id w) + length evs"
proof (induction evs arbitrary: pending w)
  case (Cons e evs)
  obtain m ev where e: "e = (m, ev)" by fastforce
  have q: "quiet iss isq w (arrive m w)" using Cons.prems(1) by (auto simp: e intro: quiet_arrive)
  have s: "steady iss isq w (swarm_event n ev (arrive m w))"
    by (rule quiet_steady [OF q steady_swarm_event [OF assms quiet_good [OF q Cons.prems(2)]]])
  from mark_steady [OF this] Cons.IH [of "swarm_event n ev (arrive m w)" "filter (still_pending ev) pending"] Cons.prems s
  show ?case by (simp add: e steady_def)
qed simp

lemma mark_start:
  assumes "net_fresh n iss isq" and "list_all (\<lambda>ev. grows iss isq (fst ev)) evs" and "start n config ms built evs = Inr w"
  shows "unat (next_call_id w) \<le> Suc (length evs)"
proof -
  obtain p where "run_thread_start n config p built evs = Inr w"
    using assms(3) by (auto simp: start_def split: option.splits sum.splits)
  then obtain listeners x where w: "w = provide n (emit n ((event_new LP2P_EV_REACHABILITY)\<lparr>ev_reason :=
      ucast (reach_code (c_reachability config))\<rparr>) []
      (await_listeners n listeners evs (world_new config p (instant_now n x) x)))"
    by (auto simp: run_thread_start_def Let_def split: sum.splits option.splits prod.splits)
  let ?w0 = "world_new config p (instant_now n x) x"
  have "quiet iss isq (await_listeners n listeners evs ?w0) w"
    unfolding w provide_def Let_def
    by (intro quiet_state quiet_do_act quiet_emit keeps_comp keeps_fields quiet_refl assms(1))
      (simp add: event_type_defs)
  moreover have "unat (next_call_id ?w0) = 1" by (simp add: world_new_def state_new_def shared_new_def)
  ultimately show ?thesis
    using mark_await [OF assms(1,2) calls_good_new [of iss isq config p "instant_now n x" x], of listeners]
    by (simp add: mark_quiet)
qed

end
