(* ===== verification/HolePunchRuns.thy ===== *)
theory HolePunchRuns
  imports ProgramStart HolePunchProps Identifiers
begin

text \<open>
  The hole-punching program from its first line to its last, in each of its roles: every call meets its contract, whatever the
  environment, the network and the clock do. The identifiers a run can use up are counted from its schedule.
\<close>

section \<open>A running node with identifiers to spare\<close>

definition going ::
  "'sw net \<Rightarrow> libs \<Rightarrow> ('sw \<Rightarrow> request_id set) \<Rightarrow> ('sw \<Rightarrow> query_id set) \<Rightarrow> ptr \<Rightarrow> nat \<Rightarrow> 'sw process \<Rightarrow> bool" where
  "going n lb iss isq node k p \<longleftrightarrow> c_run n lb iss isq (p_ffi p) \<and>
     (\<exists>h. f_handles (p_ffi p) node = Some h \<and> id_mark (l_node h) + k + 1 < 2 ^ 64)"

text \<open>\<open>spends \<dots> j a\<close>: the code has no undefined behaviour, keeps the node, and uses up at most \<open>j\<close> identifiers.\<close>

definition spends ::
  "'sw net \<Rightarrow> libs \<Rightarrow> ('sw \<Rightarrow> request_id set) \<Rightarrow> ('sw \<Rightarrow> query_id set) \<Rightarrow> ptr \<Rightarrow> nat \<Rightarrow> ('a, 'sw) act \<Rightarrow> bool" where
  "spends n lb iss isq node j a \<longleftrightarrow> (\<forall>k. sure (going n lb iss isq node (j + k)) a (\<lambda>_. going n lb iss isq node k))"

lemma going_less: "going n lb iss isq node k p \<Longrightarrow> j \<le> k \<Longrightarrow> going n lb iss isq node j p"
  by (auto simp: going_def)

lemma spends_more: "spends n lb iss isq node i a \<Longrightarrow> i \<le> j \<Longrightarrow> spends n lb iss isq node j a"
  unfolding spends_def by (meson add_le_mono1 going_less sure_pre)

lemma spends_bind:
  assumes "spends n lb iss isq node i m" and "\<And>x. spends n lb iss isq node j (f x)"
  shows "spends n lb iss isq node (i + j) (act_bind m f)"
  unfolding spends_def
proof
  fix k
  have m: "sure (going n lb iss isq node (i + j + k)) m (\<lambda>_. going n lb iss isq node (j + k))"
    using assms(1) unfolding spends_def by (simp add: add.assoc)
  show "sure (going n lb iss isq node (i + j + k)) (act_bind m f) (\<lambda>_. going n lb iss isq node k)"
    by (rule sure_bind [OF m]) (use assms(2) in \<open>auto simp: spends_def intro: going_less\<close>)
qed

lemma spends_then:
  "spends n lb iss isq node 0 m \<Longrightarrow> (\<And>x. spends n lb iss isq node j (f x)) \<Longrightarrow> spends n lb iss isq node j (act_bind m f)"
  using spends_bind [of n lb iss isq node 0 m j f] by simp

lemma spends_basic [simp]:
  "spends n lb iss isq node j (act_return x)" "spends n lb iss isq node j act_panic" "spends n lb iss isq node j act_wait"
  "spends n lb iss isq node j (act_assert b)" "spends n lb iss isq node j (act_unwrap r)"
  by (auto simp: spends_def sure_def act_return_def act_panic_def act_wait_def act_assert_def act_unwrap_def
      intro: going_less split: option.splits if_splits)

lemma spends_tells: "only_tells a \<Longrightarrow> spends n lb iss isq node j a"
  unfolding spends_def sure_def
proof (intro allI impI)
  fix k p
  assume "only_tells a" and "going n lb iss isq node (j + k) p"
  moreover from this(1) obtain r p' where "a p = Return (r, p')" "p_ffi p' = p_ffi p" unfolding only_tells_def by blast
  ultimately show "a p \<noteq> Undefined \<and> (\<forall>r p'. a p = Return (r, p') \<longrightarrow> going n lb iss isq node k p')"
    by (auto simp: going_def)
qed

lemma spends_each: "(\<And>ev s. spends n lb iss isq node 0 (f ev s)) \<Longrightarrow> spends n lb iss isq node 0 (act_each f evs s)"
  by (induction evs arbitrary: s) (auto intro: spends_then)

section \<open>Calls\<close>

text \<open>How far a call moves the identifiers of the node.\<close>

definition moves :: "ptr \<Rightarrow> nat \<Rightarrow> 'sw ffi \<Rightarrow> 'sw result \<Rightarrow> bool" where
  "moves node j s r \<longleftrightarrow> (\<forall>st s' h. r = Return (st, s') \<longrightarrow> f_handles s node = Some h \<longrightarrow>
     (\<exists>h'. f_handles s' node = Some h' \<and> id_mark (l_node h') \<le> id_mark (l_node h) + j))"

lemma mark_send: "send c a = (st, b) \<Longrightarrow> id_mark b = id_mark a"
  by (auto simp: send_def id_mark_def split: if_splits)

lemma mark_next: "next_id a = (cid, b) \<Longrightarrow> id_mark b \<le> Suc (id_mark a)"
  by (auto simp: next_id_def id_mark_def bump_id_def intro: mark_step)

lemma mark_queue: "id_mark (set_queue q a) = id_mark a"
  by (simp add: set_queue_def id_mark_def)

lemma calls_move:
  "moves node 0 s (lp2p_add_address n lb node key addr s)" "moves node 0 s (lp2p_rpc_respond node cid dat len s)"
  "moves node 0 s (lp2p_poll e node buf cap timeout_ms now sched s)"
  "moves node 1 s (lp2p_dht_bootstrap e node query_id s)"
  "moves node 1 s (lp2p_rpc_request n node grp key protocol dat len limit_ms request_id s)"
  by (auto simp: moves_def lp2p_add_address_def lp2p_rpc_respond_def lp2p_poll_def lp2p_dht_bootstrap_def ffi_query_def
      lp2p_rpc_request_def attempt_def handle_def send_to_def set_node_def write_out_def write_typed_def Let_def mark_queue
      dest!: mark_send mark_next split: option.splits sum.splits prod.splits if_splits poll_result.splits)

text \<open>A call on the node with its arguments in locals: what was mapped stays mapped.\<close>

lemma going_call:
  assumes "\<And>s. moves node j s (run_call n lb c s)" and "handle_of c = Some node" and "keys_sized (n_crypto n)"
    and "\<And>opt out box ms built evs. c \<noteq> Start_call opt out box ms built evs" and "\<And>x turns. c \<noteq> Shutdown_call x turns"
    and "\<And>h. ids_left (l_node h) \<Longrightarrow> env_ok n iss isq c h"
    and "\<And>s. f_handles s node \<noteq> None \<Longrightarrow> contract (n_endian n) c (s\<lparr>f_mem := put_all ls (f_mem s)\<rparr>)"
  shows "sure (going n lb iss isq node (j + k)) (act_call n lb ls c)
    (\<lambda>r p. going n lb iss isq node k p \<and> (\<exists>st. r = Goes st) \<and>
       (\<forall>q i. load (put_all ls Map.empty) q i \<noteq> None \<longrightarrow> load (f_mem (p_ffi p)) q i \<noteq> None))"
proof (rule sure_call)
  fix p :: "'a process" and st s'
  let ?s = "(p_ffi p)\<lparr>f_mem := put_all ls (f_mem (p_ffi p))\<rparr>"
  assume p: "going n lb iss isq node (j + k) p" and r: "run_call n lb c ?s = Return (st, s')"
  obtain h where h: "f_handles (p_ffi p) node = Some h" "id_mark (l_node h) + (j + k) + 1 < 2 ^ 64" using p by (auto simp: going_def)
  have run: "c_run n lb iss isq ?s" using p by (auto simp: going_def intro: computes)
  have c: "contract (n_endian n) c ?s" using assms(7) h(1) by simp
  have "ids_left (l_node h)" using h(2) by (simp add: ids_left_mark)
  then have env: "call_env_ok n iss isq c ?s"
    using assms(2,4,6) h(1) by (auto simp: call_env_ok_def split: ffi_call.split)
  have dom: "dom (f_mem s') = dom (f_mem ?s)" by (rule call_effect(1) [OF c assms(3,5) r])
  have "load (f_mem s') q i \<noteq> None" if "load (put_all ls Map.empty) q i \<noteq> None" for q i
    using that dom dom_put_mono [of ls "f_mem (p_ffi p)"] unfolding load_mapped by auto
  moreover obtain h' where "f_handles s' node = Some h'" "id_mark (l_node h') \<le> id_mark (l_node h) + j"
    using assms(1) [of ?s] r h(1) unfolding moves_def by auto
  ultimately show "going n lb iss isq node k (p\<lparr>p_ffi := s'\<rparr>) \<and> (\<exists>x. Goes st = Goes x) \<and>
      (\<forall>q i. load (put_all ls Map.empty) q i \<noteq> None \<longrightarrow> load (f_mem (p_ffi (p\<lparr>p_ffi := s'\<rparr>))) q i \<noteq> None)"
    using calls [OF run c env r] h(2) by (auto simp: going_def)
qed (use assms(7) in \<open>auto simp: going_def assms(3)\<close>)

lemma spends_call:
  assumes "\<And>s. moves node j s (run_call n lb c s)" and "handle_of c = Some node" and "keys_sized (n_crypto n)"
    and "\<And>opt out box ms built evs. c \<noteq> Start_call opt out box ms built evs" and "\<And>x turns. c \<noteq> Shutdown_call x turns"
    and "\<And>h. ids_left (l_node h) \<Longrightarrow> env_ok n iss isq c h"
    and "\<And>s. f_handles s node \<noteq> None \<Longrightarrow> contract (n_endian n) c (s\<lparr>f_mem := put_all ls (f_mem s)\<rparr>)"
  shows "spends n lb iss isq node j (act_call n lb ls c)"
  unfolding spends_def
proof
  fix k
  show "sure (going n lb iss isq node (j + k)) (act_call n lb ls c) (\<lambda>_. going n lb iss isq node k)"
    by (rule sure_post [OF going_call [OF assms]]) auto
qed

section \<open>The methods of the node\<close>

text \<open>Where \<open>Node\<close> may keep its locals; strings are on the heap above them.\<close>

definition hp_layout :: "hp_locals \<Rightarrow> bool" where
  "hp_layout H \<longleftrightarrow>
     apart [(h_buf H, HP_BUFFER), (h_group H, 32), (h_key H, 32), (h_id H, 8)] \<and> aligned 8 (h_id H) \<and>
     list_all (\<lambda>(p, k). p + k \<le> h_text H) [(h_buf H, HP_BUFFER), (h_group H, 32), (h_key H, 32), (h_id H, 8)]"

lemma hp_layout_apart:
  assumes "hp_layout H"
  shows "apart [(h_key H, 32), (h_text H, i)]" and "apart [(h_group H, 32), (h_key H, 32), (h_text H, i), (h_id H, 8)]"
    and "apart [(h_id H, 8)]" and "apart [(h_text H, i)]" and "aligned 8 (h_id H)" and "h_buf H \<noteq> 0"
  using assms by (auto simp: hp_layout_def)

lemma spends_add_address:
  assumes "hp_layout H" and "length key = 32" and "keys_sized (n_crypto n)"
  shows "spends n lb iss isq node 0 (hp_add_address n lb H node key address)"
proof (cases "cstring_new address")
  case (Some t)
  let ?ls = "[(h_key H, key), (h_text H, t)]"
  have t: "t = address @ [0]" "0 \<notin> set address" using cstring_text [OF Some] by simp_all
  have a: "apart (spans ?ls)" using hp_layout_apart(1) [OF assms(1), of "length t"] assms(2) by simp
  have "spends n lb iss isq node 0 (act_call n lb ?ls (Add_address node (h_key H) (h_text H)))"
    by (rule spends_call)
      (use calls_move(1) mapped_local(1) [OF a, of "h_key H" key 32] str_ok_local [OF a, of "h_text H" address] t assms(2,3)
        in \<open>auto simp: live_handle_def simp del: put_all.simps\<close>)
  then show ?thesis unfolding hp_add_address_def Some bind_unwrap by (rule spends_then) simp
qed (simp add: hp_add_address_def act_unwrap_def act_bind_def act_panic_def spends_def sure_def)

lemma spends_hp_call:
  assumes "hp_layout H" and "length grp = 32" and "length key = 32" and "keys_sized (n_crypto n)"
  shows "spends n lb iss isq node 1 (hp_call n lb H node grp key)"
  unfolding spends_def
proof
  fix k
  let ?ping = "ascii ''ping''" and ?e = "n_endian n"
  let ?ls = "[(h_group H, grp), (h_key H, key), (h_text H, ?ping), (h_id H, wr64 ?e 0)]"
  let ?c = "Rpc_request node (h_group H) (h_key H) 0 (h_text H) 4 10000 (h_id H)"
  have len: "length ?ping = 4" by (simp add: ascii_def)
  have a: "apart (spans ?ls)" using hp_layout_apart(2) [OF assms(1), of "length ?ping"] assms(2,3) by simp
  note local = mapped_local [OF a]
  have c: "contract ?e ?c (s\<lparr>f_mem := put_all ?ls (f_mem s)\<rparr>)" if "f_handles s node \<noteq> None" for s :: "'a ffi"
    using local(1) [of "h_group H" grp 32] local(1) [of "h_key H" key 32] local(1) [of "h_text H" ?ping 4]
      local(2) [of "h_id H" "wr64 ?e 0" 8] hp_layout_apart(5) [OF assms(1)] that assms(2,3) len
    by (simp add: live_handle_def del: put_all.simps)
  have at: "load (put_all ?ls Map.empty) (h_id H) 8 \<noteq> None"
    using local(3) [of "h_id H" "wr64 ?e 0" 8 Map.empty] by (simp del: put_all.simps load.simps)
  have "sure (going n lb iss isq node (1 + k)) (act_call n lb ?ls ?c)
      (\<lambda>r p. going n lb iss isq node k p \<and> (\<exists>st. r = Goes st) \<and>
         (\<forall>q i. load (put_all ?ls Map.empty) q i \<noteq> None \<longrightarrow> load (f_mem (p_ffi p)) q i \<noteq> None))"
    by (rule going_call) (use calls_move(5) c assms(4) in auto)
  then have call: "sure (going n lb iss isq node (1 + k)) (act_call n lb ?ls ?c)
      (\<lambda>r p. going n lb iss isq node k p \<and> load (f_mem (p_ffi p)) (h_id H) 8 \<noteq> None)"
    by (rule sure_post) (use at in blast)
  show "sure (going n lb iss isq node (1 + k)) (hp_call n lb H node grp key) (\<lambda>_. going n lb iss isq node k)"
    unfolding hp_call_def read_id_def
    by (rule sure_bind [OF call])
      (auto simp: sure_def act_bind_def act_assert_def act_load_def act_return_def act_panic_def simp del: load.simps split: option.splits)
qed

lemma spends_bootstrap:
  assumes "hp_layout H" and "keys_sized (n_crypto n)"
  shows "spends n lb iss isq node 1 (hp_bootstrap n lb H node)"
proof -
  let ?ls = "[(h_id H, wr64 (n_endian n) 0)]"
  have a: "apart (spans ?ls)" using hp_layout_apart(3) [OF assms(1)] by simp
  have "spends n lb iss isq node 1 (act_call n lb ?ls (Dht_bootstrap node (h_id H)))"
    by (rule spends_call)
      (use calls_move(4) mapped_local(2) [OF a, of "h_id H" "wr64 (n_endian n) 0" 8] hp_layout_apart(5) [OF assms(1)] assms(2)
        in \<open>auto simp: live_handle_def simp del: put_all.simps\<close>)
  from spends_bind [where j = 0, OF this spends_basic(1)] show ?thesis unfolding hp_bootstrap_def by simp
qed

lemma spends_listener_event:
  assumes "hp_layout H" and "keys_sized (n_crypto n)"
  shows "spends n lb iss isq node 0 (listener_event n lb show_peer H role node ev)"
proof -
  let ?ls = "[(h_text H, ascii ''pong'')]"
  have len: "length (ascii ''pong'') = 4" by (simp add: ascii_def)
  have a: "apart (spans ?ls)" using hp_layout_apart(4) [OF assms(1)] by simp
  have "spends n lb iss isq node 0 (act_call n lb ?ls (Rpc_respond node (ev_id (fst ev)) (h_text H) 4))"
    by (rule spends_call)
      (use calls_move(2) mapped_local(1) [OF a, of "h_text H" "ascii ''pong''" 4] len assms(2)
        in \<open>auto simp: live_handle_def simp del: put_all.simps\<close>)
  then show ?thesis
    unfolding listener_event_def by (intro spends_then) (simp_all add: spends_then spends_tells)
qed

section \<open>Rounds and loops\<close>

definition beats_plain :: "('sw \<Rightarrow> request_id set) \<Rightarrow> ('sw \<Rightarrow> query_id set) \<Rightarrow> 'sw beat list \<Rightarrow> bool" where
  "beats_plain iss isq beats \<longleftrightarrow> list_all (\<lambda>b. list_all (\<lambda>t. grows iss isq (fst t)) (b_turns b) \<and> list_all (\<lambda>op. snd op = []) (b_sched b)) beats"

text \<open>At most one identifier for every turn of the thread and one for every beat.\<close>

fun beats_cost :: "'sw beat list \<Rightarrow> nat" where
  "beats_cost [] = 0"
| "beats_cost (b # bs) = length (b_turns b) + 1 + beats_cost bs"

lemma spends_poll:
  assumes "hp_layout H" and "list_all (\<lambda>op. snd op = []) sched" and "keys_sized (n_crypto n)" and "peer_keys_sized (n_crypto n)"
  shows "spends n lb iss isq node 0 (hp_poll n lb H node timeout_ms now sched)"
  unfolding spends_def sure_def
proof (intro allI impI)
  fix k and p :: "'a process"
  let ?s = "(p_ffi p)\<lparr>f_mem := put_all [(h_buf H, replicate HP_BUFFER 0)] (f_mem (p_ffi p))\<rparr>"
  assume p: "going n lb iss isq node (0 + k) p"
  then obtain h where h: "c_run n lb iss isq (p_ffi p)" "f_handles (p_ffi p) node = Some h" "id_mark (l_node h) + k + 1 < 2 ^ 64"
    by (auto simp: going_def)
  have "moves node 0 ?s (lp2p_poll (n_endian n) node (h_buf H) HP_BUFFER timeout_ms now sched ?s)" by (rule calls_move(3))
  moreover have "f_handles ?s node = Some h" using h(2) by simp
  ultimately have "\<exists>h'. f_handles s' node = Some h' \<and> id_mark (l_node h') \<le> id_mark (l_node h)"
    if "lp2p_poll (n_endian n) node (h_buf H) HP_BUFFER timeout_ms now sched ?s = Return (st, s')" for st s'
    using that unfolding moves_def by auto
  with hp_poll_cases [OF h(1,2) hp_layout_apart(6) [OF assms(1)] assms(2-4), of timeout_ms now] h(3)
  show "hp_poll n lb H node timeout_ms now sched p \<noteq> Undefined \<and>
      (\<forall>r p'. hp_poll n lb H node timeout_ms now sched p = Return (r, p') \<longrightarrow> going n lb iss isq node k p')"
    by (fastforce simp: going_def)
qed

lemma spends_turns:
  assumes "net_fresh n iss isq" and "list_all (\<lambda>t. grows iss isq (fst t)) ts"
  shows "spends n lb iss isq node (length ts) (act_turns n node ts)"
  unfolding spends_def sure_def
proof (intro allI impI)
  fix k and p :: "'a process"
  assume "going n lb iss isq node (length ts + k) p"
  then obtain h where h: "c_run n lb iss isq (p_ffi p)" "f_handles (p_ffi p) node = Some h" "id_mark (l_node h) + (length ts + k) + 1 < 2 ^ 64"
    by (auto simp: going_def)
  obtain ids where "reachable n iss isq (l_node h) ids" using c_run_ok [OF h(1,2)] by (auto simp: handle_ok_def)
  from turns_left [OF assms(1) this assms(2)] h(3)
  have t: "turns_ok n iss isq ts (l_node h)" "id_mark (node_turns n ts (l_node h)) \<le> id_mark (l_node h) + length ts" by simp_all
  from c_run_turns [OF h(1,2) t(1)] t(2) h(2,3)
  show "act_turns n node ts p \<noteq> Undefined \<and> (\<forall>r p'. act_turns n node ts p = Return (r, p') \<longrightarrow> going n lb iss isq node k p')"
    by (auto simp: act_turns_def going_def set_node_def)
qed

lemma spends_round:
  assumes "net_fresh n iss isq" and "hp_layout H" and "keys_sized (n_crypto n)" and "peer_keys_sized (n_crypto n)"
    and "beats_plain iss isq (b # bs)"
  shows "spends n lb iss isq node (length (b_turns b)) (hp_round n lb H node timeout_ms b)"
  using spends_bind [OF spends_turns [OF assms(1)] spends_poll [OF assms(2) _ assms(3,4)]] assms(5)
  by (auto simp: hp_round_def beats_plain_def)

lemma spends_until:
  assumes "net_fresh n iss isq" and "hp_layout H" and "keys_sized (n_crypto n)" and "peer_keys_sized (n_crypto n)"
    and "\<And>ev v. spends n lb iss isq node 0 (f ev v)"
  shows "beats_plain iss isq beats \<Longrightarrow> spends n lb iss isq node (beats_cost beats) (poll_until n lb H node timeout_ms f deadline beats acc)"
proof (induction beats arbitrary: acc)
  case Nil
  then show ?case by (cases acc) simp_all
next
  case (Cons b bs)
  have "spends n lb iss isq node (beats_cost bs) (act_bind (act_each f evs None) (poll_until n lb H node timeout_ms f deadline bs))" for evs
    using Cons by (intro spends_then spends_each assms(5)) (simp add: beats_plain_def)
  note round = spends_more [OF spends_bind [OF spends_round [OF assms(1-4) Cons.prems] this], of "beats_cost (b # bs)"]
  then show ?case by (cases acc) simp_all
qed

lemma spends_log [simp]: "spends n lb iss isq node j (hp_log n' show_peer role ev)"
  by (rule spends_tells) simp

lemma spends_relay:
  assumes "net_fresh n iss isq" and "hp_layout H" and "keys_sized (n_crypto n)" and "peer_keys_sized (n_crypto n)"
  shows "beats_plain iss isq beats \<Longrightarrow> spends n lb iss isq node (beats_cost beats) (relay_loop n lb show_peer H role node beats)"
    and "beats_plain iss isq beats \<Longrightarrow> spends n lb iss isq node (beats_cost beats) (listener_loop n lb show_peer H role node beats)"
proof (induction beats)
  case (Cons b bs)
  {
    case 1
    have "spends n lb iss isq node (beats_cost bs) (act_bind (act_each (\<lambda>ev _. hp_log n show_peer role ev) evs ())
        (\<lambda>_. relay_loop n lb show_peer H role node bs))" for evs
      using Cons.IH(1) 1 by (intro spends_then spends_each) (simp_all add: beats_plain_def)
    from spends_more [OF spends_bind [OF spends_round [OF assms 1] this], of "beats_cost (b # bs)"]
    show ?case by simp
  next
    case 2
    have "spends n lb iss isq node (beats_cost bs) (act_bind (act_each (\<lambda>ev _. listener_event n lb show_peer H role node ev) evs ())
        (\<lambda>_. listener_loop n lb show_peer H role node bs))" for evs
      using Cons.IH(2) 2 by (intro spends_then spends_each spends_listener_event assms) (simp add: beats_plain_def)
    from spends_more [OF spends_bind [OF spends_round [OF assms 2] this], of "beats_cost (b # bs)"]
    show ?case by simp
  }
qed simp_all

lemma spends_dial_events: "spends n lb iss isq node 0 (dial_events n show_peer role key cid evs d)"
  by (induction evs arbitrary: d) (auto simp: Let_def intro!: spends_then)

lemma spends_dialing:
  assumes "net_fresh n iss isq" and "hp_layout H" and "keys_sized (n_crypto n)" and "peer_keys_sized (n_crypto n)"
    and "length grp = 32" and "length key = 32"
  shows "beats_plain iss isq beats \<Longrightarrow>
    spends n lb iss isq node (beats_cost beats) (dialing_loop n lb show_peer H role node grp key deadline beats calling d)"
proof (induction beats arbitrary: calling d)
  case (Cons b bs)
  have bs: "beats_plain iss isq bs" using Cons.prems by (simp add: beats_plain_def)
  note IH = Cons.IH [OF bs]
  show ?case
  proof (cases calling)
    case None
    have "spends n lb iss isq node (1 + beats_cost bs) (act_bind (hp_call n lb H node grp key) (\<lambda>cid.
        dialing_loop n lb show_peer H role node grp key deadline bs (Some (cid, b_now b + from_secs 12)) d))"
      by (rule spends_bind [OF spends_hp_call [OF assms(2,5,6,3)] IH])
    then show ?thesis using None by (auto intro: spends_more)
  next
    case (Some c)
    obtain cid until where c: "calling = Some (cid, until)" using Some by (cases c) auto
    have "spends n lb iss isq node (beats_cost bs) (act_bind (dial_events n show_peer role key cid evs d) (\<lambda>(broke, d).
        if d_answered d then act_return (d, bs)
        else dialing_loop n lb show_peer H role node grp key deadline bs (if broke then None else Some (cid, until)) d))" for evs
      using IH by (intro spends_then spends_dial_events) auto
    note round = spends_more [OF spends_bind [OF spends_round [OF assms(1-4) Cons.prems] this], of "beats_cost (b # bs)"]
    show ?thesis
    proof (cases "b_clock b < until")
      case True
      then show ?thesis using round by (simp add: c)
    next
      case False
      then show ?thesis using spends_more [OF IH, of "beats_cost (b # bs)"] by (simp add: c)
    qed
  qed
qed simp

section \<open>The whole program\<close>

text \<open>Code that may shut the node down: the process is still that of a program that kept the contracts.\<close>

definition contracts_kept :: "'sw net \<Rightarrow> libs \<Rightarrow> ('sw \<Rightarrow> request_id set) \<Rightarrow> ('sw \<Rightarrow> query_id set) \<Rightarrow> 'a fate \<Rightarrow> 'sw process \<Rightarrow> bool" where
  "contracts_kept n lb iss isq r p \<longleftrightarrow> c_run n lb iss isq (p_ffi p)"

lemma spends_kept:
  "spends n lb iss isq node j a \<Longrightarrow> sure (going n lb iss isq node j) a (contracts_kept n lb iss isq)"
proof -
  assume "spends n lb iss isq node j a"
  then have "sure (going n lb iss isq node (j + 0)) a (\<lambda>_. going n lb iss isq node 0)" unfolding spends_def by (rule spec)
  then show ?thesis by (auto simp: sure_def contracts_kept_def going_def)
qed

lemma kept_bind:
  assumes "spends n lb iss isq node i m" and "\<And>x. sure (going n lb iss isq node j) (f x) (contracts_kept n lb iss isq)"
  shows "sure (going n lb iss isq node (i + j)) (act_bind m f) (contracts_kept n lb iss isq)"
proof -
  have "sure (going n lb iss isq node (i + j)) m (\<lambda>_. going n lb iss isq node j)" using assms(1) by (simp add: spends_def)
  then show ?thesis by (rule sure_bind) (use assms(2) in \<open>auto simp: contracts_kept_def going_def\<close>)
qed

lemma kept_then:
  "spends n lb iss isq node 0 m \<Longrightarrow> (\<And>x. sure (going n lb iss isq node j) (f x) (contracts_kept n lb iss isq)) \<Longrightarrow>
   sure (going n lb iss isq node j) (act_bind m f) (contracts_kept n lb iss isq)"
  using kept_bind [of n lb iss isq node 0 m j f] by simp

lemma kept_end:
  "spends n lb iss isq node i m \<Longrightarrow> (\<And>x. sure (going n lb iss isq node 0) (f x) (contracts_kept n lb iss isq)) \<Longrightarrow>
   sure (going n lb iss isq node i) (act_bind m f) (contracts_kept n lb iss isq)"
  using kept_bind [of n lb iss isq node i m 0 f] by simp

lemma sure_and: "sure P a Q \<Longrightarrow> (\<And>p r p'. a p = Return (r, p') \<Longrightarrow> R r p') \<Longrightarrow> sure P a (\<lambda>r p. Q r p \<and> R r p)"
  by (simp add: sure_def)

lemma sure_given: "(\<And>u. Q u \<Longrightarrow> sure P a R) \<Longrightarrow> sure (\<lambda>p. P p \<and> (\<exists>u. Q u)) a R"
  by (auto simp: sure_def)

lemma kept_shutdown:
  assumes "keys_sized (n_crypto n)"
  shows "sure (going n lb iss isq node j) (hp_shutdown n lb node turns code) (contracts_kept n lb iss isq)"
proof -
  let ?c = "Shutdown_call node turns"
  have "sure (going n lb iss isq node j) (act_call n lb [] ?c) (\<lambda>r p. contracts_kept n lb iss isq r p)"
  proof (rule sure_call)
    fix p :: "'a process" and st s'
    assume p: "going n lb iss isq node j p" and r: "run_call n lb ?c ((p_ffi p)\<lparr>f_mem := put_all [] (f_mem (p_ffi p))\<rparr>) = Return (st, s')"
    then obtain h where h: "c_run n lb iss isq (p_ffi p)" "f_handles (p_ffi p) node = Some h" "ids_left (l_node h)"
      by (auto simp: going_def ids_left_mark)
    have "contract (n_endian n) ?c (p_ffi p)" "call_env_ok n iss isq ?c (p_ffi p)"
      using h(2,3) by (simp_all add: live_handle_def call_env_ok_def)
    from calls [OF h(1) this] r show "contracts_kept n lb iss isq (Goes st) (p\<lparr>p_ffi := s'\<rparr>)"
      by (simp add: contracts_kept_def)
  qed (auto simp: going_def live_handle_def assms)
  then show ?thesis
    unfolding hp_shutdown_def by (rule sure_bind) (auto simp: contracts_kept_def sure_def act_exit_def)
qed

lemma spends_say [simp]: "spends n lb iss isq node j (hp_say role line)"
  by (rule spends_tells) simp

lemma kept_autonat:
  assumes "net_fresh n iss isq" and "hp_layout H" and "keys_sized (n_crypto n)" and "peer_keys_sized (n_crypto n)" and "beats_plain iss isq beats"
  shows "sure (going n lb iss isq node (beats_cost beats)) (autonat_client n lb show_peer H role transport node began beats turns)
    (contracts_kept n lb iss isq)"
proof -
  have "spends n lb iss isq node (beats_cost beats) (autonat_loop n lb show_peer H role node (began + from_secs 60) beats None)"
    unfolding autonat_loop_def by (intro spends_until assms spends_tells) simp
  moreover have "sure (going n lb iss isq node 0) (case reachability_text verdict of (word, code) \<Rightarrow>
      act_bind (hp_say role (ascii ''RESULT impl=rust transport='' @ transport @ ascii '' reachability='' @ word)) (\<lambda>_.
        hp_shutdown n lb node turns code)) (contracts_kept n lb iss isq)" for verdict
    by (auto split: prod.split intro!: kept_then kept_shutdown assms(3))
  ultimately show ?thesis unfolding autonat_client_def by (rule kept_end)
qed

text \<open>The beats that are left after the call are among those there were.\<close>

lemma dialing_left:
  "dialing_loop n lb show_peer H role node grp key deadline beats calling d p = Return (Goes (d', bs), p') \<Longrightarrow>
   \<exists>used. beats = used @ bs"
proof (induction beats arbitrary: calling d p)
  case (Cons b beats)
  have "\<exists>used. b # beats = used @ bs" if "\<exists>used. beats = used @ bs" using that by (metis append_Cons)
  moreover have "\<exists>used. b # beats = used @ beats" by (metis append_Cons append_Nil)
  ultimately show ?case
    using Cons by (cases calling) (auto simp: act_bind_def act_return_def split: if_splits outcome.splits fate.splits prod.splits)
qed (simp add: act_wait_def)

lemma beats_suffix:
  "beats_plain iss isq (used @ bs) \<Longrightarrow> beats_plain iss isq bs" "beats_cost bs \<le> beats_cost (used @ bs)"
  by (simp_all add: beats_plain_def, induction used) auto

lemma kept_dialer:
  assumes "net_fresh n iss isq" and "hp_layout H" and "keys_sized (n_crypto n)" and "peer_keys_sized (n_crypto n)" and "beats_plain iss isq beats"
    and "length grp = 32" and "length key = 32"
  shows "sure (going n lb iss isq node (2 * beats_cost beats)) (dialer_run n lb show_peer H role transport node grp key began beats turns)
    (contracts_kept n lb iss isq)"
proof -
  let ?k = "beats_cost beats"
  have "sure (going n lb iss isq node (?k + ?k)) (dialing_loop n lb show_peer H role node grp key deadline beats calling d)
      (\<lambda>_. going n lb iss isq node ?k)" for deadline calling d
    using spends_dialing [OF assms(1-4,6,7,5)] unfolding spends_def by blast
  then have dial: "sure (going n lb iss isq node (2 * ?k)) (dialing_loop n lb show_peer H role node grp key deadline beats calling d)
      (\<lambda>r p. going n lb iss isq node ?k p \<and> (\<forall>d' bs. r = Goes (d', bs) \<longrightarrow> (\<exists>used. beats = used @ bs)))" for deadline calling d
    unfolding mult_2 by (rule sure_and) (auto dest: dialing_left)
  have punch: "sure (going n lb iss isq node ?k) (act_bind (punch_loop n lb show_peer H role node key deadline bs punched) (\<lambda>punched.
      case punch_text punched of (outcome, code) \<Rightarrow> act_bind (hp_say role (line outcome)) (\<lambda>_. hp_shutdown n lb node turns code)))
      (contracts_kept n lb iss isq)" if "beats = used @ b # bs" for used b bs deadline punched line
  proof -
    have bs: "beats_plain iss isq bs" "beats_cost bs \<le> ?k"
      using beats_suffix [where used = "used @ [b]" and bs = bs] assms(5) that by simp_all
    have "spends n lb iss isq node (beats_cost bs) (punch_loop n lb show_peer H role node key deadline bs punched)"
      unfolding punch_loop_def by (intro spends_until assms bs(1) spends_tells) simp
    from spends_more [OF this bs(2)] show ?thesis
      by (rule kept_end) (auto split: prod.split intro!: kept_then kept_shutdown assms(3))
  qed
  have fails: "sure (going n lb iss isq node ?k) (act_bind (hp_say role line) (\<lambda>_. act_exit 2)) (contracts_kept n lb iss isq :: unit fate \<Rightarrow> _)" for line
    by (rule kept_then) (auto simp: sure_def act_exit_def contracts_kept_def going_def)
  have waits: "sure P act_wait (contracts_kept n lb iss isq :: unit fate \<Rightarrow> _)" for P by (simp add: sure_def act_wait_def)
  let ?rest = "\<lambda>(d, beats).
      if \<not> d_answered d then
        act_bind (hp_say role (ascii ''RESULT impl=rust transport='' @ transport @ ascii '' rpc=failed'')) (\<lambda>_. act_exit 2)
      else case beats of [] \<Rightarrow> act_wait
      | b # bs \<Rightarrow>
        act_bind (punch_loop n lb show_peer H role node key (b_clock b + from_secs 30) bs (d_punched d)) (\<lambda>punched.
        case punch_text punched of (outcome, code) \<Rightarrow>
        act_bind (hp_say role (ascii ''RESULT impl=rust transport='' @ transport @ ascii '' rpc=ok first_connection_relayed='' @
          bool_text (contains (d_first_connection d) (ascii ''/p2p-circuit'')) @ ascii '' '' @ outcome)) (\<lambda>_.
          hp_shutdown n lb node turns code))"
  have rest: "sure (going n lb iss isq node ?k) (?rest (d, bs)) (contracts_kept n lb iss isq)" if "beats = used @ bs" for used d bs
  proof (cases bs)
    case (Cons b bs')
    have "beats = used @ b # bs'" using that Cons by (simp only:)
    from punch [OF this] fails show ?thesis unfolding Cons by simp
  qed (use fails waits in simp)
  have "sure (\<lambda>p. going n lb iss isq node ?k p \<and> (\<forall>d' bs. Goes x = Goes (d', bs) \<longrightarrow> (\<exists>used. beats = used @ bs))) (?rest x)
      (contracts_kept n lb iss isq)" for x
  proof (cases x)
    case (Pair d bs)
    have "sure (\<lambda>p. going n lb iss isq node ?k p \<and> (\<exists>used. beats = used @ bs)) (?rest (d, bs)) (contracts_kept n lb iss isq)"
      by (rule sure_given) (rule rest)
    then show ?thesis unfolding Pair by (rule sure_pre) blast
  qed
  then show ?thesis
    unfolding dialer_run_def by (rule sure_bind [OF dial]) (auto simp: contracts_kept_def going_def)
qed

text \<open>From \<open>lp2p_start\<close> on the program has a node, and as many identifiers as were not used while it waited for the listeners.\<close>

lemma just_started_mark:
  "net_fresh n iss isq \<Longrightarrow> just_started n iss isq k h \<Longrightarrow> id_mark (l_node h) \<le> Suc k"
  using mark_start by (fastforce simp: just_started_def id_mark_def lp2p_of_def)

lemma going_key:
  assumes "keys_sized (n_crypto n)" and "length seed = 32" and "apart [(seed_at, 32), (key_at, 32)]"
    and "\<And>k. length k = 32 \<Longrightarrow> sure (going n lb iss isq node j) (f k) (contracts_kept n lb iss isq)"
  shows "sure (going n lb iss isq node j) (act_bind (key_of_seed n lb seed_at key_at seed) f) (contracts_kept n lb iss isq)"
proof -
  have "sure (going n lb iss isq node j) (key_of_seed n lb seed_at key_at seed)
      (\<lambda>r p. going n lb iss isq node j p \<and> (\<forall>k. r = Goes k \<longrightarrow> length k = 32))"
    using sure_key_of_seed [OF assms(1-3), of lb iss isq] unfolding sure_def going_def started_def by metis
  then show ?thesis
    by (rule sure_bind) (use assms(4) in \<open>auto simp: sure_def contracts_kept_def going_def\<close>)
qed

lemma going_started:
  assumes "net_fresh n iss isq" and "sure (started n lb iss isq hs) m
      (comes_to n lb iss isq (\<lambda>(node, key) p. has_node n iss isq i box node p \<and> length key = 32))"
    and "\<And>key :: lp2p_key. length key = 32 \<Longrightarrow> sure (going n lb iss isq box j) (f (box, key)) (contracts_kept n lb iss isq)"
    and "i + j + 2 < 2 ^ 64"
  shows "sure (started n lb iss isq hs) (act_bind m f) (contracts_kept n lb iss isq)"
proof (rule sure_bind [OF assms(2)])
  fix x :: "ptr \<times> lp2p_key"
  obtain node key where x: "x = (node, key)" by fastforce
  have "going n lb iss isq box j p"
    if "c_run n lb iss isq (p_ffi p)" "f_handles (p_ffi p) box = Some h" "just_started n iss isq i h" for p h
    using that just_started_mark [OF assms(1) that(3)] assms(4) by (auto simp: going_def)
  then show "sure (comes_to n lb iss isq (\<lambda>(node, key) p. has_node n iss isq i box node p \<and> length key = 32) (Goes x)) (f x)
      (contracts_kept n lb iss isq)"
    using assms(3) [of key] unfolding sure_def by (auto simp: comes_to_def has_node_def x)
qed (simp_all add: comes_to_def contracts_kept_def)

lemma sure_if: "(b \<Longrightarrow> sure P x Q) \<Longrightarrow> (\<not> b \<Longrightarrow> sure P y Q) \<Longrightarrow> sure P (if b then x else y) Q"
  by simp

lemma kept_start_key:
  assumes "keys_sized (n_crypto n)" and "length seed = 32" and "apart [(seed_at, 32), (key_at, 32)]"
    and "\<And>k. length k = 32 \<Longrightarrow> sure (started n lb iss isq hs) (f k) (contracts_kept n lb iss isq)"
  shows "sure (started n lb iss isq hs) (act_bind (key_of_seed n lb seed_at key_at seed) f) (contracts_kept n lb iss isq)"
proof -
  have "contracts_kept n lb iss isq = comes_to n lb iss isq (\<lambda>_ _. True)" by (intro ext) (simp add: contracts_kept_def comes_to_def)
  with start_key [OF assms(1-3)] assms(4) show ?thesis by metis
qed

lemma main_kept:
  assumes "keys_sized (n_crypto n)" and "peer_keys_sized (n_crypto n)" and "net_fresh n iss isq" and "hs box = None" and "box \<noteq> 0" and "box < 2 ^ 64"
    and "list_all (\<lambda>ev. grows iss isq (fst ev)) evs" and "\<forall>config e. built config = Inl e \<longrightarrow> e \<noteq> LP2P_OK"
    and "main_layout L (length (hp_addresses (or_text (env (ascii ''TRANSPORT'')) ''tcp'') (ascii ''0.0.0.0'')) + 1) 17" and "hp_layout H"
    and "beats_plain iss isq beats" and "length evs + 2 * beats_cost beats + 3 < 2 ^ 64"
  shows "sure (started n lb iss isq hs) (hp_main n lb show_peer env L H box ms built evs began beats turns) (contracts_kept n lb iss isq)"
proof -
  let ?k = "beats_cost beats" and ?transport = "or_text (env (ascii ''TRANSPORT'')) ''tcp''"
  note key_at = main_layout_apart(3) [OF assms(9)]
  have starts: "sure (started n lb iss isq hs) (act_bind (hp_start n lb L box ms built evs seed group_seed reach ?transport autonat) (case_prod f))
      (contracts_kept n lb iss isq)"
    if "length seed = 32" "length group_seed = 32"
      "\<And>key. length key = 32 \<Longrightarrow> sure (going n lb iss isq box (1 + 2 * ?k)) (f box key) (contracts_kept n lb iss isq)"
    for seed group_seed reach autonat and f :: "ptr \<Rightarrow> lp2p_key \<Rightarrow> (unit, 'a) act"
    by (rule going_started [OF assms(3) hp_starts [where hs = hs and box = box and built = built, OF assms(1,4-9) that(1,2)], where j = "1 + 2 * ?k"])
      (use that(3) assms(12) in auto)
  have relay: "sure (going n lb iss isq box (1 + 2 * ?k)) (act_bind (act_unwrap peer) (\<lambda>peer. act_bind (hp_say role (line peer))
      (\<lambda>_. relay_loop n lb show_peer H role box beats))) (contracts_kept n lb iss isq)" for peer :: "peer_id option" and role line
    by (rule spends_kept) (auto intro!: spends_then spends_more [OF spends_relay(1) [OF assms(3,10,1,2,11)]])
  have joins: "sure (going n lb iss isq box (1 + 2 * ?k)) (act_bind (hp_add_address n lb H box key addr) (\<lambda>_. act_bind (hp_bootstrap n lb H box) (\<lambda>_. m)))
      (contracts_kept n lb iss isq)"
    if "length key = 32" "sure (going n lb iss isq box ?k) m (contracts_kept n lb iss isq)" for key addr and m :: "(unit, 'a) act"
    by (intro kept_then kept_bind spends_add_address spends_bootstrap assms(1,10) that(1))
      (rule sure_pre [OF that(2)], erule going_less, simp)
  have dials: "sure (going n lb iss isq box (1 + 2 * ?k)) (dialer_run n lb show_peer H role ?transport box grp key began beats turns)
      (contracts_kept n lb iss isq)" if "length grp = 32" "length key = 32" for role grp key
    by (rule sure_pre [OF kept_dialer [OF assms(3,10,1,2,11) that]], erule going_less) simp
  have tell: "spends n lb iss isq box 0 (act_unwrap r)" for r :: "peer_id option" by simp
  show ?thesis
    unfolding hp_main_def Let_def
    by (intro kept_start_key sure_if starts relay joins length_replicate key_at assms(1) spends_kept spends_relay(2) kept_autonat assms(2,3,10,11)
        kept_then spends_add_address going_key tell dials)
qed

text \<open>
  C5: The hole-punching program is memory safe from its first line to its last. Whatever its environment variables say, in each of its
  four roles, however the network, the clock and the thread of the node behave, no call and no read of a buffer is undefined, and
  wherever the program ends, by exit or panic, it has kept the contracts of the C interface. The assumptions are about the machine: locals
  do not overlap, the box of the handle is a fresh address, and the schedule is too short to use up the \<open>2^64\<close> identifiers.
\<close>

theorem holepunch_safe:
  assumes "keys_sized (n_crypto n)" and "peer_keys_sized (n_crypto n)" and "net_fresh n iss isq"
    and "c_run n lb iss isq (p_ffi p)" and "f_handles (p_ffi p) box = None" and "box \<noteq> 0" and "box < 2 ^ 64"
    and "list_all (\<lambda>ev. grows iss isq (fst ev)) evs" and "\<forall>config e. built config = Inl e \<longrightarrow> e \<noteq> LP2P_OK"
    and "main_layout L (length (hp_addresses (or_text (env (ascii ''TRANSPORT'')) ''tcp'') (ascii ''0.0.0.0'')) + 1) 17" and "hp_layout H"
    and "beats_plain iss isq beats" and "length evs + 2 * beats_cost beats + 3 < 2 ^ 64"
  shows "hp_main n lb show_peer env L H box ms built evs began beats turns p \<noteq> Undefined \<and>
    (\<forall>r p'. hp_main n lb show_peer env L H box ms built evs began beats turns p = Return (r, p') \<longrightarrow> c_run n lb iss isq (p_ffi p'))"
proof -
  have "started n lb iss isq (f_handles (p_ffi p)) p" using assms(4) by (simp add: started_def)
  with main_kept [where hs = "f_handles (p_ffi p)" and built = built and env = env, OF assms(1-3,5-13)] show ?thesis
    unfolding sure_def contracts_kept_def by blast
qed

theorem holepunch_safe_witness:
  "hp_main demo_net demo_libs mh_digest (\<lambda>_. None) demo_main demo_hp 9000 0 (\<lambda>_. Inr 0) [] 0
     [\<lparr>b_clock = 0, b_turns = [], b_now = 0, b_sched = [(from_secs 1, [])]\<rparr>] [] \<lparr>p_ffi = demo_blank, p_out = []\<rparr> \<noteq> Undefined"
proof -
  let ?p = "\<lparr>p_ffi = demo_blank, p_out = []\<rparr> :: nat process"
  have run: "c_run demo_net demo_libs demo_issued demo_issued (p_ffi ?p)" "f_handles (p_ffi ?p) 9000 = None"
    by (simp_all add: demo_blank_def begins)
  have "length (decimal 4001) = 4" by (simp add: decimal.simps)
  then have lay: "main_layout demo_main (length (hp_addresses (or_text None ''tcp'') (ascii ''0.0.0.0'')) + 1) 17"
    by (simp add: main_layout_def demo_main_def hp_addresses_def or_text_def ascii_def LP2P_DELEGATION_BYTES_def aligned_def PORT_def)
  have hp: "hp_layout demo_hp" by (simp add: hp_layout_def demo_hp_def HP_BUFFER_def aligned_def)
  show ?thesis
    using holepunch_safe [OF demo_keys_sized demo_peer_keys demo_net_fresh run, where env = "\<lambda>_. None" and L = demo_main and H = demo_hp and evs = "[]"
      and built = "\<lambda>_. Inr 0" and beats = "[\<lparr>b_clock = 0, b_turns = [], b_now = 0, b_sched = [(from_secs 1, [])]\<rparr>]"] lay hp
    by (simp add: beats_plain_def)
qed

end
