(* ===== verification/UnitTests.thy ===== *)
theory UnitTests
  imports Strings FfiConfig "HOL-Library.Code_Target_Nat"
begin

text \<open>
  The unit tests of the crate (the \<open>tests\<close> modules of \<open>limits.rs\<close>, \<open>wire.rs\<close>, \<open>events.rs\<close>, \<open>delegation.rs\<close>, \<open>ffi.rs\<close> and
  \<open>keys.rs\<close>) as predicates of the model, under their names. That they hold is what connects the definitions with code that is known to
  run. Random peer ids and the current time are arguments.
\<close>

section \<open>Limits\<close>

definition GROUP :: lp2p_key where
  "GROUP = replicate 32 1"

definition test_request :: "peer_id \<Rightarrow> ip_addr option \<Rightarrow> u16 \<Rightarrow> limit_request" where
  "test_request peer ip protocol = \<lparr>lr_group = GROUP, lr_peer = peer, lr_ip = ip, lr_protocol = protocol\<rparr>"

definition test_rate :: "u32 \<Rightarrow> u32 \<Rightarrow> u32 \<Rightarrow> lp2p_rate" where
  "test_rate amnt interval brst = \<lparr>amount = amnt, interval_ms = interval, burst = brst\<rparr>"

text \<open>A sequence of checks with what each of them has to answer, and the limits after it.\<close>

fun expect :: "(limit_request \<times> nat \<times> instant \<times> (u16 + unit \<Rightarrow> bool)) list \<Rightarrow> limits \<Rightarrow> bool \<times> limits" where
  "expect [] L = (True, L)"
| "expect ((req, nbytes, now, answers) # rest) L =
     (case check req nbytes now L of (r, L) \<Rightarrow> if answers r then expect rest L else (False, L))"

definition is_ok :: "u16 + unit \<Rightarrow> bool" where
  "is_ok r \<longleftrightarrow> r = Inr ()"

definition is_err :: "u16 + unit \<Rightarrow> bool" where
  "is_err r \<longleftrightarrow> (case r of Inl _ \<Rightarrow> True | Inr _ \<Rightarrow> False)"

definition limited_by :: "u8 \<Rightarrow> u16 + unit \<Rightarrow> bool" where
  "limited_by scope r \<longleftrightarrow> r = Inl (ucast scope)"

definition a_bucket_allows_its_burst_and_refills_at_its_rate :: "peer_id \<Rightarrow> peer_id \<Rightarrow> instant \<Rightarrow> bool" where
  "a_bucket_allows_its_burst_and_refills_at_its_rate peer other start =
     (let L = set_limit LP2P_CLASS_UNKNOWN LP2P_SCOPE_PEER LP2P_PROTOCOL_ANY Messages (test_rate 1 1000 2) limits_default;
          later = start + from_millis 1100
      in fst (expect [
           (test_request peer None 0, 1, start, is_ok),
           (test_request peer None 1, 1, start, is_ok),
           (test_request peer None 0, 1, start, limited_by LP2P_SCOPE_PEER),
           (test_request other None 0, 1, start, is_ok),
           (test_request peer None 0, 1, later, is_ok),
           (test_request peer None 0, 1, later, is_err)] L))"

definition a_prefix_is_shared_and_a_relayed_connection_has_none :: "peer_id \<Rightarrow> peer_id \<Rightarrow> peer_id \<Rightarrow> peer_id \<Rightarrow> instant \<Rightarrow> bool" where
  "a_prefix_is_shared_and_a_relayed_connection_has_none p q r s now =
     (let L = set_limit LP2P_CLASS_UNKNOWN LP2P_SCOPE_IP_PREFIX LP2P_PROTOCOL_ANY Messages (test_rate 1 60000 1) limits_default
      in fst (expect [
           (test_request p (Some (V4 [10, 0, 0, 1])) 0, 1, now, is_ok),
           (test_request q (Some (V4 [10, 0, 0, 200])) 0, 1, now, limited_by LP2P_SCOPE_IP_PREFIX),
           (test_request r (Some (V4 [10, 0, 1, 1])) 0, 1, now, is_ok),
           (test_request s None 0, 1, now, is_ok)] L))"

definition classes_protocols_and_removal :: "peer_id \<Rightarrow> instant \<Rightarrow> bool" where
  "classes_protocols_and_removal peer now =
     (let L = set_limit 7 LP2P_SCOPE_GLOBAL 3 Messages (test_rate 1 60000 1) limits_default;
          (a, L) = expect [(test_request peer None 3, 1, now, is_ok), (test_request peer None 3, 1, now, is_ok)] L;
          L = set_class GROUP 7 L;
          (b, L) = expect [(test_request peer None 3, 1, now, is_ok), (test_request peer None 3, 1, now, is_err),
            (test_request peer None 4, 1, now, is_ok)] L;
          L = set_limit 7 LP2P_SCOPE_GLOBAL 3 Messages (test_rate 0 0 0) L;
          (c, L) = expect [(test_request peer None 3, 1, now, is_ok)] L;
          L = set_class GROUP LP2P_CLASS_BLOCKED L;
          (d, L) = expect [(test_request peer None 4, 1, now, (\<lambda>r. r = Inl LP2P_LIMITED_BLOCKED))] L;
          L = set_class GROUP LP2P_CLASS_UNKNOWN L
      in a \<and> b \<and> c \<and> d \<and> class_of L GROUP = LP2P_CLASS_UNKNOWN)"

definition a_refused_request_takes_no_token_from_the_other_limits :: "peer_id \<Rightarrow> instant \<Rightarrow> bool" where
  "a_refused_request_takes_no_token_from_the_other_limits peer now =
     (let L = set_limit LP2P_CLASS_UNKNOWN LP2P_SCOPE_PEER LP2P_PROTOCOL_ANY Messages (test_rate 1 60000 5) limits_default;
          L = set_limit LP2P_CLASS_UNKNOWN LP2P_SCOPE_GLOBAL LP2P_PROTOCOL_ANY Messages (test_rate 1 60000 1) L;
          req = test_request peer None 0;
          (a, L) = expect ((req, 1, now, is_ok) # replicate 10 (req, 1, now, limited_by LP2P_SCOPE_GLOBAL)) L;
          L = set_limit LP2P_CLASS_UNKNOWN LP2P_SCOPE_GLOBAL LP2P_PROTOCOL_ANY Messages (test_rate 0 0 0) L;
          (b, L) = expect (replicate 4 (req, 1, now, is_ok) @ [(req, 1, now, is_err)]) L
      in a \<and> b)"

definition a_limit_in_bytes_counts_the_size_and_holds_beside_one_in_messages :: "peer_id \<Rightarrow> instant \<Rightarrow> bool" where
  "a_limit_in_bytes_counts_the_size_and_holds_beside_one_in_messages peer now =
     (let L = set_limit LP2P_CLASS_UNKNOWN LP2P_SCOPE_PEER LP2P_PROTOCOL_TOPICS Bytes (test_rate 1000 1000 4000) limits_default;
          L = set_limit LP2P_CLASS_UNKNOWN LP2P_SCOPE_PEER LP2P_PROTOCOL_TOPICS Messages (test_rate 1 1000 3) L;
          req = test_request peer None LP2P_PROTOCOL_TOPICS;
          later = now + from_secs 1
      in fst (expect (replicate 3 (req, 1000, now, is_ok) @
           [(req, 1, now, limited_by LP2P_SCOPE_PEER),
            (req, 2500, later, limited_by LP2P_SCOPE_PEER),
            (req, 900, later, is_ok)]) L))"

fun allows :: "(peer_id \<times> instant \<times> bool) list \<Rightarrow> source_rate \<Rightarrow> bool" where
  "allows [] s = True"
| "allows ((peer, now, expected) # rest) s = (case allow peer now s of (r, s) \<Rightarrow> r = expected \<and> allows rest s)"

definition announcements_are_limited_per_source :: "peer_id \<Rightarrow> peer_id \<Rightarrow> instant \<Rightarrow> bool" where
  "announcements_are_limited_per_source a b now =
     allows (replicate 3 (a, now, True) @ [(a, now, False), (b, now, True), (a, now + from_secs 10, True)])
       (source_rate_new (from_secs 10) 3)"

fun count_reports :: "nat \<Rightarrow> instant \<Rightarrow> limits \<Rightarrow> nat \<times> limits" where
  "count_reports 0 now L = (0, L)"
| "count_reports (Suc k) now L =
     (case may_report now L of (r, L) \<Rightarrow> case count_reports k now L of (m, L) \<Rightarrow> (if r then Suc m else m, L))"

definition full_buckets_are_forgotten_and_events_are_bounded :: "peer_id \<Rightarrow> instant \<Rightarrow> bool" where
  "full_buckets_are_forgotten_and_events_are_bounded peer now =
     (let L = set_limit LP2P_CLASS_UNKNOWN LP2P_SCOPE_PEER LP2P_PROTOCOL_ANY Messages (test_rate 1 1000 1) limits_default;
          (a, L) = expect [(test_request peer None 0, 1, now, is_ok)] L;
          b = (hm_len (buckets L) = 1);
          L = sweep (now + from_secs 2) L;
          c = (buckets L = []);
          (reported, L) = count_reports 50 now L
      in a \<and> b \<and> c \<and> reported = unat EVENTS_PER_SECOND \<and> fst (may_report (now + from_secs 1) L))"

section \<open>Frames\<close>

definition frames_round_trip :: bool where
  "frames_round_trip =
     (let deleg = replicate LP2P_DELEGATION_BYTES 9
      in (case decode_request (encode_request deleg (ascii ''/gradido/federation/1'') (ascii ''hello'')) of
            None \<Rightarrow> False
          | Some req \<Rightarrow> rq_delegation req = deleg \<and> rq_protocol req = ascii ''/gradido/federation/1'' \<and> rq_payload req = ascii ''hello'') \<and>
         (case decode_response (encode_response deleg []) of None \<Rightarrow> False | Some res \<Rightarrow> rs_payload res = []))"

definition the_provider_key_is_the_multihash_js_libp2p_names_by_cid :: "crypto \<Rightarrow> bool" where
  "the_provider_key_is_the_multihash_js_libp2p_names_by_cid c =
     (hex (provider_key c (replicate 32 1)) = ascii ''122072cd6e8422c407fb6d098690f1130b7ded7ec2f7f5e1d30bd9d521f015363793'')"

definition a_topic_key_names_one_string :: bool where
  "a_topic_key_names_one_string =
     (topic_name (replicate 32 0xab) = ascii ''/lp2p/topic/1/abababababababababababababababababababababababababababababababab'')"

definition truncated_frames_are_refused :: bool where
  "truncated_frames_are_refused =
     (let frame = encode_request (replicate LP2P_DELEGATION_BYTES 9) (ascii ''/p'') (ascii ''x'')
      in decode_request (take 10 frame) = None \<and> decode_request [2] = None \<and> decode_response (take 100 frame) = None)"

section \<open>Events\<close>

text \<open>The fields of a header the tests look at: type, size, identifier and length of the data.\<close>

definition test_header :: "endian \<Rightarrow> bytes \<Rightarrow> nat \<times> nat \<times> nat \<times> nat" where
  "test_header e bs = (ne_value e (slice 0 2 bs), ne_value e (slice 4 4 bs), ne_value e (slice 8 8 bs), ne_value e (slice 84 4 bs))"

definition after_poll :: "poll_result \<Rightarrow> (int \<Rightarrow> bytes \<Rightarrow> event_queue \<Rightarrow> bool) \<Rightarrow> bool" where
  "after_poll r f = (case r of Returned n buf q \<Rightarrow> f n buf q | Waiting _ \<Rightarrow> False)"

definition records_are_padded_and_whole :: "endian \<Rightarrow> instant \<Rightarrow> bool" where
  "records_are_padded_and_whole e start =
     (let q = queue_new (2 ^ 16);
          q = push (event_data e (event_new LP2P_EV_LISTENING) (ascii ''abc'')) q;
          q = push (event_data e (event_new LP2P_EV_LISTENING) (ascii ''defgh'')) q
      in after_poll (poll e (replicate 100 0) 0 start [(start, [])] q) (\<lambda>n buf q.
           n = 96 \<and>
           (case test_header e buf of (t, sz, _, len) \<Rightarrow> t = unat LP2P_EV_LISTENING \<and> sz = 96 \<and> len = 3) \<and>
           after_poll (poll e (replicate 50 0) 0 start [(start, [])] q) (\<lambda>n _ q.
             n = LP2P_ERR_BUFFER_TOO_SMALL \<and>
             after_poll (poll e buf 0 start [(start, [])] q) (\<lambda>n buf q.
               n = 96 \<and>
               after_poll (poll e buf (from_millis 10) start [(start + from_millis 10, [])] q) (\<lambda>n _ _. n = 0)))))"

definition overflow_is_reported_before_the_next_events :: "endian \<Rightarrow> instant \<Rightarrow> bool" where
  "overflow_is_reported_before_the_next_events e start =
     (let q = queue_new 96;
          q = push (event_data e (event_new LP2P_EV_LISTENING) (ascii ''a'')) q;
          q = push (event_data e (event_new LP2P_EV_LISTENING) (ascii ''b'')) q;
          q = push (event_data e (event_new LP2P_EV_LISTENING) (ascii ''c'')) q
      in after_poll (poll e (replicate 1024 0) 0 start [(start, [])] q) (\<lambda>n buf q.
           n = 88 + 96 \<and> (case test_header e buf of (t, _, cid, _) \<Rightarrow> t = unat LP2P_EV_OVERFLOW \<and> cid = 2)))"

definition a_closed_queue_answers_its_status_once_drained :: "endian \<Rightarrow> instant \<Rightarrow> bool" where
  "a_closed_queue_answers_its_status_once_drained e start =
     (let q = close LP2P_ERR_SHUT_DOWN (push (event_build e (event_new LP2P_EV_LISTENING)) (queue_new 1024))
      in after_poll (poll e (replicate 1024 0) (from_secs 5) start [] q) (\<lambda>n buf q.
           n = 88 \<and> after_poll (poll e buf (from_secs 5) start [] q) (\<lambda>n _ _. n = LP2P_ERR_SHUT_DOWN)))"

section \<open>Keys, delegations and options\<close>

definition a_signed_delegation_verifies_and_survives_the_round_trip :: "crypto \<Rightarrow> u64 \<Rightarrow> bool" where
  "a_signed_delegation_verifies_and_survives_the_round_trip c now =
     (case sign c (replicate 32 1) (replicate 32 2) 0 of
        None \<Rightarrow> False
      | Some d \<Rightarrow> parse (to_bytes d) = Inr d \<and> verify_for c d (replicate 32 2) now = Inr ())"

definition anything_changed_is_refused :: "crypto \<Rightarrow> u64 \<Rightarrow> bool" where
  "anything_changed_is_refused c now =
     (case (sign c (replicate 32 1) (replicate 32 2) 0, sign c (replicate 32 1) (replicate 32 2) 1000) of
        (Some d, Some expired) \<Rightarrow>
          verify c (d\<lparr>d_node := replicate 32 3\<rparr>) now = Inl Signature \<and>
          verify_for c d (replicate 32 3) now = Inl WrongNode \<and>
          verify c expired now = Inl Expired \<and>
          parse (replicate 10 0) = Inl Length
      | _ \<Rightarrow> False)"

definition peer_id_round_trips_through_the_key :: "crypto \<Rightarrow> bool" where
  "peer_id_round_trips_through_the_key c =
     (case keypair_from_seed c (replicate 32 7) of
        None \<Rightarrow> False
      | Some keypair \<Rightarrow>
          (case public_key c keypair of
             None \<Rightarrow> False
           | Some key \<Rightarrow>
               (case peer_id c key of
                  None \<Rightarrow> False
                | Some peer \<Rightarrow> peer = to_peer_id c (keypair_public c keypair) \<and> key_of c peer = Some key)))"

definition a_rate_becomes_libp2ps_token_bucket :: bool where
  "a_rate_becomes_libp2ps_token_bucket =
     (token_bucket (test_rate 1 120000 30) = Some \<lparr>tb_burst = 30, tb_interval = from_secs 120\<rparr> \<and>
      map_option tb_interval (token_bucket (test_rate 10 1000 5)) = Some (from_millis 100) \<and>
      token_bucket (test_rate 0 1000 5) = None \<and>
      token_bucket (test_rate 1 1000 0) = None \<and>
      limit 0 = None \<and> limit 7 = Some 7)"

section \<open>Evaluation\<close>

text \<open>Code equations that keep numbers in binary and skip the rounding where nothing is rounded.\<close>

primrec num_bits :: "num \<Rightarrow> int" where
  "num_bits num.One = 1" | "num_bits (num.Bit0 k) = 1 + num_bits k" | "num_bits (num.Bit1 k) = 1 + num_bits k"

lemma bitlen_num: "int (bitlen (numeral k)) = num_bits k"
proof (induction k)
  case One
  then show ?case by (simp add: bitlen.simps)
next
  case (Bit0 k)
  then show ?case by (subst bitlen.simps) simp
next
  case (Bit1 k)
  then show ?case by (subst bitlen.simps) simp
qed

fun int_bits :: "int \<Rightarrow> int" where
  "int_bits i = (if i \<le> 0 then 0 else int (bitlen (nat i)))"

lemma int_bits_code [code]: "int_bits 0 = 0" "int_bits (Int.Pos k) = num_bits k" "int_bits (Int.Neg k) = 0"
  using bitlen_num [of k] by simp_all


lemma ilog2_code [code]: "ilog2 x = (case quotient_of x of (n, d) \<Rightarrow>
    let e = int_bits n - int_bits d in if 2 powi e \<le> x then e else e - 1)"
proof -
  have "int (bitlen (nat i)) = int_bits i" for i by (simp add: int_bits.simps bitlen.simps)
  then show ?thesis by (simp add: ilog2_def)
qed

lemma f64_of_nat_code [code]: "f64_of_nat n = rnd (of_int (int n))" by (simp add: f64_of_nat_def)

lemma rnd_code [code]: "rnd x = (case quotient_of x of (n, d) \<Rightarrow>
    if d = 1 \<and> \<bar>n\<bar> \<le> 9007199254740992 then x else if x > 0 then round_pos x else - round_pos (- x))"
proof -
  obtain n d where q: "quotient_of x = (n, d)" by fastforce
  have "rnd x = x" if "d = 1" "\<bar>n\<bar> \<le> 9007199254740992"
  proof -
    have x: "x = of_int n" using quotient_of_div [OF q] that by simp
    show ?thesis
    proof (cases "0 \<le> n")
      case True
      then show ?thesis using rnd_of_nat [of "nat n"] that x by (simp add: nat_le_iff)
    next
      case False
      then show ?thesis using rnd_of_nat [of "nat (- n)"] rnd_minus [of "of_int (- n)"] that x by (simp add: nat_le_iff)
    qed
  qed
  moreover have "quotient_of 0 = (0, 1)" by simp
  ultimately show ?thesis using q by (auto simp: rnd_def)
qed

lemma refill_code [code]: "refill b rate now =
    (if duration_since now (updated b) = 0 then b\<lparr>tokens := min (rnd (tokens b)) (u32_f64 (burst rate)), updated := now\<rparr>
     else b\<lparr>tokens := min (f64_add (tokens b) (f64_mul (as_secs_f64 (duration_since now (updated b))) (per_second rate))) (u32_f64 (burst rate)),
           updated := now\<rparr>)"
  by (simp add: refill_def f64_add_def f64_mul_def)

lemma source_refilled_code [code]: "source_refilled s b now =
    (if duration_since now (updated b) = 0 then rnd (tokens b)
     else f64_add (tokens b) (f64_mul (as_secs_f64 (duration_since now (updated b))) (sr_per_second s)))"
  by (simp add: source_refilled_def f64_add_def f64_mul_def)

section \<open>The tests pass\<close>

lemma limits_pass1: "a_bucket_allows_its_burst_and_refills_at_its_rate (PeerId 0 [1]) (PeerId 0 [2]) 0"
  by code_simp

lemma limits_pass2:
  "a_prefix_is_shared_and_a_relayed_connection_has_none (PeerId 0 [1]) (PeerId 0 [2]) (PeerId 0 [3]) (PeerId 0 [4]) 0"
  by code_simp

lemma limits_pass3: "classes_protocols_and_removal (PeerId 0 [1]) 0"
  by code_simp

lemma limits_pass4: "a_refused_request_takes_no_token_from_the_other_limits (PeerId 0 [1]) 0"
  by code_simp

lemma limits_pass5: "a_limit_in_bytes_counts_the_size_and_holds_beside_one_in_messages (PeerId 0 [1]) 0"
  by code_simp

lemma limits_pass6: "announcements_are_limited_per_source (PeerId 0 [1]) (PeerId 0 [2]) 0"
  by code_simp

lemma limits_pass7: "full_buckets_are_forgotten_and_events_are_bounded (PeerId 0 [1]) 0"
  by code_simp

lemma frames_pass: "frames_round_trip" "a_topic_key_names_one_string" "truncated_frames_are_refused"
  by code_simp+

lemma test_header_record:
  "event_wf h \<Longrightarrow> test_header e (event_data e h d @ rest) =
     (unat (ev_type h), unat (word_of_nat (padded_size (length d)) :: u32), unat (ev_id h), unat (word_of_nat (length d) :: u32))"
  by (simp add: test_header_def event_data_eq header_bytes_def event_header_def event_wf_def layout_simps)

lemmas queue_defs = after_poll_def queue_new_def push_def close_def poll_def poll_ready_def poll_locked_def Let_def write_at_def
  padded_size_def LP2P_EVENT_HEADER_BYTES_def event_build_def status_defs as_i32_small

lemma events_pass:
  "records_are_padded_and_whole e start" "overflow_is_reported_before_the_next_events e start"
  "a_closed_queue_answers_its_status_once_drained e start"
proof -
  have wf: "event_wf (event_new t)" "event_wf ((event_new t)\<lparr>ev_id := i\<rparr>)" for t i
    by (simp_all add: event_wf_def event_new_def)
  show "records_are_padded_and_whole e start"
    by (simp add: records_are_padded_and_whole_def queue_defs wf test_header_record from_millis_def) (simp add: event_new_def)
  show "overflow_is_reported_before_the_next_events e start"
    by (simp add: overflow_is_reported_before_the_next_events_def queue_defs wf test_header_record) (simp add: event_new_def)
  show "a_closed_queue_answers_its_status_once_drained e start"
    by (simp add: a_closed_queue_answers_its_status_once_drained_def queue_defs wf)
qed

lemma keys_pass:
  "a_signed_delegation_verifies_and_survives_the_round_trip demo_crypto 5000" "anything_changed_is_refused demo_crypto 5000"
  "peer_id_round_trips_through_the_key demo_crypto" "a_rate_becomes_libp2ps_token_bucket"
  by code_simp+

text \<open>The digest of the provider key test is a fact of SHA-256, so it is a hypothesis.\<close>

lemma provider_key_passes:
  assumes "sha256 c (replicate 32 1) =
    [0x72, 0xcd, 0x6e, 0x84, 0x22, 0xc4, 0x07, 0xfb, 0x6d, 0x09, 0x86, 0x90, 0xf1, 0x13, 0x0b, 0x7d,
     0xed, 0x7e, 0xc2, 0xf7, 0xf5, 0xe1, 0xd3, 0x0b, 0xd9, 0xd5, 0x21, 0xf0, 0x15, 0x36, 0x37, 0x93]"
  shows "the_provider_key_is_the_multihash_js_libp2p_names_by_cid c"
  unfolding the_provider_key_is_the_multihash_js_libp2p_names_by_cid_def provider_key_def assms
  by code_simp


end
